(* ===== verification/Prelude.thy ===== *)
theory Prelude
  imports Main "HOL-Library.Word" "HOL-Library.Signed_Division"
begin

unbundle bit_operations_syntax

text \<open>
  Shared vocabulary of the development: the machine types of the C++ code, the conversions
  between \<open>char\<close> and \<open>uint8_t\<close>, the writing of a received chunk into a caller's
  span, and the fact collections that the component theories extend.
\<close>

section \<open>Machine types\<close>

type_synonym u8 = "8 word"
type_synonym u16 = "16 word"
type_synonym u32 = "32 word"
type_synonym u64 = "64 word"

section \<open>Fact collections\<close>

named_theorems hex_facts \<open>hexadecimal digits and their values\<close>
named_theorems sys_defs \<open>definitions of the system call wrappers\<close>
named_theorems frame_facts \<open>what an operation leaves unchanged\<close>
named_theorems shape_facts \<open>lengths of byte arrays produced by the code\<close>

section \<open>Characters and bytes\<close>

text \<open>
  \<open>reinterpret_cast<const uint8_t*>\<close> on character data and \<open>static_cast<char>\<close> on a byte
  keep the eight bits.
\<close>

definition byte_of_char :: "char \<Rightarrow> u8" where
  "byte_of_char c = word_of_nat (of_char c)"

definition char_of_byte :: "u8 \<Rightarrow> char" where
  "char_of_byte b = char_of (unat b)"

lemma char_of_byte_of_char [simp]: "char_of_byte (byte_of_char c) = c"
  by (simp add: char_of_byte_def byte_of_char_def unat_of_nat)

lemma byte_of_char_of_byte [simp]: "byte_of_char (char_of_byte b) = b"
proof -
  have "unat b < 256" using unsigned_less [of b] by simp
  then show ?thesis by (simp add: char_of_byte_def byte_of_char_def)
qed

lemma map_char_byte_inverse [simp]:
  "map char_of_byte (map byte_of_char s) = s" "map byte_of_char (map char_of_byte bs) = bs"
  by (simp_all add: map_idI)

section \<open>Writing into a span\<close>

text \<open>
  A call that stores \<open>data\<close> at the start of the span \<open>buf\<close>. The result has the length of the
  span whatever the length of the data.
\<close>

definition overlay :: "'a list \<Rightarrow> 'a list \<Rightarrow> 'a list" where
  "overlay data buf = take (length buf) data @ drop (length data) buf"

lemma length_overlay [simp]: "length (overlay data buf) = length buf"
  by (simp add: overlay_def)

lemma overlay_Nil [simp]: "overlay [] buf = buf"
  by (simp add: overlay_def)

lemma take_overlay: "length data \<le> length buf \<Longrightarrow> take (length data) (overlay data buf) = data"
  by (simp add: overlay_def)

lemma drop_overlay:
  "length data \<le> length buf \<Longrightarrow> drop (length data) (overlay data buf) = drop (length data) buf"
  by (simp add: overlay_def)

text \<open>A write into the sub-span that starts at \<open>off\<close>: what precedes it is untouched.\<close>

definition write_tail :: "nat \<Rightarrow> 'a list \<Rightarrow> 'a list \<Rightarrow> 'a list" where
  "write_tail off sub buf = take off buf @ sub"

lemma length_write_tail:
  "length sub = length buf - off \<Longrightarrow> off \<le> length buf \<Longrightarrow> length (write_tail off sub buf) = length buf"
  by (simp add: write_tail_def)

section \<open>Bits\<close>

text \<open>
  The code builds numbers digit by digit with \<open>(v << n) | d\<close>. When \<open>d\<close> fits in \<open>n\<close> bits this is
  the sum of the shifted value and the digit.
\<close>

lemma push_bit_or_eq_add:
  fixes v d :: "'a :: semiring_bit_operations"
  assumes "take_bit n d = d"
  shows "push_bit n v OR d = push_bit n v + d"
proof -
  have "\<not> bit (push_bit n v) k \<or> \<not> bit d k" for k
    by (subst assms [symmetric]) (auto simp: bit_take_bit_iff bit_push_bit_iff)
  then show ?thesis by (rule disjunctive_add [symmetric])
qed

lemma push_bit_4_or:
  assumes "0 \<le> h" "h < (16::int)"
  shows "push_bit 4 cv OR h = 16 * cv + h"
proof -
  have "push_bit 4 cv OR h = push_bit 4 cv + h"
    by (rule push_bit_or_eq_add) (use assms in \<open>simp add: take_bit_int_eq_self\<close>)
  then show ?thesis by (simp add: push_bit_eq_mult)
qed

lemma unat_less_256 [simp]: "unat (b :: u8) < 256"
  using unsigned_less [of b] by simp

lemma high_nibble_less [simp]: "unat (b :: u8) div 16 < 16"
  by (rule less_mult_imp_div_less) simp

end
