(* ===== verification/Hex_Text.thy ===== *)
theory Hex_Text
  imports Prelude
begin

text \<open>
  Hexadecimal text as \<open>include/simple_rfcomm/types.hpp\<close> reads and writes it: the value of a
  digit (the three-way range test that the parsers of \<open>Address\<close> and \<open>Uuid\<close> repeat) and the
  formatting \<open>std::hex << std::setw(2) << std::setfill('0') << static_cast<int>(b)\<close>.
\<close>

section \<open>Digits\<close>

text \<open>
  The C++ code compares \<open>char\<close> values. Whether \<open>char\<close> is signed does not matter: a byte of 128
  or more lies outside the three ranges either way.
\<close>

definition hex_val :: "char \<Rightarrow> int" where
  "hex_val c =
     (let v = of_char c :: int in
      if of_char (CHR ''0'') \<le> v \<and> v \<le> of_char (CHR ''9'') then v - of_char (CHR ''0'')
      else if of_char (CHR ''a'') \<le> v \<and> v \<le> of_char (CHR ''f'') then v - of_char (CHR ''a'') + 10
      else if of_char (CHR ''A'') \<le> v \<and> v \<le> of_char (CHR ''F'') then v - of_char (CHR ''A'') + 10
      else - 1)"

definition is_hex :: "char \<Rightarrow> bool" where
  "is_hex c \<longleftrightarrow> 0 \<le> hex_val c"

text \<open>The byte that two digits denote.\<close>

definition hex_byte :: "char \<Rightarrow> char \<Rightarrow> u8" where
  "hex_byte c d = word_of_int (16 * hex_val c + hex_val d)"

lemma hex_val_less [hex_facts]: "hex_val c < 16"
  by (simp add: hex_val_def Let_def)

lemma is_hexD [hex_facts]: "is_hex c \<Longrightarrow> 0 \<le> hex_val c"
  by (simp add: is_hex_def)

lemma is_hex_not_less: "is_hex c \<Longrightarrow> \<not> hex_val c < 0"
  by (simp add: is_hex_def)

lemma shift_hex: "is_hex c \<Longrightarrow> push_bit 4 v OR hex_val c = 16 * v + hex_val c"
  by (rule push_bit_4_or) (simp_all add: hex_facts)

lemma separators_not_hex [simp]: "\<not> is_hex (CHR '':'')" "\<not> is_hex (CHR ''-'')"
  by (simp_all add: is_hex_def hex_val_def)

text \<open>The exception of the throwing parsers, \<open>std::invalid_argument\<close>, with its message.\<close>

datatype parse_error = InvalidArgument string

section \<open>The local variables of the parsers\<close>

text \<open>
  \<open>Address::try_parse\<close> and \<open>Uuid::try_parse\<close> keep the same four locals: the array under
  construction, the index of the byte being read, the value read so far and how many of its digits
  have been seen. \<open>static_cast<uint8_t>(current_val)\<close> is reduction modulo 256.
\<close>

record parse_state =
  parsed :: "u8 list"
  byte_idx :: nat
  current_val :: int
  digits :: nat

definition parse_init :: "nat \<Rightarrow> parse_state" where
  "parse_init n = \<lparr>parsed = replicate n 0, byte_idx = 0, current_val = 0, digits = 0\<rparr>"

definition add_digit :: "int \<Rightarrow> parse_state \<Rightarrow> parse_state" where
  "add_digit h st = st\<lparr>current_val := push_bit 4 (current_val st) OR h, digits := Suc (digits st)\<rparr>"

definition store_byte :: "parse_state \<Rightarrow> parse_state" where
  "store_byte st = st\<lparr>parsed := (parsed st)[byte_idx st := word_of_int (current_val st)],
     byte_idx := Suc (byte_idx st), current_val := 0, digits := 0\<rparr>"

section \<open>Formatting\<close>

text \<open>
  \<open>std::hex\<close> writes a non-negative \<open>int\<close> without leading zeros, \<open>std::setw(2)\<close> with the fill
  character \<open>0\<close> pads it on the left to two characters. The alphabet is the one that
  \<open>std::uppercase\<close> or \<open>std::nouppercase\<close> selects.
\<close>

definition upper_digits :: string where "upper_digits = ''0123456789ABCDEF''"

definition lower_digits :: string where "lower_digits = ''0123456789abcdef''"

fun hex_str :: "string \<Rightarrow> nat \<Rightarrow> string" where
  "hex_str ds n = (if n < 16 then [ds ! n] else hex_str ds (n div 16) @ [ds ! (n mod 16)])"

declare hex_str.simps [simp del]

definition set_w2 :: "string \<Rightarrow> string" where
  "set_w2 s = replicate (2 - length s) (CHR ''0'') @ s"

definition put_byte :: "string \<Rightarrow> u8 \<Rightarrow> string" where
  "put_byte ds b = set_w2 (hex_str ds (unat b))"

definition alphabet :: "string \<Rightarrow> bool" where
  "alphabet ds \<longleftrightarrow> ds = upper_digits \<or> ds = lower_digits"

lemma alphabet_both [simp]: "alphabet upper_digits" "alphabet lower_digits"
  by (simp_all add: alphabet_def)

lemma alphabet_zero: "alphabet ds \<Longrightarrow> ds ! 0 = CHR ''0''"
  by (auto simp: alphabet_def upper_digits_def lower_digits_def)

lemma hex_val_digit: "alphabet ds \<Longrightarrow> n < 16 \<Longrightarrow> hex_val (ds ! n) = int n"
proof -
  have all: "\<forall>n\<in>set [0..<16]. hex_val (upper_digits ! n) = int n"
    "\<forall>n\<in>set [0..<16]. hex_val (lower_digits ! n) = int n"
    by code_simp+
  assume "alphabet ds" and "n < 16"
  then show ?thesis using all by (auto simp: alphabet_def)
qed

lemma is_hex_digit: "alphabet ds \<Longrightarrow> n < 16 \<Longrightarrow> is_hex (ds ! n)"
  by (simp add: is_hex_def hex_val_digit)

text \<open>Every byte is written as exactly two digits, the high nibble first.\<close>

lemma put_byte_eq:
  assumes "alphabet ds"
  shows "put_byte ds b = [ds ! (unat b div 16), ds ! (unat b mod 16)]"
proof (cases "unat b < 16")
  case True
  then show ?thesis
    by (simp add: put_byte_def set_w2_def hex_str.simps alphabet_zero [OF assms])
next
  case False
  then show ?thesis
    by (simp add: put_byte_def set_w2_def hex_str.simps [of _ "unat b"] hex_str.simps [of _ "unat b div 16"])
qed

lemma length_put_byte [shape_facts]: "alphabet ds \<Longrightarrow> length (put_byte ds b) = 2"
  by (simp add: put_byte_eq)

lemma hex_byte_put_byte:
  assumes "alphabet ds"
  shows "hex_byte (ds ! (unat (b :: u8) div 16)) (ds ! (unat b mod 16)) = b"
proof -
  have "hex_val (ds ! (unat b div 16)) = int (unat b div 16)"
    "hex_val (ds ! (unat b mod 16)) = int (unat b mod 16)"
    using assms by (simp_all add: hex_val_digit)
  then have "16 * hex_val (ds ! (unat b div 16)) + hex_val (ds ! (unat b mod 16)) =
      int (16 * (unat b div 16) + unat b mod 16)"
    by (simp only: of_nat_add of_nat_mult of_nat_numeral)
  also have "\<dots> = int (unat b)" by (simp only: mult_div_mod_eq)
  finally show ?thesis by (simp add: hex_byte_def)
qed

lemma put_byte_is_hex:
  assumes "alphabet ds"
  shows "is_hex (ds ! (unat (b :: u8) div 16))" "is_hex (ds ! (unat b mod 16))"
  using assms by (simp_all add: is_hex_digit)

end
