(* ===== verification/Address.thy ===== *)
theory Address
  imports Hex_Text "HOL-Library.List_Lexorder"
begin

text \<open>
  \<open>struct Address\<close> of \<open>include/simple_rfcomm/types.hpp\<close>: a Bluetooth device address as six bytes,
  most significant first, with its parser, printer, 64-bit conversions and defaulted ordering.
\<close>

section \<open>The type\<close>

text \<open>
  \<open>std::array<uint8_t, 6>\<close> is a list; \<open>wf_address\<close> says that it has six elements, which every
  operation below establishes or keeps.
\<close>

datatype address = Address (address_bytes: "u8 list")

definition wf_address :: "address \<Rightarrow> bool" where
  "wf_address a \<longleftrightarrow> length (address_bytes a) = 6"

definition address_any :: address where
  "address_any = Address [0, 0, 0, 0, 0, 0]"

section \<open>Parsing\<close>

text \<open>One pass over the characters; \<open>None\<close> is an early \<open>return std::nullopt\<close> of the loop.\<close>

fun address_parse_loop :: "string \<Rightarrow> parse_state \<Rightarrow> parse_state option" where
  "address_parse_loop [] st = Some st"
| "address_parse_loop (c # cs) st =
     (if 0 \<le> hex_val c then
        (let st' = add_digit (hex_val c) st
         in if 2 < digits st' then None else address_parse_loop cs st')
      else if c = CHR '':'' \<or> c = CHR ''-'' then
        (if digits st \<noteq> 2 \<or> 5 \<le> byte_idx st then None
         else address_parse_loop cs (store_byte st))
      else None)"

definition address_parse_end :: "parse_state \<Rightarrow> address option" where
  "address_parse_end st =
     (if digits st \<noteq> 2 \<or> byte_idx st \<noteq> 5 then None
      else Some (Address (parsed (store_byte st))))"

definition address_try_parse :: "string \<Rightarrow> address option" where
  "address_try_parse str =
     (case address_parse_loop str (parse_init 6) of
        None \<Rightarrow> None
      | Some st \<Rightarrow> address_parse_end st)"

text \<open>\<open>Address::parse\<close> throws \<open>std::invalid_argument\<close> with a message that quotes the input.\<close>

definition address_parse :: "string \<Rightarrow> parse_error + address" where
  "address_parse str =
     (case address_try_parse str of
        None \<Rightarrow> Inl (InvalidArgument (''Invalid Bluetooth address format: '' @ str))
      | Some a \<Rightarrow> Inr a)"

section \<open>Printing and 64-bit conversion\<close>

fun address_print_loop :: "nat \<Rightarrow> u8 list \<Rightarrow> string" where
  "address_print_loop i [] = []"
| "address_print_loop i (b # bs) =
     put_byte upper_digits b @ (if i + 1 < 6 then '':'' else []) @ address_print_loop (Suc i) bs"

definition address_to_string :: "address \<Rightarrow> string" where
  "address_to_string a = address_print_loop 0 (address_bytes a)"

fun shift_in :: "u64 \<Rightarrow> u8 list \<Rightarrow> u64" where
  "shift_in val [] = val"
| "shift_in val (b # bs) = shift_in (push_bit 8 val OR ucast b) bs"

definition address_to_uint64 :: "address \<Rightarrow> u64" where
  "address_to_uint64 a = shift_in 0 (address_bytes a)"

text \<open>The loop of \<open>from_uint64\<close> runs the index down from 5 to 0; \<open>Suc i\<close> stands for index \<open>i\<close>.\<close>

fun shift_out :: "nat \<Rightarrow> u64 \<Rightarrow> u8 list \<Rightarrow> u8 list" where
  "shift_out 0 val bs = bs"
| "shift_out (Suc i) val bs = shift_out i (drop_bit 8 val) (bs[i := ucast (val AND 255)])"

definition address_from_uint64 :: "u64 \<Rightarrow> address" where
  "address_from_uint64 val = Address (shift_out 6 val (address_bytes address_any))"

section \<open>The reference grammar\<close>

text \<open>
  A text is an address when it has seventeen characters, a separator at every third position and
  hexadecimal digits elsewhere. \<open>address_fields n\<close> reads \<open>n + 1\<close> two-digit fields.
\<close>

definition is_sep :: "char \<Rightarrow> bool" where
  "is_sep c \<longleftrightarrow> c = CHR '':'' \<or> c = CHR ''-''"

fun address_fields :: "nat \<Rightarrow> string \<Rightarrow> u8 list option" where
  "address_fields 0 [c, d] = (if is_hex c \<and> is_hex d then Some [hex_byte c d] else None)"
| "address_fields (Suc n) (c # d # s # cs) =
     (if is_hex c \<and> is_hex d \<and> is_sep s
      then map_option (Cons (hex_byte c d)) (address_fields n cs) else None)"
| "address_fields _ _ = None"

definition address_text :: "string \<Rightarrow> bool" where
  "address_text s \<longleftrightarrow> length s = 17 \<and>
     list_all (\<lambda>i. if i mod 3 = 2 then is_sep (s ! i) else is_hex (s ! i)) [0..<17]"

definition address_of_text :: "string \<Rightarrow> address" where
  "address_of_text s = Address (map (\<lambda>k. hex_byte (s ! (3 * k)) (s ! (3 * k + 1))) [0..<6])"

lemma is_sep_not_hex: "is_sep c \<Longrightarrow> \<not> is_hex c"
  by (auto simp: is_sep_def)

lemma address_parse_loop_field:
  assumes "digits st = 0" "current_val st = 0"
  shows "address_parse_loop (c # d # s # cs) st =
    (if is_hex c \<and> is_hex d \<and> is_sep s \<and> byte_idx st < 5 then
       address_parse_loop cs (st\<lparr>parsed := (parsed st)[byte_idx st := hex_byte c d],
         byte_idx := Suc (byte_idx st)\<rparr>)
     else None)"
proof (cases "is_hex c \<and> is_hex d")
  case True
  then have "push_bit 4 (push_bit 4 0 OR hex_val c) OR hex_val d = 16 * hex_val c + hex_val d"
    by (simp add: shift_hex)
  with True assms show ?thesis
    by (cases st) (auto simp: is_hex_def is_sep_def add_digit_def store_byte_def Let_def hex_byte_def
        shift_hex separators_not_hex [unfolded is_hex_def])
next
  case False
  with assms show ?thesis
    by (auto simp: is_hex_def is_sep_def add_digit_def Let_def)
qed

lemma address_parse_loop_last:
  assumes "digits st = 0" "current_val st = 0"
  shows "Option.bind (address_parse_loop [] st) address_parse_end = None"
    and "Option.bind (address_parse_loop [c] st) address_parse_end = None"
    and "Option.bind (address_parse_loop [c, d] st) address_parse_end =
      (if is_hex c \<and> is_hex d \<and> byte_idx st = 5
       then Some (Address ((parsed st)[5 := hex_byte c d])) else None)"
proof -
  show "Option.bind (address_parse_loop [] st) address_parse_end = None"
    using assms by (simp add: address_parse_end_def)
  show "Option.bind (address_parse_loop [c] st) address_parse_end = None"
    using assms by (simp add: address_parse_end_def add_digit_def Let_def)
  have "is_hex c \<Longrightarrow> is_hex d \<Longrightarrow>
      push_bit 4 (push_bit 4 0 OR hex_val c) OR hex_val d = 16 * hex_val c + hex_val d"
    by (simp add: shift_hex)
  then show "Option.bind (address_parse_loop [c, d] st) address_parse_end =
      (if is_hex c \<and> is_hex d \<and> byte_idx st = 5
       then Some (Address ((parsed st)[5 := hex_byte c d])) else None)"
    using assms by (auto simp: address_parse_end_def add_digit_def store_byte_def Let_def is_hex_def
        hex_byte_def)
qed

text \<open>The loop, entered at a field boundary, reads exactly the fields that the grammar reads.\<close>

lemma address_parse_loop_fields:
  assumes "digits st = 0" "current_val st = 0" "byte_idx st + n = 5" "length (parsed st) = 6"
  shows "Option.bind (address_parse_loop cs st) address_parse_end =
    map_option (\<lambda>bs. Address (take (byte_idx st) (parsed st) @ bs)) (address_fields n cs)"
  using assms
proof (induction n cs arbitrary: st rule: address_fields.induct)
  case (1 c d)
  then have "(parsed st)[5 := hex_byte c d] = take 5 (parsed st) @ [hex_byte c d]"
    by (simp add: upd_conv_take_nth_drop)
  with 1 show ?case
    by (simp add: address_parse_loop_last del: address_parse_loop.simps)
next
  case (2 n c d s cs)
  let ?st = "st\<lparr>parsed := (parsed st)[byte_idx st := hex_byte c d], byte_idx := Suc (byte_idx st)\<rparr>"
  show ?case
  proof (cases "is_hex c \<and> is_hex d \<and> is_sep s")
    case True
    have "take (Suc (byte_idx st)) (parsed ?st) = take (byte_idx st) (parsed st) @ [hex_byte c d]"
      using "2.prems" by (simp add: take_Suc_conv_app_nth)
    moreover have "Option.bind (address_parse_loop cs ?st) address_parse_end =
        map_option (\<lambda>bs. Address (take (byte_idx ?st) (parsed ?st) @ bs)) (address_fields n cs)"
      using "2.prems" True by (intro "2.IH") simp_all
    ultimately show ?thesis
      using True "2.prems" by (simp add: address_parse_loop_field option.map_comp comp_def
          del: address_parse_loop.simps)
  next
    case False
    with "2.prems" show ?thesis
      by (auto simp add: address_parse_loop_field simp del: address_parse_loop.simps)
  qed
qed (auto simp: address_parse_loop_last address_parse_loop_field simp del: address_parse_loop.simps)

lemma address_try_parse_fields:
  "address_try_parse s = map_option Address (address_fields 5 s)"
proof -
  have "Option.bind (address_parse_loop s (parse_init 6)) address_parse_end =
      map_option (\<lambda>bs. Address (take 0 (replicate 6 0) @ bs)) (address_fields 5 s)"
    using address_parse_loop_fields [of "parse_init 6" 5 s] by (simp add: parse_init_def)
  then show ?thesis
    by (cases "address_parse_loop s (parse_init 6)") (simp_all add: address_try_parse_def)
qed

text \<open>The same grammar by positions.\<close>

lemma all_less_add_3: "(\<forall>i<Suc (Suc (Suc m)). P i) \<longleftrightarrow> P 0 \<and> P 1 \<and> P 2 \<and> (\<forall>i<m. P (i + 3))"
proof
  assume r: "P 0 \<and> P 1 \<and> P 2 \<and> (\<forall>i<m. P (i + 3))"
  show "\<forall>i<Suc (Suc (Suc m)). P i"
  proof (intro allI impI)
    fix i assume i: "i < Suc (Suc (Suc m))"
    show "P i"
    proof (cases "i < 3")
      case True
      then have "i = 0 \<or> i = 1 \<or> i = 2" by arith
      with r show ?thesis by auto
    next
      case False
      then obtain j where "i = j + 3" by (metis add.commute le_add_diff_inverse not_less)
      with r i show ?thesis by simp
    qed
  qed
qed simp

definition text_pos :: "string \<Rightarrow> nat \<Rightarrow> bool" where
  "text_pos s i \<longleftrightarrow> (if i mod 3 = 2 then is_sep (s ! i) else is_hex (s ! i))"

lemma text_pos_Cons3:
  "(\<forall>i<Suc (Suc (Suc m)). text_pos (c # d # x # cs) i) \<longleftrightarrow>
     is_hex c \<and> is_hex d \<and> is_sep x \<and> (\<forall>i<m. text_pos cs i)"
  by (simp only: all_less_add_3) (simp add: text_pos_def nth_Cons')

lemma address_fields_positions:
  "address_fields n s =
     (if length s = 3 * n + 2 \<and> (\<forall>i<length s. text_pos s i)
      then Some (map (\<lambda>k. hex_byte (s ! (3 * k)) (s ! (3 * k + 1))) [0..<Suc n]) else None)"
proof (induction n s rule: address_fields.induct)
  case (1 c d)
  show ?case by (auto simp: text_pos_def less_Suc_eq)
next
  case (2 n c d x cs)
  have "map (\<lambda>k. hex_byte ((c # d # x # cs) ! (3 * k)) ((c # d # x # cs) ! (3 * k + 1)))
      [0..<Suc (Suc n)] =
      hex_byte c d # map (\<lambda>k. hex_byte (cs ! (3 * k)) (cs ! (3 * k + 1))) [0..<Suc n]"
    by (simp only: upt_conv_Cons [OF zero_less_Suc] list.map map_Suc_upt [symmetric] map_map)
      (simp add: nth_Cons')
  with 2 show ?case by (simp add: text_pos_Cons3 del: upt_Suc)
qed auto

section \<open>Shifting bytes in and out of a 64-bit word\<close>

lemma shift_in_snoc: "shift_in v (bs @ [b]) = push_bit 8 (shift_in v bs) OR ucast b"
  by (induction bs arbitrary: v) simp_all

lemma take_bit_shift_in:
  "8 * length bs \<le> 64 \<Longrightarrow> take_bit (8 * length bs) (shift_in 0 bs) = shift_in 0 bs"
proof (induction bs rule: rev_induct)
  case (snoc b bs)
  then have IH: "take_bit (8 * length bs) (shift_in 0 bs) = shift_in 0 bs" by simp
  show ?case
  proof (rule bit_word_eqI)
    fix i assume "i < LENGTH(64)"
    have "bit (shift_in 0 bs) (i - 8) \<Longrightarrow> i - 8 < 8 * length bs"
      by (subst (asm) IH [symmetric]) (simp add: bit_take_bit_iff)
    moreover have "bit b i \<Longrightarrow> i < 8" by (auto dest: bit_imp_le_length)
    ultimately show "bit (take_bit (8 * length (bs @ [b])) (shift_in 0 (bs @ [b]))) i =
        bit (shift_in 0 (bs @ [b])) i"
      by (auto simp: shift_in_snoc bit_take_bit_iff bit_or_iff bit_push_bit_iff bit_ucast_iff)
  qed
qed simp

lemma take_bit_56_shift_in:
  assumes "length bs \<le> 7"
  shows "take_bit 56 (shift_in 0 bs) = shift_in 0 bs"
proof -
  have t: "take_bit (8 * length bs) (shift_in 0 bs) = shift_in 0 bs"
    using assms by (simp add: take_bit_shift_in)
  have "take_bit 56 (take_bit (8 * length bs) (shift_in 0 bs)) = take_bit (8 * length bs) (shift_in 0 bs)"
    using assms by (simp only: take_bit_take_bit) (simp add: min_def)
  then show ?thesis by (simp only: t)
qed

lemma shift_out_append:
  "length xs = n \<Longrightarrow> shift_out n v (xs @ ys) = shift_out n v xs @ ys"
proof (induction n arbitrary: v xs ys)
  case (Suc n)
  then obtain zs z where xs: "xs = zs @ [z]" "length zs = n"
    by (metis length_Suc_conv_rev)
  then have "(xs @ ys)[n := w] = zs @ (w # ys)" and "xs[n := w] = zs @ [w]" for w
    by (simp_all add: list_update_append)
  with Suc.IH [OF xs(2)] show ?case by simp
qed simp

lemma length_shift_out [simp]: "length (shift_out n v bs) = length bs"
  by (induction n arbitrary: v bs) simp_all

lemma shift_out_snoc:
  "length xs = n \<Longrightarrow>
     shift_out (Suc n) v (xs @ [z]) = shift_out n (drop_bit 8 v) xs @ [ucast (v AND 255)]"
  by (simp add: list_update_append shift_out_append)

lemma low_byte_snoc: "ucast ((push_bit 8 (v :: u64) OR ucast (b :: u8)) AND 255) = b"
proof (rule bit_word_eqI)
  fix i assume i: "i < LENGTH(8)"
  have "bit (255 :: u64) i" using i bit_mask_iff [of 8 i, where ?'a = u64] by (simp add: mask_eq_exp_minus_1)
  with i show "bit (ucast ((push_bit 8 v OR ucast b) AND 255) :: u8) i = bit b i"
    by (simp add: bit_simps)
qed

lemma high_bytes_snoc:
  assumes "take_bit 56 (v :: u64) = v"
  shows "drop_bit 8 (push_bit 8 v OR ucast (b :: u8)) = v"
proof (rule bit_word_eqI)
  fix i assume i: "i < LENGTH(64)"
  have "bit v i \<Longrightarrow> i < 56" by (subst (asm) assms [symmetric]) (simp add: bit_take_bit_iff)
  moreover have "bit b (8 + i) = False" using bit_imp_le_length [of b "8 + i"] by auto
  ultimately show "bit (drop_bit 8 (push_bit 8 v OR ucast b)) i = bit v i"
    by (auto simp: bit_drop_bit_eq bit_or_iff bit_push_bit_iff bit_ucast_iff)
qed

lemma shift_out_shift_in:
  "length bs \<le> 7 \<Longrightarrow> length ys = length bs \<Longrightarrow> shift_out (length bs) (shift_in 0 bs) ys = bs"
proof (induction bs arbitrary: ys rule: rev_induct)
  case (snoc b bs)
  then obtain zs z where ys: "ys = zs @ [z]" "length zs = length bs"
    by (metis length_Suc_conv_rev length_append_singleton)
  have "drop_bit 8 (shift_in 0 (bs @ [b])) = shift_in 0 bs"
    unfolding shift_in_snoc using snoc.prems
    by (intro high_bytes_snoc take_bit_56_shift_in) simp
  with ys snoc show ?case
    by (simp add: shift_out_snoc shift_in_snoc low_byte_snoc del: shift_out.simps)
qed simp

lemma shift_in_shift_out:
  "length bs = n \<Longrightarrow> shift_in 0 (shift_out n v bs) = take_bit (8 * n) v"
proof (induction n arbitrary: v bs)
  case (Suc n)
  then obtain zs z where bs: "bs = zs @ [z]" "length zs = n"
    by (metis length_Suc_conv_rev)
  then have "shift_in 0 (shift_out (Suc n) v bs) =
      push_bit 8 (take_bit (8 * n) (drop_bit 8 v)) OR ucast (ucast (v AND 255) :: u8)"
    using Suc.IH by (simp add: shift_out_snoc shift_in_snoc del: shift_out.simps)
  also have "\<dots> = take_bit (8 * Suc n) v"
  proof (rule bit_word_eqI)
    fix i assume i: "i < LENGTH(64)"
    have "bit (255 :: u64) i \<longleftrightarrow> i < 8"
      using i bit_mask_iff [of 8 i, where ?'a = u64] by (auto simp: mask_eq_exp_minus_1)
    with i show "bit (push_bit 8 (take_bit (8 * n) (drop_bit 8 v)) OR ucast (ucast (v AND 255) :: u8)) i =
        bit (take_bit (8 * Suc n) v) i"
      by (auto simp: bit_simps)
  qed
  finally show ?case .
qed simp

definition be_value :: "u8 list \<Rightarrow> nat" where
  "be_value bs = foldl (\<lambda>n b. 256 * n + unat b) 0 bs"

lemma be_value_snoc: "be_value (bs @ [b]) = 256 * be_value bs + unat b"
  by (simp add: be_value_def)

lemma be_value_less: "be_value bs < 256 ^ length bs"
proof (induction bs rule: rev_induct)
  case (snoc b bs)
  have "256 * be_value bs + unat b < 256 * Suc (be_value bs)" by simp
  also have "\<dots> \<le> 256 * 256 ^ length bs" using snoc by (intro mult_le_mono) auto
  finally show ?case by (simp add: be_value_snoc)
qed (simp add: be_value_def)

lemma unat_shift_in:
  assumes "length bs \<le> 8"
  shows "unat (shift_in 0 bs) = be_value bs"
  using assms
proof (induction bs rule: rev_induct)
  case (snoc b bs)
  let ?v = "shift_in 0 bs"
  have IH: "unat ?v = be_value bs" using snoc by simp
  have "256 ^ length bs \<le> (256 :: nat) ^ 7" using snoc.prems by (intro power_increasing) auto
  with be_value_less [of bs] have small: "be_value bs < 256 ^ 7" by linarith
  have "shift_in 0 (bs @ [b]) = push_bit 8 ?v + ucast b"
    unfolding shift_in_snoc
    by (rule push_bit_or_eq_add) (rule bit_word_eqI, auto simp: bit_simps dest: bit_imp_le_length)
  also have "\<dots> = ?v * 256 + ucast b" by (simp add: push_bit_eq_mult)
  also have "unat \<dots> = 256 * be_value bs + unat b"
  proof -
    have "be_value bs * 256 + unat b < 2 ^ 64" using small unat_less_256 [of b] by (simp del: unat_less_256)
    then show ?thesis by (simp add: unat_word_ariths IH unsigned_ucast_eq take_bit_eq_mod)
  qed
  finally show ?case by (simp add: be_value_snoc)
qed (simp add: be_value_def)

lemma be_value_Cons: "be_value (b # bs) = unat b * 256 ^ length bs + be_value bs"
proof -
  have "foldl (\<lambda>n b. 256 * n + unat b) k bs = k * 256 ^ length bs + be_value bs" for k
    by (induction bs rule: rev_induct) (simp_all add: be_value_def algebra_simps)
  then show ?thesis by (simp add: be_value_def [of "b # bs"])
qed

lemma be_value_less_iff: "length xs = length ys \<Longrightarrow> be_value xs < be_value ys \<longleftrightarrow> xs < ys"
proof (induction xs ys rule: list_induct2)
  case (Cons x xs y ys)
  have bx: "be_value xs < 256 ^ length ys" and "by": "be_value ys < 256 ^ length ys"
    using be_value_less [of xs] be_value_less [of ys] Cons by simp_all
  consider "unat x < unat y" | "unat x = unat y" | "unat y < unat x" by linarith
  then show ?case
  proof cases
    case 1
    then have "Suc (unat x) * 256 ^ length ys \<le> unat y * 256 ^ length ys" by (intro mult_le_mono1) simp
    with 1 bx Cons show ?thesis by (simp add: be_value_Cons word_less_nat_alt)
  next
    case 2
    then have "x = y" by (rule unsigned_word_eqI)
    with Cons show ?thesis by (simp add: be_value_Cons)
  next
    case 3
    then have "Suc (unat y) * 256 ^ length ys \<le> unat x * 256 ^ length ys" by (intro mult_le_mono1) simp
    with 3 "by" Cons show ?thesis by (auto simp add: be_value_Cons word_less_nat_alt)
  qed
qed simp

section \<open>The defaulted comparison\<close>

text \<open>
  \<open>operator<=>(const Address&) const = default\<close> compares the arrays element by element. The type
  becomes a linear order of the library, so that its ordering facts apply.
\<close>

definition address_le :: "address \<Rightarrow> address \<Rightarrow> bool" where
  "address_le a b \<longleftrightarrow> address_bytes a \<le> address_bytes b"

definition address_lt :: "address \<Rightarrow> address \<Rightarrow> bool" where
  "address_lt a b \<longleftrightarrow> address_bytes a < address_bytes b"

instantiation address :: linorder
begin

definition less_eq_address :: "address \<Rightarrow> address \<Rightarrow> bool" where
  "less_eq_address = address_le"

definition less_address :: "address \<Rightarrow> address \<Rightarrow> bool" where
  "less_address = address_lt"

instance
  by standard (auto simp: less_eq_address_def less_address_def address_le_def address_lt_def address.expand)

end

section \<open>Well-formedness\<close>

lemma wf_addressE:
  assumes "wf_address a"
  obtains b0 b1 b2 b3 b4 b5 where "a = Address [b0, b1, b2, b3, b4, b5]"
proof -
  obtain bs where a: "a = Address bs" by (cases a)
  with assms have "length bs = 6" by (simp add: wf_address_def)
  then obtain b0 b1 b2 b3 b4 b5 where "bs = [b0, b1, b2, b3, b4, b5]"
    by (auto simp: numeral_eq_Suc length_Suc_conv)
  with a that show thesis by blast
qed

lemma wf_address_of_text [shape_facts]: "wf_address (address_of_text s)"
  by (simp add: wf_address_def address_of_text_def)

lemma wf_address_any [shape_facts]: "wf_address address_any"
  by (simp add: wf_address_def address_any_def)

lemma address_any_replicate: "address_bytes address_any = replicate 6 0"
  by code_simp

lemma wf_address_from_uint64 [shape_facts]: "wf_address (address_from_uint64 v)"
  by (simp add: wf_address_def address_from_uint64_def address_any_def)

section \<open>Properties\<close>

lemma address_text_positions: "address_text s \<longleftrightarrow> length s = 17 \<and> (\<forall>i<length s. text_pos s i)"
  by (auto simp: address_text_def text_pos_def list_all_iff atLeast0LessThan)

text \<open>
  C11. \<open>Address::try_parse\<close> accepts exactly the seventeen-character texts with hexadecimal digits and
  a separator (colon or dash, in any mixture) at every third position, and its result is the six
  bytes the digit pairs denote; on every other text it returns \<open>nullopt\<close>.
\<close>

theorem address_try_parse_correct:
  "address_try_parse s = (if address_text s then Some (address_of_text s) else None)"
  by (simp only: address_try_parse_fields address_fields_positions address_text_positions)
    (simp add: address_of_text_def del: upt_Suc)

lemma address_to_string_fields:
  assumes "wf_address a"
  shows "address_fields 5 (address_to_string a) = Some (address_bytes a)"
proof -
  note digit = put_byte_eq [OF alphabet_both(1)] put_byte_is_hex [OF alphabet_both(1)]
    hex_byte_put_byte [OF alphabet_both(1)]
  from assms obtain b0 b1 b2 b3 b4 b5 where "a = Address [b0, b1, b2, b3, b4, b5]"
    by (rule wf_addressE)
  moreover have "(5 :: nat) = Suc (Suc (Suc (Suc (Suc 0))))" by simp
  ultimately show ?thesis
    by (simp only:) (simp add: address_to_string_def digit is_sep_def)
qed

text \<open>C13. Parsing the text that \<open>to_string\<close> writes gives back the address.\<close>

theorem address_print_parse:
  "wf_address a \<Longrightarrow> address_try_parse (address_to_string a) = Some a"
  by (simp add: address_try_parse_fields address_to_string_fields)

theorem address_print_parse_witness:
  "address_to_string (Address [156, 199, 211, 246, 230, 168]) = ''9C:C7:D3:F6:E6:A8''
   \<and> address_try_parse ''9C:C7:D3:F6:E6:A8'' = Some (Address [156, 199, 211, 246, 230, 168])"
proof -
  have s: "address_to_string (Address [156, 199, 211, 246, 230, 168]) = ''9C:C7:D3:F6:E6:A8''"
    by code_simp
  have "wf_address (Address [156, 199, 211, 246, 230, 168])" by (simp add: wf_address_def)
  from address_print_parse [OF this] s show ?thesis by simp
qed

text \<open>
  \<open>to_uint64\<close> is the big-endian value of the six bytes, below \<open>2 ^ 48\<close>, and \<open>from_uint64\<close>
  inverts it; from any 64-bit value \<open>from_uint64\<close> keeps the lower 48 bits and drops the rest.
\<close>

theorem address_uint64_value:
  assumes "wf_address a"
  shows "unat (address_to_uint64 a) = be_value (address_bytes a)
    \<and> unat (address_to_uint64 a) < 2 ^ 48
    \<and> address_from_uint64 (address_to_uint64 a) = a
    \<and> address_to_uint64 (address_from_uint64 v) = take_bit 48 v"
proof -
  have len: "length (address_bytes a) = 6" using assms by (simp add: wf_address_def)
  then have v: "unat (address_to_uint64 a) = be_value (address_bytes a)"
    by (simp add: address_to_uint64_def unat_shift_in)
  moreover have "be_value (address_bytes a) < 2 ^ 48"
    using be_value_less [of "address_bytes a"] len by simp
  moreover have "shift_out 6 (shift_in 0 (address_bytes a)) (replicate 6 0) = address_bytes a"
    using shift_out_shift_in [of "address_bytes a" "replicate 6 0"] len by simp
  moreover have "address_to_uint64 (address_from_uint64 v) = take_bit 48 v"
    using shift_in_shift_out [of "replicate 6 0" 6 v]
    by (simp add: address_to_uint64_def address_from_uint64_def address_any_replicate)
  ultimately show ?thesis
    by (simp add: address_from_uint64_def address_to_uint64_def address_any_replicate)
qed

theorem address_uint64_value_witness:
  "address_from_uint64 (address_to_uint64 (Address [0, 17, 34, 51, 68, 85])) =
     Address [0, 17, 34, 51, 68, 85]"
  using address_uint64_value [of "Address [0, 17, 34, 51, 68, 85]"] by (simp add: wf_address_def)

text \<open>
  The defaulted comparison orders addresses as their 64-bit values, so sorting by either key
  gives the same order.
\<close>

theorem address_order_uint64:
  assumes "wf_address a" "wf_address b"
  shows "a < b \<longleftrightarrow> address_to_uint64 a < address_to_uint64 b"
  using assms be_value_less_iff [of "address_bytes a" "address_bytes b"]
  by (simp add: wf_address_def less_address_def address_lt_def word_less_nat_alt address_to_uint64_def unat_shift_in)

theorem address_order_uint64_witness:
  "Address [0, 0, 0, 0, 0, 9] < Address [0, 0, 0, 0, 1, 0]"
  using address_order_uint64 [of "Address [0, 0, 0, 0, 0, 9]" "Address [0, 0, 0, 0, 1, 0]"]
  by (simp add: wf_address_def address_to_uint64_def)

end
