(* ===== verification/Uuid.thy ===== *)
theory Uuid
  imports Hex_Text "HOL-Library.List_Lexorder"
begin

text \<open>
  \<open>struct Uuid\<close> of \<open>include/simple_rfcomm/types.hpp\<close>: a 128-bit UUID as sixteen bytes in
  big-endian order, the expansion of 16-bit UUIDs over the Bluetooth base UUID, the parser of both
  text forms, the printer and the defaulted ordering.
\<close>

section \<open>The type\<close>

datatype uuid = Uuid (uuid_bytes: "u8 list")

definition wf_uuid :: "uuid \<Rightarrow> bool" where
  "wf_uuid u \<longleftrightarrow> length (uuid_bytes u) = 16"

definition uuid_from_16bit :: "u16 \<Rightarrow> uuid" where
  "uuid_from_16bit short_uuid = Uuid
     [0x00, 0x00,
      ucast (drop_bit 8 short_uuid AND 0xFF),
      ucast (short_uuid AND 0xFF),
      0x00, 0x00, 0x10, 0x00,
      0x80, 0x00, 0x00, 0x80, 0x5F, 0x9B, 0x34, 0xFB]"

definition uuid_serial_port :: uuid where
  "uuid_serial_port = uuid_from_16bit 0x1101"

section \<open>Parsing\<close>

fun uuid_short_loop :: "string \<Rightarrow> int \<Rightarrow> int option" where
  "uuid_short_loop [] val = Some val"
| "uuid_short_loop (c # cs) val =
     (if hex_val c < 0 then None else uuid_short_loop cs (push_bit 4 val OR hex_val c))"

fun uuid_long_loop :: "string \<Rightarrow> parse_state \<Rightarrow> parse_state option" where
  "uuid_long_loop [] st = Some st"
| "uuid_long_loop (c # cs) st =
     (if c = CHR ''-'' then uuid_long_loop cs st
      else if hex_val c < 0 then None
      else let st' = add_digit (hex_val c) st
           in if digits st' = 2 then
                if 16 \<le> byte_idx st' then None else uuid_long_loop cs (store_byte st')
              else uuid_long_loop cs st')"

definition uuid_parse_end :: "parse_state \<Rightarrow> uuid option" where
  "uuid_parse_end st = (if digits st \<noteq> 0 \<or> byte_idx st \<noteq> 16 then None else Some (Uuid (parsed st)))"

definition uuid_try_parse :: "string \<Rightarrow> uuid option" where
  "uuid_try_parse str =
     (if length str = 4 then
        (case uuid_short_loop str 0 of
           None \<Rightarrow> None
         | Some val \<Rightarrow> Some (uuid_from_16bit (word_of_int val)))
      else
        (case uuid_long_loop str (parse_init 16) of
           None \<Rightarrow> None
         | Some st \<Rightarrow> uuid_parse_end st))"

text \<open>\<open>Uuid::parse\<close> throws \<open>std::invalid_argument\<close> with a message that quotes the input.\<close>

definition uuid_parse :: "string \<Rightarrow> parse_error + uuid" where
  "uuid_parse str =
     (case uuid_try_parse str of
        None \<Rightarrow> Inl (InvalidArgument (''Invalid UUID format: '' @ str))
      | Some u \<Rightarrow> Inr u)"

section \<open>Printing\<close>

fun uuid_print_loop :: "nat \<Rightarrow> u8 list \<Rightarrow> string" where
  "uuid_print_loop i [] = []"
| "uuid_print_loop i (b # bs) =
     (if i = 4 \<or> i = 6 \<or> i = 8 \<or> i = 10 then ''-'' else []) @
     put_byte lower_digits b @ uuid_print_loop (Suc i) bs"

definition uuid_to_string :: "uuid \<Rightarrow> string" where
  "uuid_to_string u = uuid_print_loop 0 (uuid_bytes u)"

section \<open>The defaulted comparison\<close>

definition uuid_le :: "uuid \<Rightarrow> uuid \<Rightarrow> bool" where
  "uuid_le a b \<longleftrightarrow> uuid_bytes a \<le> uuid_bytes b"

definition uuid_lt :: "uuid \<Rightarrow> uuid \<Rightarrow> bool" where
  "uuid_lt a b \<longleftrightarrow> uuid_bytes a < uuid_bytes b"

instantiation uuid :: linorder
begin

definition less_eq_uuid :: "uuid \<Rightarrow> uuid \<Rightarrow> bool" where
  "less_eq_uuid = uuid_le"

definition less_uuid :: "uuid \<Rightarrow> uuid \<Rightarrow> bool" where
  "less_uuid = uuid_lt"

instance
  by standard (auto simp: less_eq_uuid_def less_uuid_def uuid_le_def uuid_lt_def uuid.expand)

end

section \<open>The reference reading\<close>

text \<open>The bytes of a digit text, two digits each.\<close>

fun hex_pairs :: "string \<Rightarrow> u8 list" where
  "hex_pairs (c # d # cs) = hex_byte c d # hex_pairs cs"
| "hex_pairs _ = []"

definition no_dashes :: "string \<Rightarrow> string" where
  "no_dashes s = filter (\<lambda>c. c \<noteq> CHR ''-'') s"

definition base_tail :: "u8 list" where
  "base_tail = [0x00, 0x00, 0x10, 0x00, 0x80, 0x00, 0x00, 0x80, 0x5F, 0x9B, 0x34, 0xFB]"

definition uuid_of_text :: "string \<Rightarrow> uuid option" where
  "uuid_of_text s =
     (if length s = 4 then
        if list_all is_hex s then Some (Uuid ([0, 0] @ hex_pairs s @ base_tail)) else None
      else if list_all is_hex (no_dashes s) \<and> length (no_dashes s) = 32
           then Some (Uuid (hex_pairs (no_dashes s))) else None)"

lemma uuid_long_loop_no_dashes: "uuid_long_loop (no_dashes s) st = uuid_long_loop s st"
  by (induction s st rule: uuid_long_loop.induct) (auto simp: no_dashes_def Let_def)

lemma uuid_long_loop_pair:
  assumes "digits st = 0" "current_val st = 0" "c \<noteq> CHR ''-''" "d \<noteq> CHR ''-''"
  shows "uuid_long_loop (c # d # cs) st =
    (if is_hex c \<and> is_hex d \<and> byte_idx st < 16 then
       uuid_long_loop cs (st\<lparr>parsed := (parsed st)[byte_idx st := hex_byte c d],
         byte_idx := Suc (byte_idx st)\<rparr>)
     else None)"
proof -
  have "is_hex c \<Longrightarrow> is_hex d \<Longrightarrow>
      push_bit 4 (push_bit 4 0 OR hex_val c) OR hex_val d = 16 * hex_val c + hex_val d"
    by (simp add: shift_hex)
  with assms show ?thesis
    by (cases st) (auto simp: is_hex_def add_digit_def store_byte_def Let_def hex_byte_def)
qed

lemma uuid_long_loop_pairs:
  assumes "digits st = 0" "current_val st = 0" "byte_idx st \<le> 16" "length (parsed st) = 16"
    and "CHR ''-'' \<notin> set ds"
  shows "Option.bind (uuid_long_loop ds st) uuid_parse_end =
    (if list_all is_hex ds \<and> byte_idx st + length ds div 2 = 16 \<and> even (length ds)
     then Some (Uuid (take (byte_idx st) (parsed st) @ hex_pairs ds)) else None)"
  using assms
proof (induction ds arbitrary: st rule: hex_pairs.induct)
  case (1 c d cs)
  let ?st = "st\<lparr>parsed := (parsed st)[byte_idx st := hex_byte c d], byte_idx := Suc (byte_idx st)\<rparr>"
  show ?case
  proof (cases "is_hex c \<and> is_hex d \<and> byte_idx st < 16")
    case True
    have "take (Suc (byte_idx st)) (parsed ?st) = take (byte_idx st) (parsed st) @ [hex_byte c d]"
      using "1.prems" True by (simp add: take_Suc_conv_app_nth)
    moreover have "Option.bind (uuid_long_loop cs ?st) uuid_parse_end =
      (if list_all is_hex cs \<and> byte_idx ?st + length cs div 2 = 16 \<and> even (length cs)
       then Some (Uuid (take (byte_idx ?st) (parsed ?st) @ hex_pairs cs)) else None)"
      using "1.prems" True by (intro "1.IH") simp_all
    ultimately show ?thesis
      using True "1.prems" by (auto simp add: uuid_long_loop_pair simp del: uuid_long_loop.simps)
  next
    case False
    with "1.prems" show ?thesis
      by (auto simp add: uuid_long_loop_pair simp del: uuid_long_loop.simps)
  qed
qed (auto simp: uuid_parse_end_def add_digit_def is_hex_def Let_def)

lemma uuid_long_form:
  "length s \<noteq> 4 \<Longrightarrow> uuid_try_parse s = uuid_of_text s"
proof -
  assume s: "length s \<noteq> 4"
  have "Option.bind (uuid_long_loop (no_dashes s) (parse_init 16)) uuid_parse_end =
      (if list_all is_hex (no_dashes s) \<and> length (no_dashes s) div 2 = 16 \<and> even (length (no_dashes s))
       then Some (Uuid (hex_pairs (no_dashes s))) else None)"
    using uuid_long_loop_pairs [of "parse_init 16" "no_dashes s"]
    by (simp add: parse_init_def no_dashes_def)
  moreover have "n div 2 = 16 \<and> even n \<longleftrightarrow> n = 32" for n :: nat by presburger
  ultimately have "Option.bind (uuid_long_loop s (parse_init 16)) uuid_parse_end =
      (if list_all is_hex (no_dashes s) \<and> length (no_dashes s) = 32
       then Some (Uuid (hex_pairs (no_dashes s))) else None)"
    by (simp only: uuid_long_loop_no_dashes)
  with s show ?thesis
    by (cases "uuid_long_loop s (parse_init 16)") (auto simp: uuid_try_parse_def uuid_of_text_def)
qed

text \<open>The four digits of the short form, as the two bytes that the expansion stores.\<close>

lemma split_16bit:
  assumes "0 \<le> a" "a < 256" "0 \<le> b" "b < (256 :: int)"
  shows "ucast (drop_bit 8 (word_of_int (256 * a + b) :: u16) AND 0xFF) = (word_of_int a :: u8)"
    and "ucast ((word_of_int (256 * a + b) :: u16) AND 0xFF) = (word_of_int b :: u8)"
proof -
  have b: "take_bit 8 b = b" using assms by (simp add: take_bit_int_eq_self)
  have m: "(0xFF :: u16) = mask 8" by (simp add: mask_eq_exp_minus_1)
  have "256 * a + b = push_bit 8 a OR b"
    using push_bit_or_eq_add [OF b, of a] by (simp add: push_bit_eq_mult)
  then have w: "(word_of_int (256 * a + b) :: u16) = word_of_int (push_bit 8 a OR b)" by simp
  have nb: "bit b n \<Longrightarrow> n < 8" for n by (subst (asm) b [symmetric]) (simp add: bit_take_bit_iff)
  show "ucast (drop_bit 8 (word_of_int (256 * a + b) :: u16) AND 0xFF) = (word_of_int a :: u8)"
    unfolding w m by (rule bit_word_eqI) (auto simp: bit_simps dest: nb)
  show "ucast ((word_of_int (256 * a + b) :: u16) AND 0xFF) = (word_of_int b :: u8)"
    unfolding w m by (rule bit_word_eqI) (auto simp: bit_simps)
qed

lemma uuid_from_16bit_split:
  assumes "0 \<le> a" "a < 256" "0 \<le> b" "b < (256 :: int)"
  shows "uuid_from_16bit (word_of_int (256 * a + b)) =
    Uuid ([0, 0] @ [word_of_int a, word_of_int b] @ base_tail)"
  by (simp only: uuid_from_16bit_def split_16bit [OF assms]) (simp add: base_tail_def)

lemma hex_pair_range: "is_hex c \<Longrightarrow> is_hex d \<Longrightarrow> 0 \<le> 16 * hex_val c + hex_val d \<and> 16 * hex_val c + hex_val d < 256"
  using hex_val_less [of c] hex_val_less [of d] by (simp add: is_hex_def)

lemma uuid_short_form:
  assumes "length s = 4"
  shows "uuid_try_parse s = uuid_of_text s"
proof -
  from assms obtain c0 c1 c2 c3 where s: "s = [c0, c1, c2, c3]"
    by (auto simp: numeral_eq_Suc length_Suc_conv)
  show ?thesis
  proof (cases "list_all is_hex s")
    case True
    with s have h: "is_hex c0" "is_hex c1" "is_hex c2" "is_hex c3" by simp_all
    have "uuid_short_loop s 0 =
        Some (256 * (16 * hex_val c0 + hex_val c1) + (16 * hex_val c2 + hex_val c3))"
      using h by (simp add: s shift_hex is_hex_not_less)
    then have "uuid_try_parse s = Some (uuid_from_16bit
        (word_of_int (256 * (16 * hex_val c0 + hex_val c1) + (16 * hex_val c2 + hex_val c3))))"
      using assms by (simp add: uuid_try_parse_def)
    also have "\<dots> = Some (Uuid ([0, 0] @ [hex_byte c0 c1, hex_byte c2 c3] @ base_tail))"
      unfolding hex_byte_def using hex_pair_range [OF h(1,2)] hex_pair_range [OF h(3,4)]
      by (intro arg_cong [where f = Some] uuid_from_16bit_split) auto
    also have "\<dots> = Some (Uuid ([0, 0] @ hex_pairs s @ base_tail))" by (simp add: s)
    finally show ?thesis using True assms by (simp add: uuid_of_text_def)
  next
    case False
    then have "uuid_short_loop s 0 = None" by (auto simp: s is_hex_def not_le)
    with False assms show ?thesis by (simp add: uuid_try_parse_def uuid_of_text_def)
  qed
qed

section \<open>Well-formedness\<close>

lemma wf_uuid_from_16bit [shape_facts]: "wf_uuid (uuid_from_16bit w)"
  by (simp add: wf_uuid_def uuid_from_16bit_def)

lemma length_hex_pairs [shape_facts]: "length (hex_pairs s) = length s div 2"
  by (induction s rule: hex_pairs.induct) simp_all

lemma uuid_of_text_wf [shape_facts]: "uuid_of_text s = Some u \<Longrightarrow> wf_uuid u"
  by (auto simp: uuid_of_text_def wf_uuid_def shape_facts base_tail_def split: if_splits)

lemma uuid_try_parse_reference: "uuid_try_parse s = uuid_of_text s"
  by (cases "length s = 4") (simp_all add: uuid_short_form uuid_long_form)

text \<open>
  The short form is an abbreviation: four characters parse to the same result, failure included,
  as the full text with those characters in place over the Bluetooth base UUID.
\<close>

lemma uuid_short_is_base:
  assumes "length s = 4"
  shows "uuid_try_parse s = uuid_try_parse (''0000'' @ s @ ''-0000-1000-8000-00805F9B34FB'')"
proof -
  from assms obtain c0 c1 c2 c3 where s: "s = [c0, c1, c2, c3]"
    by (auto simp: numeral_eq_Suc length_Suc_conv)
  let ?t = "''0000'' @ s @ ''-0000-1000-8000-00805F9B34FB''"
  have t: "no_dashes ?t = ''0000'' @ no_dashes s @ ''00001000800000805F9B34FB''"
    by (simp add: no_dashes_def)
  have tail: "hex_pairs ''00001000800000805F9B34FB'' = base_tail" "hex_pairs ''0000'' = [0, 0]"
    "list_all is_hex ''00001000800000805F9B34FB''" "list_all is_hex ''0000''"
    by code_simp+
  have pairs: "hex_pairs (''0000'' @ s @ w) = [0, 0] @ hex_pairs s @ hex_pairs w" for w
    using tail(2) by (simp add: s)
  have "uuid_of_text ?t = uuid_of_text s"
  proof (cases "CHR ''-'' \<in> set s")
    case True
    then have "\<not> list_all is_hex s"
      using separators_not_hex(2) unfolding list_all_iff by blast
    moreover have "length (no_dashes s) < length s"
      unfolding no_dashes_def using True by (intro length_filter_less) auto
    ultimately show ?thesis using assms t by (simp add: uuid_of_text_def)
  next
    case False
    then have "no_dashes s = s" unfolding no_dashes_def by (intro filter_True) auto
    then show ?thesis using assms tail t pairs by (simp add: uuid_of_text_def)
  qed
  then show ?thesis by (simp only: uuid_try_parse_reference)
qed

section \<open>Properties\<close>

text \<open>
  C12. \<open>Uuid::try_parse\<close> equals the reference reading: a four-character text must be hexadecimal and
  is expanded over the Bluetooth base UUID; any other text must hold exactly 32 hexadecimal digits
  once its dashes, wherever they stand, are removed. A result always has sixteen bytes.
\<close>

theorem uuid_try_parse_correct:
  "uuid_try_parse s = uuid_of_text s \<and> pred_option wf_uuid (uuid_try_parse s)"
  by (cases "uuid_of_text s") (simp_all add: uuid_try_parse_reference shape_facts)

lemma uuid_to_string_digits:
  assumes "wf_uuid u"
  shows "no_dashes (uuid_to_string u) = concat (map (put_byte lower_digits) (uuid_bytes u))
    \<and> length (uuid_to_string u) = 36"
proof -
  have nd: "filter (\<lambda>c. c \<noteq> CHR ''-'') (put_byte lower_digits b) = put_byte lower_digits b" for b
    using put_byte_is_hex [OF alphabet_both(2), of b]
    by (auto simp: put_byte_eq)
  have "no_dashes (uuid_print_loop i bs) = concat (map (put_byte lower_digits) bs)" for i bs
    by (induction bs arbitrary: i) (simp_all add: no_dashes_def nd)
  moreover have "length (uuid_print_loop i bs) =
      2 * length bs + card ({4, 6, 8, 10} \<inter> {i..<i + length bs})" for i bs
  proof (induction bs arbitrary: i)
    case (Cons b bs)
    have "{i..<i + length (b # bs)} = insert i {Suc i..<Suc i + length bs}" by auto
    with Cons show ?case by (auto simp: shape_facts)
  qed simp
  moreover have "{4, 6, 8, 10} \<inter> {0..<16} = {4, 6, 8, 10 :: nat}" by auto
  ultimately show ?thesis using assms by (simp add: uuid_to_string_def wf_uuid_def)
qed

lemma hex_pairs_put_bytes:
  "hex_pairs (concat (map (put_byte lower_digits) bs)) = bs
   \<and> list_all is_hex (concat (map (put_byte lower_digits) bs))"
  by (induction bs) (simp_all add: put_byte_eq hex_byte_put_byte put_byte_is_hex)

text \<open>C14. Parsing the 36-character text that \<open>to_string\<close> writes gives back the UUID.\<close>

theorem uuid_print_parse:
  assumes "wf_uuid u"
  shows "uuid_try_parse (uuid_to_string u) = Some u \<and> length (uuid_to_string u) = 36"
proof -
  have "length (concat (map (put_byte lower_digits) bs)) = 2 * length bs" for bs
    by (induction bs) (simp_all add: shape_facts)
  then show ?thesis
    using uuid_to_string_digits [OF assms] hex_pairs_put_bytes [of "uuid_bytes u"] assms
    by (simp add: uuid_long_form uuid_of_text_def wf_uuid_def)
qed

theorem uuid_print_parse_witness:
  "uuid_try_parse (uuid_to_string uuid_serial_port) = Some uuid_serial_port
   \<and> uuid_to_string uuid_serial_port = ''00001101-0000-1000-8000-00805f9b34fb''"
proof -
  have "wf_uuid uuid_serial_port" by (simp add: uuid_serial_port_def shape_facts)
  then have "uuid_try_parse (uuid_to_string uuid_serial_port) = Some uuid_serial_port"
    using uuid_print_parse by blast
  moreover have "uuid_to_string uuid_serial_port = ''00001101-0000-1000-8000-00805f9b34fb''"
    by code_simp
  ultimately show ?thesis by simp
qed

end
