(* ===== verification/Platform.thy ===== *)
theory Platform
  imports Address Uuid
begin

text \<open>
  The pure conversions of \<open>src/platform.hpp\<close>: between \<open>Address\<close> and the BlueZ \<open>bdaddr_t\<close>, between
  \<open>Address\<close> and the Windows \<open>BTH_ADDR\<close>, and between \<open>Uuid\<close> and the Windows \<open>GUID\<close>; and the
  casts between a native socket descriptor and the \<open>uintptr_t\<close> of the public interface.
\<close>

section \<open>Native descriptors\<close>

text \<open>On Linux a descriptor is an \<open>int\<close> of 32 bits and the invalid one is \<open>-1\<close>.\<close>

type_synonym handle = "32 word"

definition INVALID_SOCKET_HANDLE :: handle where
  "INVALID_SOCKET_HANDLE = - 1"

definition handle_to_uintptr :: "handle \<Rightarrow> u64" where
  "handle_to_uintptr h = scast h"

definition uintptr_to_handle :: "u64 \<Rightarrow> handle" where
  "uintptr_to_handle p = ucast p"

lemma uintptr_to_handle_inverse [simp]: "uintptr_to_handle (handle_to_uintptr h) = h"
  unfolding uintptr_to_handle_def handle_to_uintptr_def
  by (rule bit_word_eqI) (auto simp: bit_simps)

section \<open>BlueZ device addresses\<close>

text \<open>\<open>bdaddr_t\<close> holds the six bytes least significant first.\<close>

datatype bdaddr = Bdaddr (bdaddr_b: "u8 list")

definition wf_bdaddr :: "bdaddr \<Rightarrow> bool" where
  "wf_bdaddr b \<longleftrightarrow> length (bdaddr_b b) = 6"

definition address_to_bdaddr :: "address \<Rightarrow> bdaddr" where
  "address_to_bdaddr addr =
     Bdaddr (fold (\<lambda>i b. b[i := address_bytes addr ! (5 - i)]) [0..<6] (replicate 6 0))"

definition bdaddr_to_address :: "bdaddr \<Rightarrow> address" where
  "bdaddr_to_address b =
     Address (fold (\<lambda>i a. a[5 - i := bdaddr_b b ! i]) [0..<6] (address_bytes address_any))"

section \<open>Windows identifiers\<close>

text \<open>\<open>BTH_ADDR\<close> is an unsigned 64-bit integer.\<close>

definition address_to_bth :: "address \<Rightarrow> u64" where
  "address_to_bth addr = address_to_uint64 addr"

lemma address_to_bth_value: "address_to_bth a = word_of_nat (be_value (address_bytes a))"
proof -
  have "shift_in 0 bs = word_of_nat (be_value bs)" for bs
  proof (induction bs rule: rev_induct)
    case (snoc b bs)
    have "shift_in 0 (bs @ [b]) = push_bit 8 (shift_in 0 bs) + ucast b"
      unfolding shift_in_snoc by (rule push_bit_or_eq_add) (rule bit_word_eqI, auto simp: bit_simps dest: bit_imp_le_length)
    then show ?case by (simp add: snoc be_value_snoc push_bit_eq_mult)
  qed (simp add: be_value_def)
  then show ?thesis by (simp add: address_to_bth_def address_to_uint64_def)
qed

definition bth_to_address :: "u64 \<Rightarrow> address" where
  "bth_to_address bth = address_from_uint64 bth"

record guid =
  Data1 :: u32
  Data2 :: u16
  Data3 :: u16
  Data4 :: "u8 list"

definition wf_guid :: "guid \<Rightarrow> bool" where
  "wf_guid g \<longleftrightarrow> length (Data4 g) = 8"

definition uuid_to_guid :: "uuid \<Rightarrow> guid" where
  "uuid_to_guid u =
     (let b = (!) (uuid_bytes u) in
      \<lparr>Data1 = push_bit 24 (ucast (b 0)) OR push_bit 16 (ucast (b 1)) OR
               push_bit 8 (ucast (b 2)) OR ucast (b 3),
       Data2 = push_bit 8 (ucast (b 4)) OR ucast (b 5),
       Data3 = push_bit 8 (ucast (b 6)) OR ucast (b 7),
       Data4 = map (\<lambda>i. b (8 + i)) [0..<8]\<rparr>)"

definition guid_to_uuid :: "guid \<Rightarrow> uuid" where
  "guid_to_uuid g = Uuid
     ([ucast (drop_bit 24 (Data1 g) AND 0xFF), ucast (drop_bit 16 (Data1 g) AND 0xFF),
       ucast (drop_bit 8 (Data1 g) AND 0xFF), ucast (Data1 g AND 0xFF),
       ucast (drop_bit 8 (Data2 g) AND 0xFF), ucast (Data2 g AND 0xFF),
       ucast (drop_bit 8 (Data3 g) AND 0xFF), ucast (Data3 g AND 0xFF)] @
      map (\<lambda>i. Data4 g ! i) [0..<8])"

section \<open>Byte order of the conversions\<close>

lemma upt_6: "[0..<6] = [0, 1, 2, 3, 4, 5 :: nat]"
  by code_simp

lemma upt_8: "[0..<8] = [0, 1, 2, 3, 4, 5, 6, 7 :: nat]"
  by code_simp

lemma address_to_bdaddr_rev:
  "wf_address a \<Longrightarrow> address_to_bdaddr a = Bdaddr (rev (address_bytes a))"
  by (erule wf_addressE) (simp add: address_to_bdaddr_def upt_6 eval_nat_numeral)

lemma bdaddr_to_address_rev:
  assumes "wf_bdaddr b"
  shows "bdaddr_to_address b = Address (rev (bdaddr_b b))"
proof -
  have "length (bdaddr_b b) = 6" using assms by (simp add: wf_bdaddr_def)
  then obtain b0 b1 b2 b3 b4 b5 where "bdaddr_b b = [b0, b1, b2, b3, b4, b5]"
    by (auto simp: eval_nat_numeral length_Suc_conv)
  then show ?thesis
    by (simp add: bdaddr_to_address_def upt_6 address_any_def eval_nat_numeral)
qed

lemma wf_address_to_bdaddr [shape_facts]: "wf_bdaddr (address_to_bdaddr a)"
  by (simp add: wf_bdaddr_def address_to_bdaddr_def upt_6)

lemma wf_bdaddr_to_address [shape_facts]: "wf_address (bdaddr_to_address b)"
  by (simp add: wf_address_def bdaddr_to_address_def upt_6 address_any_def)

lemma mask_255: "(255 :: 'a :: len word) = mask 8"
  by (simp add: mask_eq_exp_minus_1)

lemma word_byte_parts:
  fixes a b c d :: u8
  defines "w \<equiv> push_bit 24 (ucast a) OR push_bit 16 (ucast b) OR push_bit 8 (ucast c) OR ucast d :: u32"
  shows "ucast (drop_bit 24 w AND 0xFF) = a" "ucast (drop_bit 16 w AND 0xFF) = b"
    "ucast (drop_bit 8 w AND 0xFF) = c" "ucast (w AND 0xFF) = d"
  unfolding w_def mask_255 by (rule bit_word_eqI; auto simp: bit_simps dest: bit_imp_le_length)+

lemma half_byte_parts:
  fixes c d :: u8
  defines "w \<equiv> push_bit 8 (ucast c) OR ucast d :: u16"
  shows "ucast (drop_bit 8 w AND 0xFF) = c" "ucast (w AND 0xFF) = d"
  unfolding w_def mask_255 by (rule bit_word_eqI; auto simp: bit_simps dest: bit_imp_le_length)+

lemma word_parts_join:
  "push_bit 24 (ucast (ucast (drop_bit 24 w AND 0xFF) :: u8)) OR
   push_bit 16 (ucast (ucast (drop_bit 16 w AND 0xFF) :: u8)) OR
   push_bit 8 (ucast (ucast (drop_bit 8 w AND 0xFF) :: u8)) OR
   ucast (ucast (w AND 0xFF) :: u8) = (w :: u32)" (is "?joined = _")
proof (rule bit_word_eqI)
  fix i assume "i < LENGTH(32)"
  then consider "i < 8" | "8 \<le> i" "i < 16" | "16 \<le> i" "i < 24" | "24 \<le> i" "i < 32" by fastforce
  then show "bit ?joined i = bit w i"
    unfolding mask_255 by cases (auto simp: bit_simps)
qed

lemma half_parts_join:
  "push_bit 8 (ucast (ucast (drop_bit 8 w AND 0xFF) :: u8)) OR
   ucast (ucast (w AND 0xFF) :: u8) = (w :: u16)" (is "?joined = _")
proof (rule bit_word_eqI)
  fix i assume "i < LENGTH(16)"
  then consider "i < 8" | "8 \<le> i" "i < 16" by fastforce
  then show "bit ?joined i = bit w i"
    unfolding mask_255 by cases (auto simp: bit_simps)
qed

section \<open>Properties\<close>

text \<open>
  The Linux conversions reverse the byte order and invert each other, and the wire order of
  BlueZ is the little-endian order of the 48-bit number that \<open>to_uint64\<close> computes.
\<close>

theorem bdaddr_roundtrip:
  assumes "wf_address a"
  shows "bdaddr_to_address (address_to_bdaddr a) = a
    \<and> be_value (rev (bdaddr_b (address_to_bdaddr a))) = unat (address_to_uint64 a)"
  using assms address_to_bdaddr_rev [OF assms]
    bdaddr_to_address_rev [of "address_to_bdaddr a"] wf_address_to_bdaddr [of a]
  by (cases a) (simp add: wf_address_def address_to_uint64_def unat_shift_in)

theorem bdaddr_roundtrip_witness:
  "bdaddr_to_address (address_to_bdaddr (Address [1, 2, 3, 4, 5, 6])) = Address [1, 2, 3, 4, 5, 6]
   \<and> address_to_bdaddr (Address [1, 2, 3, 4, 5, 6]) = Bdaddr [6, 5, 4, 3, 2, 1]"
  using bdaddr_roundtrip [of "Address [1, 2, 3, 4, 5, 6]"]
    address_to_bdaddr_rev [of "Address [1, 2, 3, 4, 5, 6]"]
  by (simp add: wf_address_def)

text \<open>The Windows GUID conversions invert each other in both directions.\<close>

theorem guid_roundtrip:
  assumes "wf_uuid u" "wf_guid g"
  shows "guid_to_uuid (uuid_to_guid u) = u \<and> uuid_to_guid (guid_to_uuid g) = g"
proof
  obtain bs where u: "u = Uuid bs" by (cases u)
  with assms have "length bs = 16" by (simp add: wf_uuid_def)
  then obtain b0 b1 b2 b3 b4 b5 b6 b7 b8 b9 b10 b11 b12 b13 b14 b15 where
    "bs = [b0, b1, b2, b3, b4, b5, b6, b7, b8, b9, b10, b11, b12, b13, b14, b15]"
    by (auto simp: eval_nat_numeral length_Suc_conv)
  with u show "guid_to_uuid (uuid_to_guid u) = u"
    by (simp add: guid_to_uuid_def uuid_to_guid_def upt_8 word_byte_parts half_byte_parts Let_def
        del: drop_bit_or)
  obtain w h1 h2 ds where g: "g = \<lparr>Data1 = w, Data2 = h1, Data3 = h2, Data4 = ds\<rparr>" by (cases g)
  with assms have "length ds = 8" by (simp add: wf_guid_def)
  then obtain d0 d1 d2 d3 d4 d5 d6 d7 where "ds = [d0, d1, d2, d3, d4, d5, d6, d7]"
    by (auto simp: eval_nat_numeral length_Suc_conv)
  with g show "uuid_to_guid (guid_to_uuid g) = g"
    by (simp add: guid_to_uuid_def uuid_to_guid_def upt_8 word_parts_join half_parts_join Let_def)
qed

theorem guid_roundtrip_witness:
  "guid_to_uuid (uuid_to_guid uuid_serial_port) = uuid_serial_port
   \<and> Data1 (uuid_to_guid uuid_serial_port) = 0x1101"
proof -
  have "wf_guid (uuid_to_guid uuid_serial_port)" by (simp add: wf_guid_def uuid_to_guid_def Let_def)
  moreover have "wf_uuid uuid_serial_port" by (simp add: uuid_serial_port_def shape_facts)
  moreover have "Data1 (uuid_to_guid uuid_serial_port) = 0x1101" by code_simp
  ultimately show ?thesis using guid_roundtrip by blast
qed

end
