(* ===== verification/Environment.thy ===== *)
theory Environment
  imports Platform "HOL-Library.Multiset"
begin

text \<open>
  What the library calls but does not contain: the socket calls of the Linux kernel, the clock and
  the BlueZ SDP client library. They are the fields of the record \<open>env\<close>, an argument of every
  definition that makes such a call, over an arbitrary type \<open>'w\<close> of states of the outside world.

  Every call goes through a wrapper that appends an event with its arguments and its result to the
  trace of the \<open>machine\<close>, so the order of calls and the ownership of descriptors, SDP sessions and
  SDP records are statements about the trace.
\<close>

section \<open>Types of the calls\<close>

datatype family = AF_UNSPEC | AF_BLUETOOTH

record sockaddr_rc =
  rc_family :: family
  rc_bdaddr :: bdaddr
  rc_channel :: u8

text \<open>The value-initialised \<open>struct sockaddr_rc x{}\<close> and \<open>bdaddr_t{}\<close>.\<close>

definition bdaddr_zero :: bdaddr where
  "bdaddr_zero = Bdaddr (replicate 6 0)"

definition sockaddr_zero :: sockaddr_rc where
  "sockaddr_zero = \<lparr>rc_family = AF_UNSPEC, rc_bdaddr = bdaddr_zero, rc_channel = 0\<rparr>"

datatype sockopt = SO_SNDBUF | SO_RCVBUF | SO_SNDTIMEO | SO_RCVTIMEO

text \<open>An option value is an \<open>int\<close> or a \<open>struct timeval\<close> of seconds and microseconds.\<close>

datatype optval = OptInt int | OptTimeval int int

text \<open>
  A record pointer and a session pointer of BlueZ are opaque names. An SDP UUID carries its width;
  a data element is a UUID, an 8-bit unsigned integer or something the code ignores.
\<close>

type_synonym ptr = nat

datatype sdp_uuid = SdpUuid16 u16 | SdpUuid32 u32 | SdpUuid128 "u8 list"

datatype sdp_data = DataUuid sdp_uuid | DataUint8 u8 | DataOther

datatype sdp_attr =
    ServiceId sdp_uuid
  | ServiceClasses "sdp_uuid list"
  | BrowseGroups "sdp_uuid list"
  | AccessProtos "sdp_data list list list"
  | InfoAttr string string string

section \<open>The environment\<close>

record 'w env =
  k_socket :: "'w \<Rightarrow> handle \<times> 'w"
  k_setsockopt :: "handle \<Rightarrow> sockopt \<Rightarrow> optval \<Rightarrow> 'w \<Rightarrow> int \<times> 'w"
  k_bind :: "handle \<Rightarrow> sockaddr_rc \<Rightarrow> 'w \<Rightarrow> int \<times> 'w"
  k_listen :: "handle \<Rightarrow> int \<Rightarrow> 'w \<Rightarrow> int \<times> 'w"
  k_accept :: "handle \<Rightarrow> 'w \<Rightarrow> (handle \<times> sockaddr_rc) \<times> 'w"
  k_connect :: "handle \<Rightarrow> sockaddr_rc \<Rightarrow> 'w \<Rightarrow> int \<times> 'w"
  k_getsockname :: "handle \<Rightarrow> 'w \<Rightarrow> (int \<times> sockaddr_rc) \<times> 'w"
  k_send :: "handle \<Rightarrow> u8 list \<Rightarrow> 'w \<Rightarrow> int \<times> 'w"
  k_recv :: "handle \<Rightarrow> nat \<Rightarrow> 'w \<Rightarrow> (int \<times> u8 list) \<times> 'w"
  k_getfl :: "handle \<Rightarrow> 'w \<Rightarrow> u32 \<times> 'w"
  k_setfl :: "handle \<Rightarrow> u32 \<Rightarrow> 'w \<Rightarrow> int \<times> 'w"
  k_fionread :: "handle \<Rightarrow> 'w \<Rightarrow> u32 option \<times> 'w"
  k_close :: "handle \<Rightarrow> 'w \<Rightarrow> 'w"
  k_now :: "'w \<Rightarrow> int \<times> 'w"
  bz_record_alloc :: "'w \<Rightarrow> ptr option \<times> 'w"
  bz_set_attr :: "ptr \<Rightarrow> sdp_attr \<Rightarrow> 'w \<Rightarrow> 'w"
  bz_connect :: "bdaddr \<Rightarrow> bdaddr \<Rightarrow> 'w \<Rightarrow> ptr option \<times> 'w"
  bz_register :: "ptr \<Rightarrow> ptr \<Rightarrow> 'w \<Rightarrow> int \<times> 'w"
  bz_unregister :: "ptr \<Rightarrow> ptr \<Rightarrow> 'w \<Rightarrow> 'w"
  bz_close :: "ptr \<Rightarrow> 'w \<Rightarrow> 'w"
  bz_search :: "ptr \<Rightarrow> sdp_uuid list \<Rightarrow> u32 list \<Rightarrow> 'w \<Rightarrow> (int \<times> ptr list) \<times> 'w"
  bz_access_protos :: "ptr \<Rightarrow> 'w \<Rightarrow> (int \<times> sdp_data list list list) \<times> 'w"
  bz_record_free :: "ptr \<Rightarrow> 'w \<Rightarrow> 'w"

text \<open>
  Conventions of the fields. \<open>k_accept\<close> returns the descriptor and the peer's address; \<open>k_recv h n\<close>
  returns the result and the bytes it stored at the start of a buffer of \<open>n\<close> bytes; \<open>k_getfl\<close> and
  \<open>k_setfl\<close> are \<open>fcntl\<close> with \<open>F_GETFL\<close> and \<open>F_SETFL\<close>; \<open>k_fionread\<close> is \<open>ioctl\<close> with \<open>FIONREAD\<close>
  (\<open>None\<close> when it fails and stores nothing); \<open>k_now\<close> is \<open>steady_clock::now()\<close> in nanoseconds;
  \<open>bz_search\<close> is \<open>sdp_service_search_attr_req\<close> with its response list; \<open>bz_access_protos\<close> is
  \<open>sdp_get_access_protos\<close>, whose inner lists are the chains of data elements.
\<close>

section \<open>Events and the machine\<close>

datatype event =
    EvSocket handle
  | EvSetsockopt handle sockopt optval int
  | EvBind handle sockaddr_rc int
  | EvListen handle int int
  | EvAccept handle handle
  | EvConnect handle sockaddr_rc int
  | EvGetsockname handle int
  | EvSend handle "u8 list" int
  | EvRecv handle nat int "u8 list"
  | EvGetfl handle u32
  | EvSetfl handle u32 int
  | EvFionread handle
  | EvClose handle
  | EvNow int
  | EvRecordAlloc "ptr option"
  | EvSetAttr ptr sdp_attr
  | EvSdpConnect bdaddr bdaddr "ptr option"
  | EvSdpRegister ptr ptr int
  | EvSdpUnregister ptr ptr
  | EvSdpClose ptr
  | EvSdpSearch ptr "sdp_uuid list" "u32 list" int "ptr list"
  | EvAccessProtos ptr int
  | EvRecordFree ptr

record 'w machine =
  world :: 'w
  trace :: "event list"

definition emit :: "event \<Rightarrow> 'w \<Rightarrow> 'w machine \<Rightarrow> 'w machine" where
  "emit ev w m = m\<lparr>world := w, trace := trace m @ [ev]\<rparr>"

lemma trace_emit [simp]: "trace (emit ev w m) = trace m @ [ev]"
  by (simp add: emit_def)

lemma world_emit [simp]: "world (emit ev w m) = w"
  by (simp add: emit_def)

section \<open>The wrappers\<close>

definition sys_socket :: "'w env \<Rightarrow> 'w machine \<Rightarrow> handle \<times> 'w machine" where [sys_defs]:
  "sys_socket e m = (let (h, w) = k_socket e (world m) in (h, emit (EvSocket h) w m))"

definition sys_setsockopt ::
  "'w env \<Rightarrow> handle \<Rightarrow> sockopt \<Rightarrow> optval \<Rightarrow> 'w machine \<Rightarrow> int \<times> 'w machine" where [sys_defs]:
  "sys_setsockopt e h opt v m =
     (let (r, w) = k_setsockopt e h opt v (world m) in (r, emit (EvSetsockopt h opt v r) w m))"

definition sys_bind :: "'w env \<Rightarrow> handle \<Rightarrow> sockaddr_rc \<Rightarrow> 'w machine \<Rightarrow> int \<times> 'w machine" where [sys_defs]:
  "sys_bind e h a m = (let (r, w) = k_bind e h a (world m) in (r, emit (EvBind h a r) w m))"

definition sys_listen :: "'w env \<Rightarrow> handle \<Rightarrow> int \<Rightarrow> 'w machine \<Rightarrow> int \<times> 'w machine" where [sys_defs]:
  "sys_listen e h n m = (let (r, w) = k_listen e h n (world m) in (r, emit (EvListen h n r) w m))"

definition sys_accept :: "'w env \<Rightarrow> handle \<Rightarrow> 'w machine \<Rightarrow> (handle \<times> sockaddr_rc) \<times> 'w machine" where [sys_defs]:
  "sys_accept e h m =
     (let ((c, a), w) = k_accept e h (world m) in ((c, a), emit (EvAccept h c) w m))"

definition sys_connect :: "'w env \<Rightarrow> handle \<Rightarrow> sockaddr_rc \<Rightarrow> 'w machine \<Rightarrow> int \<times> 'w machine" where [sys_defs]:
  "sys_connect e h a m = (let (r, w) = k_connect e h a (world m) in (r, emit (EvConnect h a r) w m))"

definition sys_getsockname :: "'w env \<Rightarrow> handle \<Rightarrow> 'w machine \<Rightarrow> (int \<times> sockaddr_rc) \<times> 'w machine" where [sys_defs]:
  "sys_getsockname e h m =
     (let ((r, a), w) = k_getsockname e h (world m) in ((r, a), emit (EvGetsockname h r) w m))"

definition sys_send :: "'w env \<Rightarrow> handle \<Rightarrow> u8 list \<Rightarrow> 'w machine \<Rightarrow> int \<times> 'w machine" where [sys_defs]:
  "sys_send e h d m = (let (r, w) = k_send e h d (world m) in (r, emit (EvSend h d r) w m))"

definition sys_recv :: "'w env \<Rightarrow> handle \<Rightarrow> nat \<Rightarrow> 'w machine \<Rightarrow> (int \<times> u8 list) \<times> 'w machine" where [sys_defs]:
  "sys_recv e h n m =
     (let ((r, d), w) = k_recv e h n (world m) in ((r, d), emit (EvRecv h n r d) w m))"

definition sys_getfl :: "'w env \<Rightarrow> handle \<Rightarrow> 'w machine \<Rightarrow> u32 \<times> 'w machine" where [sys_defs]:
  "sys_getfl e h m = (let (f, w) = k_getfl e h (world m) in (f, emit (EvGetfl h f) w m))"

definition sys_setfl :: "'w env \<Rightarrow> handle \<Rightarrow> u32 \<Rightarrow> 'w machine \<Rightarrow> int \<times> 'w machine" where [sys_defs]:
  "sys_setfl e h f m = (let (r, w) = k_setfl e h f (world m) in (r, emit (EvSetfl h f r) w m))"

definition sys_fionread :: "'w env \<Rightarrow> handle \<Rightarrow> 'w machine \<Rightarrow> u32 option \<times> 'w machine" where [sys_defs]:
  "sys_fionread e h m = (let (r, w) = k_fionread e h (world m) in (r, emit (EvFionread h) w m))"

definition sys_close :: "'w env \<Rightarrow> handle \<Rightarrow> 'w machine \<Rightarrow> 'w machine" where [sys_defs]:
  "sys_close e h m = emit (EvClose h) (k_close e h (world m)) m"

definition sys_now :: "'w env \<Rightarrow> 'w machine \<Rightarrow> int \<times> 'w machine" where [sys_defs]:
  "sys_now e m = (let (t, w) = k_now e (world m) in (t, emit (EvNow t) w m))"

definition sdp_record_alloc :: "'w env \<Rightarrow> 'w machine \<Rightarrow> ptr option \<times> 'w machine" where [sys_defs]:
  "sdp_record_alloc e m =
     (let (r, w) = bz_record_alloc e (world m) in (r, emit (EvRecordAlloc r) w m))"

definition sdp_set_attr :: "'w env \<Rightarrow> ptr \<Rightarrow> sdp_attr \<Rightarrow> 'w machine \<Rightarrow> 'w machine" where [sys_defs]:
  "sdp_set_attr e r a m = emit (EvSetAttr r a) (bz_set_attr e r a (world m)) m"

definition sdp_connect :: "'w env \<Rightarrow> bdaddr \<Rightarrow> bdaddr \<Rightarrow> 'w machine \<Rightarrow> ptr option \<times> 'w machine" where [sys_defs]:
  "sdp_connect e src dst m =
     (let (s, w) = bz_connect e src dst (world m) in (s, emit (EvSdpConnect src dst s) w m))"

definition sdp_record_register :: "'w env \<Rightarrow> ptr \<Rightarrow> ptr \<Rightarrow> 'w machine \<Rightarrow> int \<times> 'w machine" where [sys_defs]:
  "sdp_record_register e s r m =
     (let (x, w) = bz_register e s r (world m) in (x, emit (EvSdpRegister s r x) w m))"

definition sdp_record_unregister :: "'w env \<Rightarrow> ptr \<Rightarrow> ptr \<Rightarrow> 'w machine \<Rightarrow> 'w machine" where [sys_defs]:
  "sdp_record_unregister e s r m = emit (EvSdpUnregister s r) (bz_unregister e s r (world m)) m"

definition sdp_close :: "'w env \<Rightarrow> ptr \<Rightarrow> 'w machine \<Rightarrow> 'w machine" where [sys_defs]:
  "sdp_close e s m = emit (EvSdpClose s) (bz_close e s (world m)) m"

definition sdp_search ::
  "'w env \<Rightarrow> ptr \<Rightarrow> sdp_uuid list \<Rightarrow> u32 list \<Rightarrow> 'w machine \<Rightarrow> (int \<times> ptr list) \<times> 'w machine" where [sys_defs]:
  "sdp_search e s us rs m =
     (let ((x, ps), w) = bz_search e s us rs (world m) in ((x, ps), emit (EvSdpSearch s us rs x ps) w m))"

definition sdp_get_access_protos ::
  "'w env \<Rightarrow> ptr \<Rightarrow> 'w machine \<Rightarrow> (int \<times> sdp_data list list list) \<times> 'w machine" where [sys_defs]:
  "sdp_get_access_protos e r m =
     (let ((x, ps), w) = bz_access_protos e r (world m) in ((x, ps), emit (EvAccessProtos r x) w m))"

definition sdp_record_free :: "'w env \<Rightarrow> ptr \<Rightarrow> 'w machine \<Rightarrow> 'w machine" where [sys_defs]:
  "sdp_record_free e r m = emit (EvRecordFree r) (bz_record_free e r (world m)) m"

section \<open>Shapes of the results\<close>

text \<open>Each wrapper returns some result and the machine with the one matching event appended.\<close>

lemma sys_socket_shape: "\<exists>h w. sys_socket e m = (h, emit (EvSocket h) w m)"
  by (cases "k_socket e (world m)") (auto simp: sys_socket_def split: prod.splits)

lemma sys_setsockopt_shape: "\<exists>r w. sys_setsockopt e h opt v m = (r, emit (EvSetsockopt h opt v r) w m)"
  by (cases "k_setsockopt e h opt v (world m)") (auto simp: sys_setsockopt_def split: prod.splits)

lemma sys_bind_shape: "\<exists>r w. sys_bind e h a m = (r, emit (EvBind h a r) w m)"
  by (cases "k_bind e h a (world m)") (auto simp: sys_bind_def split: prod.splits)

lemma sys_listen_shape: "\<exists>r w. sys_listen e h n m = (r, emit (EvListen h n r) w m)"
  by (cases "k_listen e h n (world m)") (auto simp: sys_listen_def split: prod.splits)

lemma sys_accept_shape: "\<exists>c a w. sys_accept e h m = ((c, a), emit (EvAccept h c) w m)"
  by (cases "k_accept e h (world m)") (auto simp: sys_accept_def split: prod.splits)

lemma sys_connect_shape: "\<exists>r w. sys_connect e h a m = (r, emit (EvConnect h a r) w m)"
  by (cases "k_connect e h a (world m)") (auto simp: sys_connect_def split: prod.splits)

lemma sys_recv_shape: "\<exists>r d w. sys_recv e h n m = ((r, d), emit (EvRecv h n r d) w m)"
  by (cases "k_recv e h n (world m)") (auto simp: sys_recv_def split: prod.splits)

lemma sys_fionread_shape: "\<exists>r w. sys_fionread e h m = (r, emit (EvFionread h) w m)"
  by (cases "k_fionread e h (world m)") (auto simp: sys_fionread_def split: prod.splits)

lemma sys_now_shape: "\<exists>t w. sys_now e m = (t, emit (EvNow t) w m)"
  by (cases "k_now e (world m)") (auto simp: sys_now_def split: prod.splits)

lemma sdp_record_alloc_shape: "\<exists>r w. sdp_record_alloc e m = (r, emit (EvRecordAlloc r) w m)"
  by (cases "bz_record_alloc e (world m)") (auto simp: sdp_record_alloc_def split: prod.splits)

lemma sdp_connect_shape: "\<exists>s w. sdp_connect e src dst m = (s, emit (EvSdpConnect src dst s) w m)"
  by (cases "bz_connect e src dst (world m)") (auto simp: sdp_connect_def split: prod.splits)

lemma sdp_record_register_shape: "\<exists>x w. sdp_record_register e s r m = (x, emit (EvSdpRegister s r x) w m)"
  by (cases "bz_register e s r (world m)") (auto simp: sdp_record_register_def split: prod.splits)

lemma sdp_search_shape: "\<exists>x ps w. sdp_search e s us rs m = ((x, ps), emit (EvSdpSearch s us rs x ps) w m)"
  by (cases "bz_search e s us rs (world m)") (auto simp: sdp_search_def split: prod.splits)

lemma sdp_get_access_protos_shape: "\<exists>x ps w. sdp_get_access_protos e r m = ((x, ps), emit (EvAccessProtos r x) w m)"
  by (cases "bz_access_protos e r (world m)") (auto simp: sdp_get_access_protos_def split: prod.splits)

end
