(* ===== verification/Ledger.thy ===== *)
theory Ledger
  imports Environment
begin

text \<open>
  Ownership read off the trace: which descriptors, SDP sessions and SDP records the program has
  acquired and not yet released, and whether every call was made on something it owned at the time.
  Multisets count, so a resource released twice or acquired twice under the same name is seen.
\<close>

section \<open>Balance of a trace\<close>

definition balance :: "('e \<Rightarrow> 'r multiset) \<Rightarrow> ('e \<Rightarrow> 'r multiset) \<Rightarrow> 'e list \<Rightarrow> 'r multiset" where
  "balance acq rel tr = foldl (\<lambda>L ev. L + acq ev - rel ev) {#} tr"

lemma balance_Nil [simp]: "balance acq rel [] = {#}"
  by (simp add: balance_def)

lemma balance_snoc [simp]: "balance acq rel (tr @ [ev]) = balance acq rel tr + acq ev - rel ev"
  by (simp add: balance_def)

text \<open>\<open>well_used\<close>: at each event, what it uses is among what is held just before it.\<close>

definition well_used ::
  "('e \<Rightarrow> 'r multiset) \<Rightarrow> ('e \<Rightarrow> 'r multiset) \<Rightarrow> ('e \<Rightarrow> 'r multiset) \<Rightarrow> 'e list \<Rightarrow> bool" where
  "well_used acq rel use tr =
     fst (foldl (\<lambda>(ok, L) ev. (ok \<and> use ev \<subseteq># L, L + acq ev - rel ev)) (True, {#}) tr)"

lemma well_used_balance:
  "snd (foldl (\<lambda>(ok, L) ev. (ok \<and> use ev \<subseteq># L, L + acq ev - rel ev)) (True, {#}) tr) =
     balance acq rel tr"
proof (induction tr rule: rev_induct)
  case (snoc ev tr)
  then show ?case by (simp add: case_prod_beta)
qed simp

lemma well_used_Nil [simp]: "well_used acq rel use []"
  by (simp add: well_used_def)

lemma well_used_snoc [simp]:
  "well_used acq rel use (tr @ [ev]) \<longleftrightarrow> well_used acq rel use tr \<and> use ev \<subseteq># balance acq rel tr"
proof -
  let ?f = "\<lambda>(ok, L) ev. (ok \<and> use ev \<subseteq># L, L + acq ev - rel ev)"
  obtain ok L where f: "foldl ?f (True, {#}) tr = (ok, L)" by fastforce
  then have "L = balance acq rel tr" using well_used_balance [of use acq rel tr] by simp
  with f show ?thesis by (simp add: well_used_def)
qed

text \<open>Both over a trace that a whole group of events extends.\<close>

lemma balance_append:
  "balance acq rel (tr @ evs) = foldl (\<lambda>L ev. L + acq ev - rel ev) (balance acq rel tr) evs"
  by (simp add: balance_def)

lemma well_used_append:
  "well_used acq rel use (tr @ evs) =
     fst (foldl (\<lambda>(ok, L) ev. (ok \<and> use ev \<subseteq># L, L + acq ev - rel ev))
            (well_used acq rel use tr, balance acq rel tr) evs)"
proof -
  let ?f = "\<lambda>(ok, L) ev. (ok \<and> use ev \<subseteq># L, L + acq ev - rel ev)"
  have "foldl ?f (True, {#}) tr = (well_used acq rel use tr, balance acq rel tr)"
    using well_used_balance [of use acq rel tr] by (simp add: well_used_def prod_eq_iff)
  then show ?thesis by (simp add: well_used_def)
qed

section \<open>Descriptors\<close>

fun fd_acquired :: "event \<Rightarrow> handle multiset" where
  "fd_acquired (EvSocket h) = (if 0 \<le>s h then {#h#} else {#})"
| "fd_acquired (EvAccept _ h) = (if 0 \<le>s h then {#h#} else {#})"
| "fd_acquired _ = {#}"

fun fd_released :: "event \<Rightarrow> handle multiset" where
  "fd_released (EvClose h) = {#h#}"
| "fd_released _ = {#}"

fun fd_used :: "event \<Rightarrow> handle multiset" where
  "fd_used (EvSetsockopt h _ _ _) = {#h#}"
| "fd_used (EvBind h _ _) = {#h#}"
| "fd_used (EvListen h _ _) = {#h#}"
| "fd_used (EvAccept h _) = {#h#}"
| "fd_used (EvConnect h _ _) = {#h#}"
| "fd_used (EvGetsockname h _) = {#h#}"
| "fd_used (EvSend h _ _) = {#h#}"
| "fd_used (EvRecv h _ _ _) = {#h#}"
| "fd_used (EvGetfl h _) = {#h#}"
| "fd_used (EvSetfl h _ _) = {#h#}"
| "fd_used (EvFionread h) = {#h#}"
| "fd_used (EvClose h) = {#h#}"
| "fd_used _ = {#}"

text \<open>The descriptors the program holds, and: no call on a descriptor it does not hold.\<close>

definition live_fds :: "'w machine \<Rightarrow> handle multiset" where
  "live_fds m = balance fd_acquired fd_released (trace m)"

definition fds_respected :: "'w machine \<Rightarrow> bool" where
  "fds_respected m \<longleftrightarrow> well_used fd_acquired fd_released fd_used (trace m)"

lemma live_fds_emit [simp]:
  "live_fds (emit ev w m) = live_fds m + fd_acquired ev - fd_released ev"
  by (simp add: live_fds_def)

lemma fds_respected_emit [simp]:
  "fds_respected (emit ev w m) \<longleftrightarrow> fds_respected m \<and> fd_used ev \<subseteq># live_fds m"
  by (simp add: fds_respected_def live_fds_def)

section \<open>SDP sessions and records\<close>

fun session_acquired :: "event \<Rightarrow> ptr multiset" where
  "session_acquired (EvSdpConnect _ _ (Some s)) = {#s#}"
| "session_acquired _ = {#}"

fun session_released :: "event \<Rightarrow> ptr multiset" where
  "session_released (EvSdpClose s) = {#s#}"
| "session_released _ = {#}"

fun session_used :: "event \<Rightarrow> ptr multiset" where
  "session_used (EvSdpRegister s _ _) = {#s#}"
| "session_used (EvSdpUnregister s _) = {#s#}"
| "session_used (EvSdpSearch s _ _ _ _) = {#s#}"
| "session_used (EvSdpClose s) = {#s#}"
| "session_used _ = {#}"

definition live_sessions :: "'w machine \<Rightarrow> ptr multiset" where
  "live_sessions m = balance session_acquired session_released (trace m)"

definition sessions_respected :: "'w machine \<Rightarrow> bool" where
  "sessions_respected m \<longleftrightarrow> well_used session_acquired session_released session_used (trace m)"

lemma live_sessions_emit [simp]:
  "live_sessions (emit ev w m) = live_sessions m + session_acquired ev - session_released ev"
  by (simp add: live_sessions_def)

lemma sessions_respected_emit [simp]:
  "sessions_respected (emit ev w m) \<longleftrightarrow> sessions_respected m \<and> session_used ev \<subseteq># live_sessions m"
  by (simp add: sessions_respected_def live_sessions_def)

text \<open>
  An SDP record is acquired by allocation or as part of a search response, and released by
  \<open>sdp_record_free\<close> or by unregistering it, which frees it.
\<close>

fun record_acquired :: "event \<Rightarrow> ptr multiset" where
  "record_acquired (EvRecordAlloc (Some r)) = {#r#}"
| "record_acquired (EvSdpSearch _ _ _ _ rs) = mset rs"
| "record_acquired _ = {#}"

fun record_released :: "event \<Rightarrow> ptr multiset" where
  "record_released (EvRecordFree r) = {#r#}"
| "record_released (EvSdpUnregister _ r) = {#r#}"
| "record_released _ = {#}"

definition live_records :: "'w machine \<Rightarrow> ptr multiset" where
  "live_records m = balance record_acquired record_released (trace m)"

lemma live_records_emit [simp]:
  "live_records (emit ev w m) = live_records m + record_acquired ev - record_released ev"
  by (simp add: live_records_def)

text \<open>The records that are registered with the SDP server.\<close>

fun published_acquired :: "event \<Rightarrow> ptr multiset" where
  "published_acquired (EvSdpRegister _ r x) = (if x < 0 then {#} else {#r#})"
| "published_acquired _ = {#}"

fun published_released :: "event \<Rightarrow> ptr multiset" where
  "published_released (EvSdpUnregister _ r) = {#r#}"
| "published_released _ = {#}"

definition published :: "'w machine \<Rightarrow> ptr multiset" where
  "published m = balance published_acquired published_released (trace m)"

lemma published_emit [simp]:
  "published (emit ev w m) = published m + published_acquired ev - published_released ev"
  by (simp add: published_def)

lemmas ledger_emit =
  live_fds_emit fds_respected_emit live_sessions_emit sessions_respected_emit live_records_emit
  published_emit

section \<open>The empty machine\<close>

definition boot :: "'w \<Rightarrow> 'w machine" where
  "boot w = \<lparr>world = w, trace = []\<rparr>"

lemma boot_ledger [simp]:
  "live_fds (boot w) = {#}" "fds_respected (boot w)"
  "live_sessions (boot w) = {#}" "sessions_respected (boot w)"
  "live_records (boot w) = {#}" "published (boot w) = {#}"
  by (simp_all add: boot_def live_fds_def fds_respected_def live_sessions_def
      sessions_respected_def live_records_def published_def)

section \<open>Input and output on one descriptor\<close>

text \<open>
  Most methods only make calls on the descriptor of their object. \<open>io_on h m m'\<close> says that \<open>m'\<close>
  comes from \<open>m\<close> by such calls; it moves no ownership, and it is respectful when \<open>h\<close> is held.
\<close>

definition io_event :: "handle \<Rightarrow> event \<Rightarrow> bool" where
  "io_event h ev \<longleftrightarrow>
     fd_acquired ev = {#} \<and> fd_released ev = {#} \<and> fd_used ev \<subseteq># {#h#} \<and>
     session_acquired ev = {#} \<and> session_released ev = {#} \<and> session_used ev = {#} \<and>
     record_acquired ev = {#} \<and> record_released ev = {#} \<and>
     published_acquired ev = {#} \<and> published_released ev = {#}"

inductive io_on :: "handle \<Rightarrow> 'w machine \<Rightarrow> 'w machine \<Rightarrow> bool" where
  io_refl [intro, simp]: "io_on h m m"
| io_step: "io_on h m m' \<Longrightarrow> io_event h ev \<Longrightarrow> io_on h m (emit ev w m')"

lemma io_emit [intro, simp]: "io_event h ev \<Longrightarrow> io_on h m (emit ev w m)"
  by (rule io_step [OF io_refl])

lemma io_trans [trans]: "io_on h m' m'' \<Longrightarrow> io_on h m m' \<Longrightarrow> io_on h m m''"
  by (induction rule: io_on.induct) (auto intro: io_step)

lemma io_events [simp]:
  "io_event h (EvSetsockopt h opt v r)" "io_event h (EvSend h d r)" "io_event h (EvRecv h n r d)"
  "io_event h (EvGetsockname h r)" "io_event h (EvGetfl h f)" "io_event h (EvSetfl h f r)"
  "io_event h (EvFionread h)" "io_event h (EvNow t)" "io_event h (EvBind h a r)"
  "io_event h (EvListen h k r)" "io_event h (EvConnect h a r)"
  by (simp_all add: io_event_def)

lemma io_on_frame:
  assumes "io_on h m m'"
  shows "live_fds m' = live_fds m" "live_sessions m' = live_sessions m"
    "live_records m' = live_records m" "published m' = published m"
    "sessions_respected m' = sessions_respected m"
  using assms by (induction rule: io_on.induct) (simp_all add: io_event_def)

lemma io_on_respects:
  "io_on h m m' \<Longrightarrow> h \<in># live_fds m \<Longrightarrow> fds_respected m' = fds_respected m"
proof (induction rule: io_on.induct)
  case (io_step h m m' ev w)
  then have "fd_used ev \<subseteq># live_fds m"
    by (metis io_event_def single_subset_iff subset_mset.order_trans)
  then show ?case using io_step io_on_frame(1) [OF io_step.hyps(1)] by simp
qed simp

text \<open>Calls that leave the SDP side of the ledger as it is.\<close>

definition same_sdp :: "'w machine \<Rightarrow> 'w machine \<Rightarrow> bool" where
  "same_sdp m m' \<longleftrightarrow> live_sessions m' = live_sessions m \<and> published m' = published m \<and>
     sessions_respected m' = sessions_respected m"

lemma same_sdp_refl [simp]: "same_sdp m m"
  by (simp add: same_sdp_def)

lemma same_sdp_trans [trans]: "same_sdp m m' \<Longrightarrow> same_sdp m' m'' \<Longrightarrow> same_sdp m m''"
  by (simp add: same_sdp_def)

lemma io_on_same_sdp: "io_on h m m' \<Longrightarrow> same_sdp m m'"
  using io_on_frame(2,4,5) unfolding same_sdp_def by blast

lemma same_sdp_fd_event [simp]:
  "same_sdp m (emit (EvSocket h) w m)" "same_sdp m (emit (EvAccept l h) w m)" "same_sdp m (sys_close e h m)"
  by (simp_all add: same_sdp_def sys_close_def)

section \<open>Objects that are closed once\<close>

lemma mset_part_remains: "A + R \<subseteq># L \<Longrightarrow> R \<subseteq># L - A"
proof (rule mset_subset_eqI)
  fix a assume "A + R \<subseteq># L"
  then have "count (A + R) a \<le> count L a" by (rule mset_subset_eq_count)
  then show "count R a \<le> count (L - A) a" by simp
qed

text \<open>
  The contract of \<open>close\<close> in every class of the library: it releases exactly what the object holds,
  leaves it closed and holding nothing, and does nothing to a closed object.
\<close>

locale closable =
  fixes close :: "'e \<Rightarrow> 'o \<Rightarrow> 'm \<Rightarrow> 'o \<times> 'm"
    and is_open :: "'o \<Rightarrow> bool"
    and holds :: "'o \<Rightarrow> 'r multiset"
    and live :: "'m \<Rightarrow> 'r multiset"
    and valid :: "'o \<Rightarrow> bool"
  assumes close_shuts: "valid x \<Longrightarrow> close e x m = (x', m') \<Longrightarrow> valid x' \<and> \<not> is_open x' \<and> holds x' = {#}"
    and close_releases: "valid x \<Longrightarrow> close e x m = (x', m') \<Longrightarrow> live m' = live m - holds x"
    and close_idle: "valid x \<Longrightarrow> \<not> is_open x \<Longrightarrow> close e x m = (x, m)"
begin

lemma close_again: "valid x \<Longrightarrow> close e x m = (x', m') \<Longrightarrow> close e x' m'' = (x', m'')"
  using close_shuts close_idle by blast

lemma close_accounts:
  "valid x \<Longrightarrow> holds x \<subseteq># live m \<Longrightarrow> close e x m = (x', m') \<Longrightarrow> live m = live m' + holds x"
  using close_releases by (metis subset_mset.diff_add)

lemma close_keeps_others:
  "valid x \<Longrightarrow> holds x + R \<subseteq># live m \<Longrightarrow> close e x m = (x', m') \<Longrightarrow> holds x' + R \<subseteq># live m'"
  using close_shuts close_releases by (simp add: mset_part_remains)

end

end
