(* ===== verification/Ownership.thy ===== *)
theory Ownership
  imports Ledger
begin

text \<open>
  What the objects of a program hold together, as a multiset of resources, and how it changes when one or two
  of them change. The systems of API calls of both builds rest on it.
\<close>

definition owned_by :: "('o \<Rightarrow> 'r multiset) \<Rightarrow> 'o list \<Rightarrow> 'r multiset" where
  "owned_by f os = sum_list (map f os)"

lemma owned_by_simps [simp]:
  "owned_by f [] = {#}" "owned_by f (x # xs) = f x + owned_by f xs" "owned_by f (xs @ ys) = owned_by f xs + owned_by f ys"
  by (simp_all add: owned_by_def)

lemma owned_by_update: "i < length os \<Longrightarrow> owned_by f (os[i := x]) + f (os ! i) = owned_by f os + f x"
proof (induction os arbitrary: i)
  case (Cons y os)
  then show ?case by (cases i) (simp_all add: ac_simps)
qed simp

lemma owned_by_part: "i < length os \<Longrightarrow> f (os ! i) \<subseteq># owned_by f os"
proof (induction os arbitrary: i)
  case (Cons y os)
  then show ?case
    by (cases i) (simp_all add: subset_mset.add_increasing)
qed simp

lemma owned_by_balance:
  "i < length os \<Longrightarrow> L + f (os ! i) = owned_by f os + f x \<Longrightarrow> L = owned_by f (os[i := x])"
  using owned_by_update [of i os f x] by (metis add_right_cancel)

text \<open>Two objects change at once.\<close>

lemma owned_by_balance2:
  assumes "i < length os" "j < length os" "i \<noteq> j"
    and "L + (f (os ! i) + f (os ! j)) = owned_by f os + (f x + f y)"
  shows "L = owned_by f (os[i := x, j := y])"
proof -
  have "owned_by f (os[i := x, j := y]) + f (os ! j) = owned_by f (os[i := x]) + f y"
    using owned_by_update [of j "os[i := x]" f y] assms(1-3) by simp
  moreover have "owned_by f (os[i := x]) + f (os ! i) = owned_by f os + f x"
    using owned_by_update [of i os f x] assms(1) by simp
  ultimately have "owned_by f (os[i := x, j := y]) + (f (os ! i) + f (os ! j)) =
      owned_by f os + (f x + f y)"
    by (metis add.assoc add.commute)
  with assms(4) show ?thesis by (metis add_right_cancel)
qed

text \<open>Two objects hold different things.\<close>

lemma owned_by_pair:
  assumes "i < length os" "j < length os" "i \<noteq> j" "f z = {#}"
  shows "f (os ! i) + f (os ! j) \<subseteq># owned_by f os"
proof -
  have "owned_by f (os[i := z, j := z]) + (f (os ! i) + f (os ! j)) = owned_by f os"
    using owned_by_update [of j "os[i := z]" f z] owned_by_update [of i os f z] assms by (simp add: ac_simps)
  then show ?thesis by (metis mset_subset_eq_add_right)
qed

lemma owned_by_remove:
  assumes "i < length os"
  shows "owned_by f (take i os @ drop (Suc i) os) + f (os ! i) = owned_by f os"
proof -
  have "owned_by f os = owned_by f (take i os @ os ! i # drop (Suc i) os)" using assms by (simp add: id_take_nth_drop [symmetric])
  then show ?thesis by (simp add: ac_simps)
qed

end
