(* ===== verification/Sim_Env.thy ===== *)
theory Sim_Env
  imports Ledger
begin

text \<open>
  A small concrete environment: a kernel that hands out descriptors in order, delivers one inbound
  byte stream in pieces of bounded size, has a set of busy channels and a clock that advances at
  every reading, and an SDP server with a list of records. The definitions of the library evaluate
  on it, which is how the development exhibits inputs that satisfy the promises it assumes.
\<close>

record sim =
  sim_next :: handle
  sim_in :: "u8 list"
  sim_chunk :: nat
  sim_busy :: "u8 list"
  sim_flags :: u32
  sim_clock :: int
  sim_up :: bool
  sim_sdp_up :: bool
  sim_peer :: sockaddr_rc
  sim_records :: "sdp_data list list list list"

definition sim_start :: sim where
  "sim_start = \<lparr>sim_next = 3, sim_in = [], sim_chunk = 2, sim_busy = [], sim_flags = 2, sim_clock = 0,
     sim_up = True, sim_sdp_up = True,
     sim_peer = \<lparr>rc_family = AF_BLUETOOTH, rc_bdaddr = Bdaddr [6, 5, 4, 3, 2, 1], rc_channel = 9\<rparr>,
     sim_records = []\<rparr>"

definition sim_env :: "sim env" where
  "sim_env = \<lparr>
     k_socket = (\<lambda>w. (sim_next w, w\<lparr>sim_next := sim_next w + 1\<rparr>)),
     k_setsockopt = (\<lambda>h opt v w. (0, w)),
     k_bind = (\<lambda>h a w. (if rc_channel a \<in> set (sim_busy w) then - 1 else 0, w)),
     k_listen = (\<lambda>h n w. (0, w)),
     k_accept = (\<lambda>h w. if sim_up w then ((sim_next w, sim_peer w), w\<lparr>sim_next := sim_next w + 1\<rparr>)
                        else ((- 1, sockaddr_zero), w)),
     k_connect = (\<lambda>h a w. (if sim_up w then 0 else - 1, w)),
     k_getsockname = (\<lambda>h w. ((0, sim_peer w), w)),
     k_send = (\<lambda>h d w. (int (min (length d) (sim_chunk w)), w)),
     k_recv = (\<lambda>h n w. let d = take (min n (sim_chunk w)) (sim_in w)
                         in ((int (length d), d), w\<lparr>sim_in := drop (length d) (sim_in w)\<rparr>)),
     k_getfl = (\<lambda>h w. (sim_flags w, w)),
     k_setfl = (\<lambda>h f w. (0, w\<lparr>sim_flags := f\<rparr>)),
     k_fionread = (\<lambda>h w. (Some (word_of_nat (length (sim_in w))), w)),
     k_close = (\<lambda>h w. w),
     k_now = (\<lambda>w. (sim_clock w, w\<lparr>sim_clock := sim_clock w + 1000000\<rparr>)),
     bz_record_alloc = (\<lambda>w. (Some 100, w)),
     bz_set_attr = (\<lambda>r a w. w),
     bz_connect = (\<lambda>src dst w. (if sim_sdp_up w then Some 7 else None, w)),
     bz_register = (\<lambda>s r w. (0, w)),
     bz_unregister = (\<lambda>s r w. w),
     bz_close = (\<lambda>s w. w),
     bz_search = (\<lambda>s us rs w. ((0, [0..<length (sim_records w)]), w)),
     bz_access_protos = (\<lambda>r w. ((0, sim_records w ! r), w)),
     bz_record_free = (\<lambda>r w. w)\<rparr>"

end
