(* ===== verification/Sdp_Linux.thy ===== *)
theory Sdp_Linux
  imports Ledger Sim_Env
begin

text \<open>
  \<open>src/sdp_linux.cpp\<close>: the registration guard that publishes an SDP record and withdraws it when it
  is destroyed, and the resolution of a service UUID to an RFCOMM channel, which walks three nested
  lists of protocol descriptors with a local array of ten protocol identifiers.
\<close>

section \<open>State\<close>

record registration_impl =
  reg_session :: "ptr option"
  reg_record :: "ptr option"
  registered :: bool

datatype registration = Registration (registration_pimpl: "registration_impl option")

definition registration_new :: registration where
  "registration_new =
     Registration (Some \<lparr>reg_session = None, reg_record = None, registered = False\<rparr>)"

text \<open>What C++ leaves undefined is a result of its own.\<close>

datatype ub = NullDereference | ArrayOutOfBounds

text \<open>Assigned numbers of the Bluetooth SIG, as \<open>bluetooth/sdp.h\<close> names them.\<close>

definition L2CAP_UUID :: u16 where "L2CAP_UUID = 0x0100"
definition RFCOMM_UUID :: u16 where "RFCOMM_UUID = 0x0003"
definition PUBLIC_BROWSE_GROUP :: u16 where "PUBLIC_BROWSE_GROUP = 0x1002"

section \<open>Unregistering\<close>

definition registration_impl_unregister ::
  "'w env \<Rightarrow> registration_impl \<Rightarrow> 'w machine \<Rightarrow> registration_impl \<times> 'w machine" where
  "registration_impl_unregister e im m =
     (let (im, m) =
            (case (reg_session im, reg_record im) of
               (Some s, Some r) \<Rightarrow>
                 if registered im then (im\<lparr>registered := False\<rparr>, sdp_record_unregister e s r m)
                 else (im, m)
             | _ \<Rightarrow> (im, m));
          (im, m) =
            (case reg_session im of
               Some s \<Rightarrow> (im\<lparr>reg_session := None\<rparr>, sdp_close e s m)
             | None \<Rightarrow> (im, m))
      in (im\<lparr>reg_record := None\<rparr>, m))"

definition registration_unregister ::
  "'w env \<Rightarrow> registration \<Rightarrow> 'w machine \<Rightarrow> registration \<times> 'w machine" where
  "registration_unregister e g m =
     (case registration_pimpl g of
        None \<Rightarrow> (g, m)
      | Some im \<Rightarrow>
          let (im, m) = registration_impl_unregister e im m in (Registration (Some im), m))"

definition registration_destroy :: "'w env \<Rightarrow> registration \<Rightarrow> 'w machine \<Rightarrow> 'w machine" where
  "registration_destroy e g m =
     (case registration_pimpl g of
        None \<Rightarrow> m
      | Some im \<Rightarrow> snd (registration_impl_unregister e im m))"

definition registration_is_registered :: "registration \<Rightarrow> bool" where
  "registration_is_registered g =
     (case registration_pimpl g of None \<Rightarrow> False | Some im \<Rightarrow> registered im)"

text \<open>Move construction and move assignment between distinct objects.\<close>

definition registration_move :: "registration \<Rightarrow> registration \<times> registration" where
  "registration_move other = (Registration (registration_pimpl other), Registration None)"

definition registration_move_assign ::
  "'w env \<Rightarrow> registration \<Rightarrow> registration \<Rightarrow> 'w machine \<Rightarrow> (registration \<times> registration) \<times> 'w machine" where
  "registration_move_assign e dst other m =
     ((Registration (registration_pimpl other), Registration None), registration_destroy e dst m)"

section \<open>Publishing a record\<close>

text \<open>The attributes of the record, in the order in which \<open>create\<close> sets them.\<close>

definition service_attributes :: "u8 \<Rightarrow> uuid \<Rightarrow> string \<Rightarrow> string \<Rightarrow> sdp_attr list" where
  "service_attributes channel u service_name provider =
     (let root_uuid = SdpUuid128 (uuid_bytes u);
          group_uuid = SdpUuid16 PUBLIC_BROWSE_GROUP;
          l2cap_list = [DataUuid (SdpUuid16 L2CAP_UUID)];
          rfcomm_list = [DataUuid (SdpUuid16 RFCOMM_UUID), DataUint8 channel];
          proto_list = [l2cap_list, rfcomm_list]
      in [ServiceId root_uuid, ServiceClasses [root_uuid], BrowseGroups [group_uuid],
          AccessProtos [proto_list], InfoAttr service_name provider service_name])"

definition local_sdp_server :: bdaddr where
  "local_sdp_server = Bdaddr [0, 0, 0, 0xff, 0xff, 0xff]"

definition registration_create ::
  "'w env \<Rightarrow> u8 \<Rightarrow> uuid \<Rightarrow> string \<Rightarrow> string \<Rightarrow> 'w machine \<Rightarrow> registration option \<times> 'w machine" where
  "registration_create e channel u service_name provider m =
     (let (rec, m) = sdp_record_alloc e m in
      case rec of
        None \<Rightarrow> (None, registration_destroy e registration_new m)
      | Some r \<Rightarrow>
          let im = \<lparr>reg_session = None, reg_record = Some r, registered = False\<rparr>;
              m = fold (sdp_set_attr e r) (service_attributes channel u service_name provider) m;
              (session, m) = sdp_connect e bdaddr_zero local_sdp_server m
          in case session of
               None \<Rightarrow> (None, registration_destroy e (Registration (Some im)) m)
             | Some s \<Rightarrow>
                 let (x, m) = sdp_record_register e s r m
                 in if x < 0 then
                      (None, registration_destroy e (Registration (Some im)) (sdp_close e s m))
                    else
                      (Some (Registration (Some (im\<lparr>reg_session := Some s, registered := True\<rparr>))), m))"

section \<open>Resolving a channel\<close>

text \<open>
  The code reads the \<open>uuid16\<close> member of the union whatever the width of the UUID. On the
  little-endian platforms of the library that is the low half of a 32-bit UUID and the first two
  bytes of a 128-bit one.
\<close>

fun union_uuid16 :: "sdp_uuid \<Rightarrow> u16" where
  "union_uuid16 (SdpUuid16 w) = w"
| "union_uuid16 (SdpUuid32 w) = ucast w"
| "union_uuid16 (SdpUuid128 bs) = ucast (bs ! 0) OR push_bit 8 (ucast (bs ! 1))"

text \<open>
  One chain of data elements. \<open>proto\<close> is the part of \<open>int proto[10]\<close> written so far and its length
  the index \<open>i\<close>; writing an eleventh element is out of bounds. The result is \<open>found_channel\<close>.
\<close>

fun scan_data :: "sdp_data list \<Rightarrow> u16 list \<Rightarrow> ub + u8" where
  "scan_data [] proto = Inr 0"
| "scan_data (d # ds) proto =
     (case d of
        DataUuid u \<Rightarrow>
          if 10 \<le> length proto then Inl ArrayOutOfBounds
          else scan_data ds (proto @ [union_uuid16 u])
      | DataUint8 c \<Rightarrow>
          if 0 < length proto \<and> proto ! (length proto - 1) = RFCOMM_UUID then Inr c
          else scan_data ds proto
      | DataOther \<Rightarrow> scan_data ds proto)"

fun scan_chains :: "sdp_data list list \<Rightarrow> ub + u8" where
  "scan_chains [] = Inr 0"
| "scan_chains (d # ds) =
     (case scan_data d [] of
        Inl x \<Rightarrow> Inl x
      | Inr c \<Rightarrow> if 0 < c then Inr c else scan_chains ds)"

fun scan_protos :: "sdp_data list list list \<Rightarrow> ub + u8" where
  "scan_protos [] = Inr 0"
| "scan_protos (p # ps) =
     (case scan_chains p of
        Inl x \<Rightarrow> Inl x
      | Inr c \<Rightarrow> if 0 < c then Inr c else scan_protos ps)"

fun scan_records :: "'w env \<Rightarrow> ptr list \<Rightarrow> 'w machine \<Rightarrow> (ub + u8) \<times> 'w machine" where
  "scan_records e [] m = (Inr 0, m)"
| "scan_records e (r # rs) m =
     (let ((x, protos), m) = sdp_get_access_protos e r m
      in case (if x = 0 then scan_protos protos else Inr 0) of
           Inl b \<Rightarrow> (Inl b, m)
         | Inr c \<Rightarrow>
             let m = sdp_record_free e r m
             in if 0 < c then (Inr c, m) else scan_records e rs m)"

definition resolve_channel ::
  "'w env \<Rightarrow> address \<Rightarrow> uuid \<Rightarrow> 'w machine \<Rightarrow> (ub + u8 option) \<times> 'w machine" where
  "resolve_channel e target u m =
     (let (session, m) = sdp_connect e bdaddr_zero (address_to_bdaddr target) m in
      case session of
        None \<Rightarrow> (Inr None, m)
      | Some s \<Rightarrow>
          let ((status, response), m) =
                sdp_search e s [SdpUuid128 (uuid_bytes u)] [0x0000ffff] m;
              (found, m) =
                (if status = 0 \<and> response \<noteq> [] then scan_records e response m else (Inr 0, m))
          in case found of
               Inl b \<Rightarrow> (Inl b, m)
             | Inr c \<Rightarrow> (Inr (if 0 < c then Some c else None), sdp_close e s m))"

end
