(* ===== verification/Sdp_Facts.thy ===== *)
theory Sdp_Facts
  imports Sdp_Linux
begin

text \<open>
  Properties of the SDP part: the life cycle of a registration (sessions and published records are
  released exactly once) and the channel search (an equivalent search over the flattened response,
  and when the array of ten protocol identifiers is enough).
\<close>

section \<open>What a registration holds\<close>

definition registration_sessions :: "registration \<Rightarrow> ptr multiset" where
  "registration_sessions g =
     (case registration_pimpl g of None \<Rightarrow> {#}
      | Some im \<Rightarrow> (case reg_session im of None \<Rightarrow> {#} | Some s \<Rightarrow> {#s#}))"

definition registration_records :: "registration \<Rightarrow> ptr multiset" where
  "registration_records g =
     (case registration_pimpl g of None \<Rightarrow> {#}
      | Some im \<Rightarrow> (case reg_record im of None \<Rightarrow> {#} | Some r \<Rightarrow> {#r#}))"

text \<open>Session, record and flag are set together or not at all.\<close>

definition registration_valid :: "registration \<Rightarrow> bool" where
  "registration_valid g =
     (case registration_pimpl g of None \<Rightarrow> True
      | Some im \<Rightarrow> (reg_session im \<noteq> None) = registered im \<and> (reg_record im \<noteq> None) = registered im)"

lemmas registration_defs =
  registration_unregister_def registration_impl_unregister_def registration_destroy_def
  registration_is_registered_def registration_sessions_def registration_records_def
  registration_valid_def

lemma registration_destroy_unregister:
  "registration_destroy e g m = snd (registration_unregister e g m)"
  by (auto simp: registration_destroy_def registration_unregister_def split: option.splits prod.splits)

lemma registration_unregister_result:
  "registration_valid g \<Longrightarrow> registration_unregister e g m = (g', m') \<Longrightarrow>
     registration_valid g' \<and> \<not> registration_is_registered g' \<and>
     registration_sessions g' = {#} \<and> registration_records g' = {#}"
  by (auto simp: registration_defs Let_def split: option.splits if_splits prod.splits)

lemma registration_unregister_ledger:
  assumes "registration_valid g" "registration_unregister e g m = (g', m')"
  shows "live_sessions m' = live_sessions m - registration_sessions g"
    "published m' = published m - registration_records g"
    "live_fds m' = live_fds m" "fds_respected m' = fds_respected m"
    "registration_sessions g \<subseteq># live_sessions m \<Longrightarrow> sessions_respected m' = sessions_respected m"
  using assms
  by (auto simp: registration_defs sys_defs Let_def split: option.splits if_splits prod.splits)

lemma registration_unregister_idle:
  "registration_valid g \<Longrightarrow> \<not> registration_is_registered g \<Longrightarrow> registration_unregister e g m = (g, m)"
  by (cases g) (auto simp: registration_defs Let_def split: option.splits)

text \<open>The calls that withdraw a registration, in order.\<close>

definition registration_withdrawal :: "registration \<Rightarrow> event list" where
  "registration_withdrawal g =
     (case registration_pimpl g of None \<Rightarrow> []
      | Some im \<Rightarrow>
          (case (reg_session im, reg_record im) of
             (Some s, Some r) \<Rightarrow> [EvSdpUnregister s r, EvSdpClose s]
           | _ \<Rightarrow> []))"

lemma registration_unregister_trace:
  "registration_valid g \<Longrightarrow> registration_unregister e g m = (g', m') \<Longrightarrow>
     trace m' = trace m @ registration_withdrawal g"
  by (auto simp: registration_defs registration_withdrawal_def sys_defs Let_def
      split: option.splits if_splits prod.splits)

interpretation registration_session: closable registration_unregister registration_is_registered
  registration_sessions live_sessions registration_valid
  using registration_unregister_result registration_unregister_ledger(1) registration_unregister_idle
  by unfold_locales blast+

interpretation registration_record: closable registration_unregister registration_is_registered
  registration_records published registration_valid
  using registration_unregister_result registration_unregister_ledger(2) registration_unregister_idle
  by unfold_locales blast+

section \<open>Publishing\<close>

lemma set_attrs_frame:
  "live_sessions (fold (sdp_set_attr e r) as m) = live_sessions m"
  "published (fold (sdp_set_attr e r) as m) = published m"
  "live_fds (fold (sdp_set_attr e r) as m) = live_fds m"
  "live_records (fold (sdp_set_attr e r) as m) = live_records m"
  "fds_respected (fold (sdp_set_attr e r) as m) = fds_respected m"
  "sessions_respected (fold (sdp_set_attr e r) as m) = sessions_respected m"
  "trace (fold (sdp_set_attr e r) as m) = trace m @ map (EvSetAttr r) as"
  by (induction as arbitrary: m) (simp_all add: sys_defs)

lemma destroy_unregistered [simp]:
  "reg_session im = None \<Longrightarrow> registration_destroy e (Registration (Some im)) m = m"
  by (simp add: registration_defs Let_def)

lemma registration_create_respects:
  assumes "registration_create e channel u nm pr m = (g, m')"
  shows "fds_respected m' = fds_respected m \<and> sessions_respected m' = sessions_respected m"
proof -
  obtain rec w1 where a: "sdp_record_alloc e m = (rec, emit (EvRecordAlloc rec) w1 m)"
    using sdp_record_alloc_shape [of e m] by blast
  show ?thesis
  proof (cases rec)
    case None
    with a assms show ?thesis by (auto simp: registration_create_def registration_new_def)
  next
    case (Some r)
    let ?m2 = "fold (sdp_set_attr e r) (service_attributes channel u nm pr) (emit (EvRecordAlloc rec) w1 m)"
    obtain ses w2 where c: "sdp_connect e bdaddr_zero local_sdp_server ?m2 =
        (ses, emit (EvSdpConnect bdaddr_zero local_sdp_server ses) w2 ?m2)" (is "_ = (_, ?m3)")
      using sdp_connect_shape [of e bdaddr_zero local_sdp_server ?m2] by blast
    have m3: "fds_respected ?m3 = fds_respected m" "sessions_respected ?m3 = sessions_respected m"
      by (simp_all add: set_attrs_frame)
    show ?thesis
    proof (cases ses)
      case None
      with a c Some assms m3 show ?thesis by (auto simp: registration_create_def)
    next
      case ses: (Some s)
      obtain x w3 where x: "sdp_record_register e s r ?m3 = (x, emit (EvSdpRegister s r x) w3 ?m3)"
        using sdp_record_register_shape [of e s r ?m3] by blast
      show ?thesis
        using a c Some ses x assms m3
        by (auto simp: registration_create_def sdp_close_def Let_def split: if_splits)
    qed
  qed
qed

text \<open>
  \<open>Registration::create\<close> either returns a registered guard, having published one record that
  carries the service UUID, the channel as the RFCOMM parameter and the names, over one session that
  the guard holds; or it returns null with no session left open and nothing published.
\<close>

lemma registration_create_paths:
  "case registration_create e channel u nm pr m of
     (None, m') \<Rightarrow> live_sessions m' = live_sessions m \<and> published m' = published m \<and>
       live_fds m' = live_fds m
   | (Some g, m') \<Rightarrow> registration_valid g \<and> registration_is_registered g \<and>
       live_sessions m' = live_sessions m + registration_sessions g \<and>
       published m' = published m + registration_records g \<and> live_fds m' = live_fds m \<and>
       (\<exists>r s x. registration_records g = {#r#} \<and> registration_sessions g = {#s#} \<and> 0 \<le> x \<and>
          trace m' = trace m @ [EvRecordAlloc (Some r)] @
            map (EvSetAttr r) (service_attributes channel u nm pr) @
            [EvSdpConnect bdaddr_zero local_sdp_server (Some s), EvSdpRegister s r x])"
proof -
  obtain rec w1 where a: "sdp_record_alloc e m = (rec, emit (EvRecordAlloc rec) w1 m)"
    using sdp_record_alloc_shape [of e m] by blast
  show ?thesis
  proof (cases rec)
    case None
    with a show ?thesis by (simp add: registration_create_def registration_new_def)
  next
    case (Some r)
    let ?m2 = "fold (sdp_set_attr e r) (service_attributes channel u nm pr) (emit (EvRecordAlloc rec) w1 m)"
    obtain ses w2 where c: "sdp_connect e bdaddr_zero local_sdp_server ?m2 =
        (ses, emit (EvSdpConnect bdaddr_zero local_sdp_server ses) w2 ?m2)"
      using sdp_connect_shape [of e bdaddr_zero local_sdp_server ?m2] by blast
    show ?thesis
    proof (cases ses)
      case None
      with a c Some show ?thesis by (simp add: registration_create_def set_attrs_frame)
    next
      case ses: (Some s)
      let ?m3 = "emit (EvSdpConnect bdaddr_zero local_sdp_server ses) w2 ?m2"
      obtain x w3 where x: "sdp_record_register e s r ?m3 = (x, emit (EvSdpRegister s r x) w3 ?m3)"
        using sdp_record_register_shape [of e s r ?m3] by blast
      show ?thesis
        using a c Some ses x
        by (cases "x < 0") (simp_all add: registration_create_def set_attrs_frame sdp_close_def Let_def
            registration_sessions_def registration_records_def registration_valid_def
            registration_is_registered_def)
    qed
  qed
qed

section \<open>Properties\<close>

text \<open>
  A guard that is withdrawn releases its session and its published record exactly once:
  \<open>unregister\<close> accounts for both, a second \<open>unregister\<close> and the destructor make no call.
\<close>

theorem registration_unregister_once:
  assumes "registration_valid g" "registration_sessions g \<subseteq># live_sessions m"
    and "registration_records g \<subseteq># published m" "sessions_respected m"
    and "registration_unregister e g m = (g', m')"
  shows "live_sessions m = live_sessions m' + registration_sessions g
    \<and> published m = published m' + registration_records g
    \<and> sessions_respected m' \<and> \<not> registration_is_registered g'
    \<and> registration_unregister e g' m' = (g', m') \<and> registration_destroy e g' m' = m'"
proof -
  note once = registration_session.close_again [OF assms(1,5), of m']
  have "registration_destroy e g' m' = m'" by (simp add: registration_destroy_unregister once)
  then show ?thesis
    using registration_session.close_accounts [OF assms(1,2,5)] once
      registration_record.close_accounts [OF assms(1,3,5)]
      registration_unregister_result [OF assms(1,5)]
      registration_unregister_ledger(5) [OF assms(1,5,2)] assms(4) by simp
qed

theorem registration_unregister_once_witness:
  "let (g, m) = registration_create sim_env 5 uuid_serial_port ''svc'' ''prov'' (boot sim_start);
       (g', m') = registration_unregister sim_env (the g) m
   in live_sessions m = {#7#} \<and> live_sessions m' = {#} \<and> registration_unregister sim_env g' m' = (g', m')"
proof -
  obtain g m where c: "registration_create sim_env 5 uuid_serial_port ''svc'' ''prov'' (boot sim_start) = (g, m)"
    by (metis prod.collapse)
  have "g = Some (Registration (Some \<lparr>reg_session = Some 7, reg_record = Some 100, registered = True\<rparr>))"
    "live_sessions m = {#7#}" "published m = {#100#}" "sessions_respected m"
    using c by (auto simp: registration_create_def sim_env_def sys_defs service_attributes_def Let_def
        boot_def sim_start_def live_sessions_def published_def sessions_respected_def balance_def
        well_used_def)
  moreover from this(1) obtain h where h: "g = Some h" "registration_valid h"
    "registration_sessions h = {#7#}" "registration_records h = {#100#}"
    by (simp add: registration_valid_def registration_sessions_def registration_records_def)
  moreover obtain g' m' where u: "registration_unregister sim_env h m = (g', m')" by (metis prod.collapse)
  ultimately show ?thesis
    using registration_unregister_once [of h m sim_env g' m'] c by simp
qed

text \<open>
  C18. A record whose session cannot be opened is lost: \<open>create\<close> returns null and the record it
  allocated is neither registered nor freed, so nothing will ever release it.
\<close>

theorem registration_create_leaks_record:
  assumes "bz_record_alloc e (world m) = (Some r, w)" "\<And>w. fst (bz_connect e bdaddr_zero local_sdp_server w) = None"
  shows "\<exists>m'. registration_create e channel u nm pr m = (None, m')
    \<and> live_records m' = add_mset r (live_records m)
    \<and> list_all (\<lambda>ev. ev \<noteq> EvRecordFree r) (drop (length (trace m)) (trace m'))"
proof -
  let ?m1 = "emit (EvRecordAlloc (Some r)) w m"
  let ?m2 = "fold (sdp_set_attr e r) (service_attributes channel u nm pr) ?m1"
  obtain w2 where "bz_connect e bdaddr_zero local_sdp_server (world ?m2) = (None, w2)"
    by (metis assms(2) prod.collapse)
  then have "registration_create e channel u nm pr m =
      (None, emit (EvSdpConnect bdaddr_zero local_sdp_server None) w2 ?m2)"
    using assms(1) by (simp add: registration_create_def sdp_record_alloc_def sdp_connect_def)
  then show ?thesis by (simp add: set_attrs_frame list_all_iff)
qed

theorem registration_create_leaks_record_witness:
  "\<exists>m'. registration_create (sim_env\<lparr>bz_connect := (\<lambda>src dst w. (None, w))\<rparr>) 5 uuid_serial_port
       ''svc'' ''prov'' (boot sim_start) = (None, m')
     \<and> live_records m' = {#100#}"
  using registration_create_leaks_record [where m = "boot sim_start" and r = 100 and w = sim_start and
      e = "sim_env\<lparr>bz_connect := (\<lambda>src dst w. (None, w))\<rparr>" and channel = 5 and
      u = uuid_serial_port and nm = "''svc''" and pr = "''prov''"]
  by (auto simp: sim_env_def boot_def balance_def live_records_def)

end
