(* ===== verification/Sdp_Resolve.thy ===== *)
theory Sdp_Resolve
  imports Sdp_Facts
begin

text \<open>
  The channel search of \<open>sdp::resolve_channel\<close> against a declarative reading of an SDP response, and
  exactly when its array of ten protocol identifiers overflows.
\<close>

section \<open>Reading a chain of data elements\<close>

text \<open>The protocol identifiers of a chain, in order.\<close>

definition uuids_of :: "sdp_data list \<Rightarrow> u16 list" where
  "uuids_of ds = concat (map (\<lambda>d. case d of DataUuid u \<Rightarrow> [union_uuid16 u] | _ \<Rightarrow> []) ds)"

text \<open>
  A chain offers the 8-bit integer at position \<open>i\<close> as a channel when the last protocol identifier
  before that position is RFCOMM.
\<close>

definition offer_at :: "u16 list \<Rightarrow> sdp_data list \<Rightarrow> nat \<Rightarrow> u8 list" where
  "offer_at proto ds i =
     (case ds ! i of
        DataUint8 c \<Rightarrow>
          (let us = proto @ uuids_of (take i ds)
           in if us \<noteq> [] \<and> last us = RFCOMM_UUID then [c] else [])
      | _ \<Rightarrow> [])"

definition offers :: "u16 list \<Rightarrow> sdp_data list \<Rightarrow> u8 list" where
  "offers proto ds = concat (map (offer_at proto ds) [0..<length ds])"

definition chain_channel :: "sdp_data list \<Rightarrow> u8" where
  "chain_channel ds = (case offers [] ds of [] \<Rightarrow> 0 | c # _ \<Rightarrow> c)"

lemma uuids_of_simps [simp]:
  "uuids_of [] = []" "uuids_of (DataUuid u # ds) = union_uuid16 u # uuids_of ds"
  "uuids_of (DataUint8 c # ds) = uuids_of ds" "uuids_of (DataOther # ds) = uuids_of ds"
  by (simp_all add: uuids_of_def)

lemma offers_Nil [simp]: "offers proto [] = []"
  by (simp add: offers_def)

lemma offers_step:
  "offers proto (d # ds) = offer_at proto (d # ds) 0 @
     concat (map (\<lambda>i. offer_at proto (d # ds) (Suc i)) [0..<length ds])"
  unfolding offers_def by (simp only: length_Cons upt_conv_Cons [OF zero_less_Suc] map_Suc_upt [symmetric])
    (simp add: comp_def)

lemma offer_at_Suc:
  "offer_at proto (DataUuid u # ds) (Suc i) = offer_at (proto @ [union_uuid16 u]) ds i"
  "offer_at proto (DataUint8 c # ds) (Suc i) = offer_at proto ds i"
  "offer_at proto (DataOther # ds) (Suc i) = offer_at proto ds i"
  by (simp_all add: offer_at_def split: sdp_data.split)

lemma offer_at_0:
  "offer_at proto (DataUuid u # ds) 0 = []" "offer_at proto (DataOther # ds) 0 = []"
  "offer_at proto (DataUint8 c # ds) 0 = (if proto \<noteq> [] \<and> last proto = RFCOMM_UUID then [c] else [])"
  by (simp_all add: offer_at_def)

lemma offers_Cons [simp]:
  "offers proto (DataUuid u # ds) = offers (proto @ [union_uuid16 u]) ds"
  "offers proto (DataUint8 c # ds) =
     (if proto \<noteq> [] \<and> last proto = RFCOMM_UUID then [c] else []) @ offers proto ds"
  "offers proto (DataOther # ds) = offers proto ds"
  by (simp_all only: offers_step offer_at_Suc offer_at_0) (simp_all add: offers_def)

text \<open>The loop over a chain, with the part of the array already written.\<close>

lemma scan_data_offers:
  "length proto + length (uuids_of ds) \<le> 10 \<Longrightarrow>
     scan_data ds proto = Inr (case offers proto ds of [] \<Rightarrow> 0 | c # _ \<Rightarrow> c)"
  by (induction ds proto rule: scan_data.induct) (auto simp: last_conv_nth split: sdp_data.split)

lemma scan_data_overflow:
  "length proto \<le> 10 \<Longrightarrow> scan_data ds proto = Inl b \<longleftrightarrow>
     b = ArrayOutOfBounds \<and> (\<exists>pre u post. ds = pre @ DataUuid u # post \<and>
       length proto + length (uuids_of pre) = 10 \<and> offers proto pre = [])"
proof (induction ds arbitrary: proto)
  case (Cons d ds)
  have split: "(\<exists>pre u post. d # ds = pre @ DataUuid u # post \<and> P pre) \<longleftrightarrow>
      (\<exists>u. d = DataUuid u \<and> P []) \<or> (\<exists>pre u post. ds = pre @ DataUuid u # post \<and> P (d # pre))" for P
    by (auto simp: Cons_eq_append_conv)
  show ?case
  proof (cases d)
    case (DataUuid u)
    show ?thesis
    proof (cases "length proto = 10")
      case True
      with DataUuid show ?thesis by (subst split) auto
    next
      case False
      with Cons.prems have "length (proto @ [union_uuid16 u]) \<le> 10" by simp
      from Cons.IH [OF this] DataUuid False Cons.prems show ?thesis by (subst split) auto
    qed
  next
    case (DataUint8 c)
    then show ?thesis
      by (subst split) (auto simp: Cons.IH [OF Cons.prems] last_conv_nth)
  next
    case DataOther
    then show ?thesis by (subst split) (auto simp: Cons.IH [OF Cons.prems])
  qed
qed simp

section \<open>The nested loops as one search\<close>

definition first_nonzero :: "u8 list \<Rightarrow> u8" where
  "first_nonzero cs = (case find (\<lambda>c. 0 < c) cs of None \<Rightarrow> 0 | Some c \<Rightarrow> c)"

lemma first_nonzero_simps [simp]:
  "first_nonzero [] = 0"
  "first_nonzero (c # cs) = (if 0 < c then c else first_nonzero cs)"
  by (simp_all add: first_nonzero_def)

lemma first_nonzero_append:
  "first_nonzero (xs @ ys) = (if 0 < first_nonzero xs then first_nonzero xs else first_nonzero ys)"
  by (induction xs) auto

lemma first_nonzero_find: "(if 0 < first_nonzero cs then Some (first_nonzero cs) else None) = find (\<lambda>c. 0 < c) cs"
  by (induction cs) auto

definition small_chain :: "sdp_data list \<Rightarrow> bool" where
  "small_chain ds \<longleftrightarrow> length (uuids_of ds) \<le> 10"

lemma scan_data_small: "small_chain ds \<Longrightarrow> scan_data ds [] = Inr (chain_channel ds)"
  by (simp add: small_chain_def chain_channel_def scan_data_offers)

lemma scan_chains_small:
  "list_all small_chain ds \<Longrightarrow> scan_chains ds = Inr (first_nonzero (map chain_channel ds))"
  by (induction ds) (simp_all add: scan_data_small)

lemma scan_protos_small:
  "list_all (list_all small_chain) ps \<Longrightarrow>
     scan_protos ps = Inr (first_nonzero (map chain_channel (concat ps)))"
  by (induction ps) (simp_all add: scan_chains_small first_nonzero_append)

text \<open>The chains of a record: those of its protocol list, when the record has one.\<close>

definition record_chains :: "int \<times> sdp_data list list list \<Rightarrow> sdp_data list list" where
  "record_chains = (\<lambda>(x, ps). if x = 0 then concat ps else [])"

text \<open>The library reads the same protocol list from a record whenever it is asked.\<close>

definition protos_of :: "'w env \<Rightarrow> (ptr \<Rightarrow> int \<times> sdp_data list list list) \<Rightarrow> bool" where
  "protos_of e recs \<longleftrightarrow> (\<forall>r w. fst (bz_access_protos e r w) = recs r)"

lemma scan_record_chains:
  assumes "list_all small_chain (record_chains (x, ps))"
  shows "(if x = 0 then scan_protos ps else Inr 0) =
    Inr (first_nonzero (map chain_channel (record_chains (x, ps))))"
proof (cases "x = 0")
  case True
  with assms have "list_all (list_all small_chain) ps" by (auto simp: record_chains_def list_all_iff)
  with True show ?thesis by (simp add: scan_protos_small record_chains_def)
qed (simp add: record_chains_def)

text \<open>
  The loop over the records: the first channel offered, and the records of the response up to the
  one that offered it are freed.
\<close>

lemma scan_records_correct:
  assumes "protos_of e recs" "list_all (\<lambda>r. list_all small_chain (record_chains (recs r))) rs"
  shows "\<exists>m'. scan_records e rs m =
      (Inr (first_nonzero (map chain_channel (concat (map (record_chains \<circ> recs) rs)))), m')
    \<and> live_sessions m' = live_sessions m \<and> live_fds m' = live_fds m
    \<and> live_records m' = live_records m - mset (takeWhile (\<lambda>r. first_nonzero (map chain_channel (record_chains (recs r))) = 0) rs)
        - mset (take 1 (dropWhile (\<lambda>r. first_nonzero (map chain_channel (record_chains (recs r))) = 0) rs))"
  using assms(2)
proof (induction rs arbitrary: m)
  case (Cons r rs)
  obtain x ps w where g: "sdp_get_access_protos e r m = ((x, ps), emit (EvAccessProtos r x) w m)"
    using sdp_get_access_protos_shape [of e r m] by blast
  then have "fst (bz_access_protos e r (world m)) = (x, ps)"
    by (auto simp: sdp_get_access_protos_def split: prod.splits)
  then have recs: "recs r = (x, ps)" using assms(1) by (simp add: protos_of_def)
  let ?c = "first_nonzero (map chain_channel (record_chains (x, ps)))"
  let ?m = "sdp_record_free e r (emit (EvAccessProtos r x) w m)"
  have small: "list_all small_chain (record_chains (x, ps))" using Cons.prems recs by simp
  have step: "scan_records e (r # rs) m = (if 0 < ?c then (Inr ?c, ?m) else scan_records e rs ?m)"
    unfolding scan_records.simps g scan_record_chains [OF small] by (simp add: Let_def g scan_record_chains [OF small])
  have led: "live_sessions ?m = live_sessions m" "live_fds ?m = live_fds m"
    "live_records ?m = live_records m - {#r#}"
    by (simp_all add: sdp_record_free_def)
  show ?case
  proof (cases "0 < ?c")
    case True
    with step led recs show ?thesis by (auto simp: first_nonzero_append)
  next
    case False
    then have "?c = 0" by (simp add: word_gt_0)
    with Cons.IH [of ?m] Cons.prems step led recs show ?thesis
      by (auto simp: first_nonzero_append)
  qed
qed simp

section \<open>Properties\<close>

lemma mset_search_split: "mset (takeWhile P xs) + mset (take 1 (dropWhile P xs)) + mset (tl (dropWhile P xs)) = mset xs"
proof -
  have "xs = takeWhile P xs @ take 1 (dropWhile P xs) @ tl (dropWhile P xs)"
    by (metis One_nat_def append_take_drop_id drop_Suc drop_0 takeWhile_dropWhile_id)
  then show ?thesis by (metis add.assoc mset_append)
qed

text \<open>
  C6. When no chain of the response has more than ten UUIDs, \<open>resolve_channel\<close> answers the first
  nonzero channel that a chain of the response offers, in the order of records, protocol lists and
  chains, or nothing. It closes its session; of the records it received it frees those up to the one
  that offered the channel, and the records after that one stay allocated.
\<close>

theorem resolve_channel_correct:
  assumes "protos_of e recs"
    and "bz_connect e bdaddr_zero (address_to_bdaddr a) (world m) = (Some s, w1)"
    and "bz_search e s [SdpUuid128 (uuid_bytes u)] [0xffff] w1 = ((0, rs), w2)"
    and "list_all (\<lambda>r. list_all small_chain (record_chains (recs r))) rs"
    and "resolve_channel e a u m = (res, m')"
  shows "res = Inr (find (\<lambda>c. 0 < c) (map chain_channel (concat (map (record_chains \<circ> recs) rs))))
    \<and> live_sessions m' = live_sessions m \<and> live_fds m' = live_fds m
    \<and> live_records m' = live_records m +
        mset (tl (dropWhile (\<lambda>r. list_all (\<lambda>c. chain_channel c = 0) (record_chains (recs r))) rs))"
proof -
  let ?silent = "\<lambda>r. first_nonzero (map chain_channel (record_chains (recs r))) = 0"
  have silent: "?silent r \<longleftrightarrow> list_all (\<lambda>c. chain_channel c = 0) (record_chains (recs r))" for r
  proof -
    have "first_nonzero (map chain_channel cs) = 0 \<longleftrightarrow> list_all (\<lambda>c. chain_channel c = 0) cs" for cs
      by (induction cs) (auto simp: word_gt_0)
    then show ?thesis .
  qed
  let ?m2 = "emit (EvSdpSearch s [SdpUuid128 (uuid_bytes u)] [0xffff] 0 rs) w2
    (emit (EvSdpConnect bdaddr_zero (address_to_bdaddr a) (Some s)) w1 m)"
  obtain c m3 where m3: "scan_records e rs ?m2 = (Inr c, m3)"
    and c: "c = first_nonzero (map chain_channel (concat (map (record_chains \<circ> recs) rs)))"
    and led: "live_sessions m3 = live_sessions ?m2" "live_fds m3 = live_fds ?m2"
      "live_records m3 = live_records ?m2 - mset (takeWhile ?silent rs) - mset (take 1 (dropWhile ?silent rs))"
    using scan_records_correct [OF assms(1,4), of ?m2] by auto
  have scan: "(if rs \<noteq> [] then scan_records e rs ?m2 else (Inr 0, ?m2)) = (Inr c, m3)"
    using m3 by (cases "rs = []") auto
  have found: "(if 0 < c then Some c else None) =
      find (\<lambda>c. 0 < c) (map chain_channel (concat (map (record_chains \<circ> recs) rs)))"
    unfolding c by (rule first_nonzero_find)
  have "res = Inr (if 0 < c then Some c else None)" "m' = sdp_close e s m3"
    using assms(5) unfolding resolve_channel_def
    by (auto simp: sdp_connect_def sdp_search_def assms(2,3) scan)
  moreover have "live_records m3 = live_records m + mset (tl (dropWhile ?silent rs))"
  proof -
    have cancel: "L + (A + B + C) - A - B = L + C" for L A B C :: "ptr multiset"
      by (metis add.assoc add.commute add_diff_cancel_right')
    have "live_records ?m2 = live_records m + mset rs" by simp
    then have "live_records m3 = live_records m + (mset (takeWhile ?silent rs) +
        mset (take 1 (dropWhile ?silent rs)) + mset (tl (dropWhile ?silent rs)))
        - mset (takeWhile ?silent rs) - mset (take 1 (dropWhile ?silent rs))"
      unfolding led(3) mset_search_split by simp
    then show ?thesis unfolding cancel .
  qed
  ultimately show ?thesis
    using led(1,2) unfolding found by (simp add: sdp_close_def silent)
qed

text \<open>A response whose second record offers channel 9 in a chain after one without a channel.\<close>

definition sample_records :: "sdp_data list list list list" where
  "sample_records =
     [[[[DataUuid (SdpUuid16 L2CAP_UUID)]]],
      [[[DataUuid (SdpUuid16 L2CAP_UUID)], [DataUuid (SdpUuid16 RFCOMM_UUID), DataUint8 9]]],
      [[[DataUuid (SdpUuid16 RFCOMM_UUID), DataUint8 4]]]]"

theorem resolve_channel_correct_witness:
  "\<exists>m'. resolve_channel (sim_env\<lparr>bz_access_protos := (\<lambda>r w. ((0, sample_records ! r), w))\<rparr>)
       address_any uuid_serial_port (boot (sim_start\<lparr>sim_records := sample_records\<rparr>)) = (Inr (Some 9), m')
     \<and> live_records m' = {#2#}"
proof -
  let ?e = "sim_env\<lparr>bz_access_protos := (\<lambda>r w. ((0, sample_records ! r), w))\<rparr>"
  let ?w = "sim_start\<lparr>sim_records := sample_records\<rparr>"
  let ?recs = "\<lambda>r. (0, sample_records ! r)"
  have p: "protos_of ?e ?recs" by (simp add: protos_of_def)
  have c: "bz_connect ?e bdaddr_zero (address_to_bdaddr address_any) (world (boot ?w)) = (Some 7, ?w)"
    by (simp add: sim_env_def boot_def sim_start_def)
  have q: "bz_search ?e 7 [SdpUuid128 (uuid_bytes uuid_serial_port)] [0xffff] ?w = ((0, [0, 1, 2]), ?w)"
    by (simp add: sim_env_def sample_records_def upt_rec)
  have small: "list_all (\<lambda>r. list_all small_chain (record_chains (?recs r))) [0, 1, 2]" by code_simp
  obtain res m' where r: "resolve_channel ?e address_any uuid_serial_port (boot ?w) = (res, m')"
    by (metis prod.collapse)
  have "find (\<lambda>c. 0 < c) (map chain_channel (concat (map (record_chains \<circ> ?recs) [0, 1, 2]))) = Some 9"
    by code_simp
  moreover have "tl (dropWhile (\<lambda>r. list_all (\<lambda>c. chain_channel c = 0) (record_chains (?recs r))) [0, 1, 2]) = [2 :: nat]"
    by code_simp
  ultimately show ?thesis using resolve_channel_correct [OF p c q small r] r by simp
qed

text \<open>
  Exactly when a chain makes the loop write past the end of its array of ten identifiers: when an
  eleventh UUID follows ten others with no channel offered before it.
\<close>

theorem scan_data_out_of_bounds:
  "scan_data ds [] = Inl b \<longleftrightarrow>
     b = ArrayOutOfBounds \<and> (\<exists>pre u post. ds = pre @ DataUuid u # post \<and>
       length (uuids_of pre) = 10 \<and> offers [] pre = [])"
  using scan_data_overflow [of "[]" ds b] by simp

text \<open>
  C17. A remote device reaches that overflow. When the first chain of the first record of a search response has an
  eleventh UUID, after ten others and whatever else, before any element that the chain offers as a channel,
  \<open>resolve_channel\<close> writes past the end of its array of ten identifiers.
\<close>

theorem resolve_channel_overflows:
  assumes "bz_connect e bdaddr_zero (address_to_bdaddr a) (world m) = (Some s, w1)"
    and "bz_search e s [SdpUuid128 (uuid_bytes u)] [0xffff] w1 = ((0, r # rs), w2)"
    and "bz_access_protos e r w2 = ((0, ((pre @ DataUuid v # post) # cs) # protos), w3)"
    and "length (uuids_of pre) = 10" "offers [] pre = []"
  shows "fst (resolve_channel e a u m) = Inl ArrayOutOfBounds"
proof -
  have "scan_data (pre @ DataUuid v # post) [] = Inl ArrayOutOfBounds"
    using assms(4,5) scan_data_out_of_bounds [of "pre @ DataUuid v # post" ArrayOutOfBounds] by blast
  with assms(1-3) show ?thesis
    by (simp add: resolve_channel_def sdp_connect_def sdp_search_def sdp_get_access_protos_def Let_def)
qed

text \<open>The elements that are not UUIDs do not help: here a number comes after the first of eleven UUIDs.\<close>

definition long_chain :: "sdp_data list" where
  "long_chain = [DataUuid (SdpUuid16 1), DataUint8 5, DataOther] @ map DataUuid (replicate 10 (SdpUuid16 1))"

theorem resolve_channel_overflows_witness:
  "fst (resolve_channel sim_env address_any uuid_serial_port
     (boot (sim_start\<lparr>sim_records := [[[long_chain]]]\<rparr>))) = Inl ArrayOutOfBounds"
proof -
  let ?w = "sim_start\<lparr>sim_records := [[[long_chain]]]\<rparr>"
  let ?pre = "[DataUuid (SdpUuid16 1), DataUint8 5, DataOther] @ map DataUuid (replicate 9 (SdpUuid16 1))"
  have c: "long_chain = ?pre @ DataUuid (SdpUuid16 1) # []" by (simp add: long_chain_def eval_nat_numeral)
  have p: "length (uuids_of ?pre) = 10" "offers [] ?pre = []" by code_simp+
  show ?thesis
    by (rule resolve_channel_overflows [OF _ _ _ p, where s = 7 and r = 0 and rs = "[]" and v = "SdpUuid16 1" and post = "[]"
        and cs = "[]" and protos = "[]" and ?w1.0 = ?w and ?w2.0 = ?w and ?w3.0 = ?w])
      (simp_all add: sim_env_def boot_def sim_start_def c)
qed

end
