(* ===== verification/Stream_Socket.thy ===== *)
theory Stream_Socket
  imports Ledger
begin

text \<open>
  \<open>class Socket\<close> of \<open>src/socket.cpp\<close> and \<open>include/simple_rfcomm/socket.hpp\<close>, Linux branches. A
  \<open>Socket\<close> owns an \<open>Impl\<close> through \<open>pimpl_\<close>, which is null after the object has been moved from;
  a \<open>std::unique_ptr<Socket>\<close> is a \<open>socket option\<close>. Methods take the object and the machine and
  return the new ones.
\<close>

section \<open>State\<close>

record socket_impl =
  sock_handle :: handle
  peer_addr :: address
  peer_ch :: u8
  local_ch :: u8

datatype socket = Socket (socket_pimpl: "socket_impl option")

definition DEFAULT_BUFFER_SIZE :: int where
  "DEFAULT_BUFFER_SIZE = 512 * 1024"

definition socket_impl_default :: socket_impl where
  "socket_impl_default =
     \<lparr>sock_handle = INVALID_SOCKET_HANDLE, peer_addr = address_any, peer_ch = 0, local_ch = 0\<rparr>"

section \<open>Construction, destruction, moves\<close>

definition close_socket_handle :: "'w env \<Rightarrow> handle \<Rightarrow> 'w machine \<Rightarrow> 'w machine" where
  "close_socket_handle e s m = (if 0 \<le>s s then sys_close e s m else m)"

definition socket_impl_destroy :: "'w env \<Rightarrow> socket_impl \<Rightarrow> 'w machine \<Rightarrow> 'w machine" where
  "socket_impl_destroy e im m =
     (if sock_handle im \<noteq> INVALID_SOCKET_HANDLE then close_socket_handle e (sock_handle im) m else m)"

definition socket_new :: socket where
  "socket_new = Socket (Some socket_impl_default)"

definition socket_destroy :: "'w env \<Rightarrow> socket \<Rightarrow> 'w machine \<Rightarrow> 'w machine" where
  "socket_destroy e s m =
     (case socket_pimpl s of None \<Rightarrow> m | Some im \<Rightarrow> socket_impl_destroy e im m)"

text \<open>The move constructor: the new object and what is left of the source.\<close>

definition socket_move :: "socket \<Rightarrow> socket \<times> socket" where
  "socket_move other = (Socket (socket_pimpl other), Socket None)"

text \<open>Move assignment between distinct objects destroys what the target owned.\<close>

definition socket_move_assign ::
  "'w env \<Rightarrow> socket \<Rightarrow> socket \<Rightarrow> 'w machine \<Rightarrow> (socket \<times> socket) \<times> 'w machine" where
  "socket_move_assign e dst other m =
     ((Socket (socket_pimpl other), Socket None), socket_destroy e dst m)"

section \<open>Observers and close\<close>

definition socket_is_open :: "socket \<Rightarrow> bool" where
  "socket_is_open s =
     (case socket_pimpl s of None \<Rightarrow> False | Some im \<Rightarrow> sock_handle im \<noteq> INVALID_SOCKET_HANDLE)"

text \<open>The descriptor that an open socket passes to the kernel.\<close>

definition socket_fd :: "socket \<Rightarrow> handle" where
  "socket_fd s =
     (case socket_pimpl s of None \<Rightarrow> INVALID_SOCKET_HANDLE | Some im \<Rightarrow> sock_handle im)"

definition socket_close :: "'w env \<Rightarrow> socket \<Rightarrow> 'w machine \<Rightarrow> socket \<times> 'w machine" where
  "socket_close e s m =
     (case socket_pimpl s of
        None \<Rightarrow> (s, m)
      | Some im \<Rightarrow>
          if sock_handle im \<noteq> INVALID_SOCKET_HANDLE then
            (Socket (Some (im\<lparr>sock_handle := INVALID_SOCKET_HANDLE\<rparr>)),
             close_socket_handle e (sock_handle im) m)
          else (s, m))"

definition socket_peer_address :: "socket \<Rightarrow> address" where
  "socket_peer_address s = (case socket_pimpl s of None \<Rightarrow> address_any | Some im \<Rightarrow> peer_addr im)"

definition socket_peer_channel :: "socket \<Rightarrow> u8" where
  "socket_peer_channel s = (case socket_pimpl s of None \<Rightarrow> 0 | Some im \<Rightarrow> peer_ch im)"

definition socket_local_channel :: "socket \<Rightarrow> u8" where
  "socket_local_channel s = (case socket_pimpl s of None \<Rightarrow> 0 | Some im \<Rightarrow> local_ch im)"

definition socket_native_handle :: "socket \<Rightarrow> u64" where
  "socket_native_handle s =
     (case socket_pimpl s of None \<Rightarrow> 0 | Some im \<Rightarrow> handle_to_uintptr (sock_handle im))"

section \<open>Sending\<close>

definition socket_send :: "'w env \<Rightarrow> socket \<Rightarrow> u8 list \<Rightarrow> 'w machine \<Rightarrow> int \<times> 'w machine" where
  "socket_send e s data m =
     (if \<not> socket_is_open s \<or> data = [] then (0, m)
      else let (sent, m) = sys_send e (socket_fd s) data m
           in (if 0 \<le> sent then sent else - 1, m))"

definition socket_send_str :: "'w env \<Rightarrow> socket \<Rightarrow> string \<Rightarrow> 'w machine \<Rightarrow> int \<times> 'w machine" where
  "socket_send_str e s str m = socket_send e s (map byte_of_char str) m"

function socket_send_all_loop ::
  "'w env \<Rightarrow> socket \<Rightarrow> u8 list \<Rightarrow> nat \<Rightarrow> 'w machine \<Rightarrow> bool \<times> 'w machine" where
  "socket_send_all_loop e s data total_sent m =
     (if total_sent < length data then
        let (sent, m) = socket_send e s (drop total_sent data) m
        in if sent \<le> 0 then (False, m)
           else socket_send_all_loop e s data (total_sent + nat sent) m
      else (True, m))"
  by pat_completeness auto
termination
  by (relation "measure (\<lambda>(e, s, data, total_sent, m). length data - total_sent)") auto

declare socket_send_all_loop.simps [simp del]

definition socket_send_all :: "'w env \<Rightarrow> socket \<Rightarrow> u8 list \<Rightarrow> 'w machine \<Rightarrow> bool \<times> 'w machine" where
  "socket_send_all e s data m = socket_send_all_loop e s data 0 m"

section \<open>Receiving\<close>

text \<open>The second component of the result is the caller's buffer after the call.\<close>

definition socket_recv ::
  "'w env \<Rightarrow> socket \<Rightarrow> u8 list \<Rightarrow> 'w machine \<Rightarrow> (int \<times> u8 list) \<times> 'w machine" where
  "socket_recv e s buffer m =
     (if \<not> socket_is_open s \<or> buffer = [] then ((0, buffer), m)
      else let ((r, data), m) = sys_recv e (socket_fd s) (length buffer) m
           in ((if 0 \<le> r then r else - 1, overlay data buffer), m))"

lemma length_socket_recv [shape_facts]:
  "socket_recv e s buf m = ((r, buf'), m') \<Longrightarrow> length buf' = length buf"
  by (auto simp: socket_recv_def split: if_splits prod.splits)

function socket_recv_all_loop ::
  "'w env \<Rightarrow> socket \<Rightarrow> u8 list \<Rightarrow> nat \<Rightarrow> 'w machine \<Rightarrow> (bool \<times> u8 list) \<times> 'w machine" where
  "socket_recv_all_loop e s buffer total_recvd m =
     (if total_recvd < length buffer then
        let ((r, chunk), m) = socket_recv e s (drop total_recvd buffer) m;
            buffer' = write_tail total_recvd chunk buffer
        in if r \<le> 0 then ((False, buffer'), m)
           else socket_recv_all_loop e s buffer' (total_recvd + nat r) m
      else ((True, buffer), m))"
  by pat_completeness auto

termination
  by (relation "measure (\<lambda>(e, s, buffer, total_recvd, m). length buffer - total_recvd)")
    (auto simp: write_tail_def dest!: sym [of "((_, _), _)"] length_socket_recv)

declare socket_recv_all_loop.simps [simp del]

definition socket_recv_all ::
  "'w env \<Rightarrow> socket \<Rightarrow> u8 list \<Rightarrow> 'w machine \<Rightarrow> (bool \<times> u8 list) \<times> 'w machine" where
  "socket_recv_all e s buffer m = socket_recv_all_loop e s buffer 0 m"

text \<open>\<open>std::vector::resize\<close>: shrinking truncates, growing appends zeros.\<close>

definition vector_resize :: "nat \<Rightarrow> u8 list \<Rightarrow> u8 list" where
  "vector_resize n xs = take n xs @ replicate (n - length xs) 0"

definition socket_recv_some ::
  "'w env \<Rightarrow> socket \<Rightarrow> nat \<Rightarrow> 'w machine \<Rightarrow> u8 list \<times> 'w machine" where
  "socket_recv_some e s max_bytes m =
     (let ((r, buf), m) = socket_recv e s (replicate max_bytes 0) m
      in if 0 < r then (vector_resize (nat r) buf, m) else ([], m))"

section \<open>Options\<close>

definition socket_set_buffer_sizes ::
  "'w env \<Rightarrow> socket \<Rightarrow> int \<Rightarrow> int \<Rightarrow> 'w machine \<Rightarrow> bool \<times> 'w machine" where
  "socket_set_buffer_sizes e s sndbuf_bytes rcvbuf_bytes m =
     (if \<not> socket_is_open s then (False, m)
      else
        let (ok1, m) =
              (if 0 < sndbuf_bytes then
                 let (r, m) = sys_setsockopt e (socket_fd s) SO_SNDBUF (OptInt sndbuf_bytes) m
                 in (r = 0, m)
               else (True, m));
            (ok2, m) =
              (if 0 < rcvbuf_bytes then
                 let (r, m) = sys_setsockopt e (socket_fd s) SO_RCVBUF (OptInt rcvbuf_bytes) m
                 in (r = 0, m)
               else (True, m))
        in (ok1 \<and> ok2, m))"

text \<open>The division of C++ truncates towards zero, and the remainder has the sign of the dividend.\<close>

definition timeval_of_ms :: "int \<Rightarrow> optval" where
  "timeval_of_ms ms = OptTimeval (ms sdiv 1000) ((ms smod 1000) * 1000)"

definition socket_set_timeouts ::
  "'w env \<Rightarrow> socket \<Rightarrow> int \<Rightarrow> int \<Rightarrow> 'w machine \<Rightarrow> bool \<times> 'w machine" where
  "socket_set_timeouts e s send_timeout recv_timeout m =
     (if \<not> socket_is_open s then (False, m)
      else
        let (r1, m) = sys_setsockopt e (socket_fd s) SO_SNDTIMEO (timeval_of_ms send_timeout) m;
            (r2, m) = sys_setsockopt e (socket_fd s) SO_RCVTIMEO (timeval_of_ms recv_timeout) m
        in (r1 = 0 \<and> r2 = 0, m))"

text \<open>\<open>O_NONBLOCK\<close> of the Linux \<open>fcntl.h\<close> is octal 4000.\<close>

definition O_NONBLOCK :: u32 where
  "O_NONBLOCK = 0x800"

definition socket_set_blocking :: "'w env \<Rightarrow> socket \<Rightarrow> bool \<Rightarrow> 'w machine \<Rightarrow> bool \<times> 'w machine" where
  "socket_set_blocking e s blocking m =
     (if \<not> socket_is_open s then (False, m)
      else
        let (flags, m) = sys_getfl e (socket_fd s) m
        in if flags <s 0 then (False, m)
           else
             let flags' = (if blocking then flags AND NOT O_NONBLOCK else flags OR O_NONBLOCK);
                 (r, m) = sys_setfl e (socket_fd s) flags' m
             in (r = 0, m))"

section \<open>From a native descriptor\<close>

definition socket_from_native ::
  "'w env \<Rightarrow> u64 \<Rightarrow> address \<Rightarrow> u8 \<Rightarrow> 'w machine \<Rightarrow> socket \<times> 'w machine" where
  "socket_from_native e handle p_addr p_ch m =
     (let im = socket_impl_default\<lparr>sock_handle := uintptr_to_handle handle,
                 peer_addr := p_addr, peer_ch := p_ch\<rparr>;
          (_, m) = socket_set_buffer_sizes e (Socket (Some im)) DEFAULT_BUFFER_SIZE DEFAULT_BUFFER_SIZE m;
          ((r, sa), m) = sys_getsockname e (sock_handle im) m
      in (Socket (Some (if r = 0 then im\<lparr>local_ch := rc_channel sa\<rparr> else im)), m))"

end
