(* ===== verification/Transfer_Loops.thy ===== *)
theory Transfer_Loops
  imports Prelude
begin

text \<open>
  The two transfer loops of the library, as interfaces: a loop that fills a span from a partial reader,
  and a loop that sends a span through a partial sender. What they achieve is proved here once, for
  \<open>recv_all\<close> and \<open>send_all\<close> of the sockets of both systems and for \<open>SerialPort::read_exact\<close>.
\<close>

section \<open>Partial readers\<close>

text \<open>
  A reader stores some bytes at the start of a span and says how many; \<open>log\<close> is all it has ever
  delivered, in order. It keeps its promises under \<open>inv\<close> for spans whose length is \<open>small\<close>.
\<close>

locale byte_reader =
  fixes rd :: "'s \<Rightarrow> u8 list \<Rightarrow> (nat \<times> u8 list) \<times> 's"
    and log :: "'s \<Rightarrow> u8 list"
    and inv :: "'s \<Rightarrow> bool"
    and small :: "nat \<Rightarrow> bool"
  assumes rd_inv: "inv s \<Longrightarrow> rd s buf = ((n, buf'), s') \<Longrightarrow> inv s'"
    and rd_span: "inv s \<Longrightarrow> small (length buf) \<Longrightarrow> rd s buf = ((n, buf'), s') \<Longrightarrow>
      n \<le> length buf \<and> length buf' = length buf \<and> drop n buf' = drop n buf"
    and rd_log: "inv s \<Longrightarrow> small (length buf) \<Longrightarrow> rd s buf = ((n, buf'), s') \<Longrightarrow>
      log s' = log s @ take n buf'"
    and small_le: "small n \<Longrightarrow> k \<le> n \<Longrightarrow> small k"

text \<open>The loop of the code over such a reader: it stops at a full span or at a read of nothing.\<close>

locale fill_loop = byte_reader +
  fixes fill :: "'s \<Rightarrow> u8 list \<Rightarrow> nat \<Rightarrow> (bool \<times> u8 list) \<times> 's"
  assumes fill_unfold:
    "fill s buf done =
       (if done < length buf then
          let ((n, chunk), s') = rd s (drop done buf); buf' = write_tail done chunk buf
          in if n = 0 then ((False, buf'), s') else fill s' buf' (done + n)
        else ((True, buf), s))"
begin

text \<open>
  Whatever the reader does, the loop ends with the span overwritten from \<open>done\<close> up to some \<open>k\<close> by
  exactly the bytes the reader delivered meanwhile, and it reports success if \<open>k\<close> is the end.
\<close>

lemma fill_spec:
  assumes "inv s" "small (length buf)" "done \<le> length buf" "fill s buf done = ((ok, buf'), s')"
  shows "inv s' \<and> length buf' = length buf \<and>
    (\<exists>k. done \<le> k \<and> k \<le> length buf \<and> (ok \<longleftrightarrow> k = length buf) \<and>
      take done buf' = take done buf \<and> drop k buf' = drop k buf \<and>
      log s' = log s @ take (k - done) (drop done buf'))"
  using assms
proof (induction "length buf - done" arbitrary: s buf "done" rule: less_induct)
  case less
  show ?case
  proof (cases "done < length buf")
    case False
    then have "ok \<and> buf' = buf \<and> s' = s"
      using less.prems(4) by (simp add: fill_unfold [of s buf "done"])
    with False less.prems show ?thesis by auto
  next
    case True
    obtain n chunk s1 where r: "rd s (drop done buf) = ((n, chunk), s1)"
      by (metis prod.collapse)
    let ?b = "write_tail done chunk buf"
    have tail: "small (length (drop done buf))" using small_le [OF less.prems(2)] by simp
    have inv1: "inv s1" using rd_inv [OF less.prems(1) r] .
    have span: "n \<le> length buf - done" "length chunk = length buf - done"
      "drop n chunk = drop (done + n) buf"
      using rd_span [OF less.prems(1) tail r] by (simp_all add: add.commute)
    have log1: "log s1 = log s @ take n chunk" using rd_log [OF less.prems(1) tail r] .
    have b: "length ?b = length buf" "take done ?b = take done buf" "drop done ?b = chunk"
      using span True by (simp_all add: write_tail_def)
    have rest: "drop (done + n) ?b = drop (done + n) buf"
      using span(3) b(3) by (metis add.commute drop_drop)
    show ?thesis
    proof (cases "n = 0")
      case n: True
      then have "\<not> ok \<and> buf' = ?b \<and> s' = s1"
        using less.prems(4) True r by (simp add: fill_unfold [of s buf "done"])
      with n inv1 b rest log1 True show ?thesis by (intro conjI exI [of _ "done"]) auto
    next
      case n: False
      have step: "fill s1 ?b (done + n) = ((ok, buf'), s')"
        using less.prems(4) True r n by (simp add: fill_unfold [of s buf "done"])
      have "inv s' \<and> length buf' = length ?b \<and>
        (\<exists>k. done + n \<le> k \<and> k \<le> length ?b \<and> (ok \<longleftrightarrow> k = length ?b) \<and>
          take (done + n) buf' = take (done + n) ?b \<and> drop k buf' = drop k ?b \<and>
          log s' = log s1 @ take (k - (done + n)) (drop (done + n) buf'))"
        by (rule less.hyps [OF _ inv1 _ _ step]) (use True n b(1) span(1) less.prems(2) in auto)
      then obtain k where k: "done + n \<le> k" "k \<le> length buf" "ok \<longleftrightarrow> k = length buf"
          "take (done + n) buf' = take (done + n) ?b" "drop k buf' = drop k ?b"
          "log s' = log s1 @ take (k - (done + n)) (drop (done + n) buf')"
        and fin: "inv s'" "length buf' = length buf"
        using b(1) by auto
      have "take done buf' = take done buf"
        using k(4) b(2) by (metis le_add1 min.absorb1 take_take)
      moreover have "drop k buf' = drop k buf"
        using k(1,5) rest by (metis drop_drop le_add_diff_inverse2)
      moreover have "take n (drop done buf') = take n chunk"
      proof -
        have "take n (drop done buf') = drop done (take (done + n) ?b)"
          by (simp add: take_drop add.commute flip: k(4))
        also have "\<dots> = take n (drop done ?b)" by (simp add: take_drop add.commute)
        finally show ?thesis by (simp only: b(3))
      qed
      then have "log s' = log s @ take (k - done) (drop done buf')"
      proof -
        have "k - done = n + (k - (done + n))" using k(1) by simp
        then have "take (k - done) (drop done buf') =
            take n (drop done buf') @ take (k - (done + n)) (drop (done + n) buf')"
          by (simp only: take_add drop_drop add.commute)
        with k(6) log1 \<open>take n (drop done buf') = take n chunk\<close> show ?thesis by simp
      qed
      ultimately show ?thesis using k fin by (intro conjI exI [of _ k]) auto
    qed
  qed
qed

lemma fill_from_start:
  assumes "inv s" "small (length buf)" "fill s buf 0 = ((ok, buf'), s')"
  shows "inv s' \<and> length buf' = length buf \<and>
    (\<exists>k\<le>length buf. (ok \<longleftrightarrow> k = length buf) \<and> drop k buf' = drop k buf \<and> log s' = log s @ take k buf')"
  using fill_spec [OF assms(1,2) _ assms(3)] by auto

end

section \<open>Partial senders\<close>

text \<open>
  A sender accepts some bytes from the start of a span and answers how many, or a number that is not
  positive. \<open>sent\<close> is all it has accepted, in order; it keeps its promises under \<open>inv\<close> for spans whose
  length is \<open>small\<close>.
\<close>

locale byte_sender =
  fixes sd :: "'s \<Rightarrow> u8 list \<Rightarrow> int \<times> 's"
    and sent :: "'s \<Rightarrow> u8 list"
    and inv :: "'s \<Rightarrow> bool"
    and small :: "nat \<Rightarrow> bool"
  assumes sd_inv: "inv s \<Longrightarrow> sd s data = (r, s') \<Longrightarrow> inv s'"
    and sd_span: "inv s \<Longrightarrow> small (length data) \<Longrightarrow> sd s data = (r, s') \<Longrightarrow> nat r \<le> length data"
    and sd_log: "inv s \<Longrightarrow> small (length data) \<Longrightarrow> sd s data = (r, s') \<Longrightarrow>
      sent s' = sent s @ take (nat r) data"
    and small_le: "small n \<Longrightarrow> k \<le> n \<Longrightarrow> small k"

text \<open>The loop of the code over such a sender: it stops at the end or at a send of nothing.\<close>

locale send_loop = byte_sender +
  fixes drain :: "'s \<Rightarrow> u8 list \<Rightarrow> nat \<Rightarrow> bool \<times> 's"
  assumes drain_unfold:
    "drain s data off =
       (if off < length data then
          let (r, s') = sd s (drop off data)
          in if r \<le> 0 then (False, s') else drain s' data (off + nat r)
        else (True, s))"
begin

lemma send_spec:
  assumes "inv s" "small (length data)" "n \<le> length data" "drain s data n = (ok, s')"
  shows "inv s' \<and> (\<exists>k. n \<le> k \<and> k \<le> length data \<and> (ok \<longleftrightarrow> k = length data) \<and>
    sent s' = sent s @ take (k - n) (drop n data))"
  using assms
proof (induction "length data - n" arbitrary: s n rule: less_induct)
  case less
  obtain r s1 where r: "sd s (drop n data) = (r, s1)" by (metis prod.collapse)
  have tail: "small (length (drop n data))" using small_le [OF less.prems(2)] by simp
  note eff = sd_inv [OF less.prems(1) r] sd_span [OF less.prems(1) tail r] sd_log [OF less.prems(1) tail r]
  consider "n = length data" | "n < length data" "r \<le> 0" | "n < length data" "0 < r"
    using less.prems(3) by linarith
  then show ?case
  proof cases
    case 1
    then have "ok" "s' = s" using less.prems(4) by (simp_all add: drain_unfold [of s data "length data"])
    with 1 less.prems(1) show ?thesis by simp
  next
    case 2
    with less.prems(4) r have "\<not> ok" "s' = s1" by (auto simp: drain_unfold [of s data n])
    with 2 eff show ?thesis by (intro conjI exI [of _ n]) auto
  next
    case 3
    have step: "drain s1 data (n + nat r) = (ok, s')"
      using less.prems(4) 3 r by (simp add: drain_unfold [of s data n])
    have le: "n + nat r \<le> length data" using eff(2) 3(1) by (simp add: le_diff_conv2 add.commute)
    have "length data - (n + nat r) < length data - n" using 3 by simp
    from less.hyps [OF this eff(1) less.prems(2) le step]
    obtain k where k: "n + nat r \<le> k" "k \<le> length data" "ok \<longleftrightarrow> k = length data"
      "sent s' = sent s1 @ take (k - (n + nat r)) (drop (n + nat r) data)" and fin: "inv s'"
      by auto
    have "k - n = nat r + (k - (n + nat r))" using k(1) by simp
    then have "take (k - n) (drop n data) =
        take (nat r) (drop n data) @ take (k - (n + nat r)) (drop (n + nat r) data)"
      by (simp only: take_add drop_drop add.commute)
    with k fin eff(3) show ?thesis by (intro conjI exI [of _ k]) simp_all
  qed
qed

lemma send_from_start:
  assumes "inv s" "small (length data)" "drain s data 0 = (ok, s')"
  shows "inv s' \<and> (\<exists>k\<le>length data. (ok \<longleftrightarrow> k = length data) \<and> sent s' = sent s @ take k data)"
  using send_spec [OF assms(1,2) _ assms(3)] by auto

end

end
