(* ===== verification/Byte_Transfer.thy ===== *)
theory Byte_Transfer
  imports Stream_Socket Sim_Env Transfer_Loops
begin

text \<open>
  Byte transfer: what the kernel promises of \<open>recv\<close> and \<open>send\<close>, the bytes that a trace shows to
  have crossed a descriptor in each direction. \<open>recv_all\<close> and \<open>send_all\<close> are instances of the two
  transfer loops.
\<close>

section \<open>Promises of the kernel\<close>

text \<open>
  \<open>recv(2)\<close>: a positive result is the number of bytes stored, at most the size of the buffer;
  otherwise nothing is stored. \<open>send(2)\<close>: the result is at most the number of bytes offered.
\<close>

definition recv_bounded :: "'w env \<Rightarrow> bool" where
  "recv_bounded e \<longleftrightarrow> (\<forall>h n w r d w'. k_recv e h n w = ((r, d), w') \<longrightarrow>
     (if 0 < r then r = int (length d) \<and> length d \<le> n else d = []))"

definition send_bounded :: "'w env \<Rightarrow> bool" where
  "send_bounded e \<longleftrightarrow>
     (\<forall>h d w r w'. k_send e h d w = (r, w') \<longrightarrow> r \<le> int (length d))"

lemma recv_boundedD:
  "recv_bounded e \<Longrightarrow> k_recv e h n w = ((r, d), w') \<Longrightarrow>
     if 0 < r then r = int (length d) \<and> length d \<le> n else d = []"
  unfolding recv_bounded_def by blast

lemma send_boundedD: "send_bounded e \<Longrightarrow> k_send e h d w = (r, w') \<Longrightarrow> r \<le> int (length d)"
  unfolding send_bounded_def by blast

lemma sim_env_bounded [simp]: "recv_bounded sim_env" "send_bounded sim_env"
  by (auto simp: recv_bounded_def send_bounded_def sim_env_def Let_def)

section \<open>Bytes in a trace\<close>

fun bytes_in :: "handle \<Rightarrow> event \<Rightarrow> u8 list" where
  "bytes_in h (EvRecv h' _ r d) = (if h' = h \<and> 0 < r then d else [])"
| "bytes_in h _ = []"

fun bytes_out :: "handle \<Rightarrow> event \<Rightarrow> u8 list" where
  "bytes_out h (EvSend h' d r) = (if h' = h \<and> 0 < r then take (nat r) d else [])"
| "bytes_out h _ = []"

text \<open>All bytes received from, and accepted for sending on, a descriptor so far.\<close>

definition arrived :: "handle \<Rightarrow> 'w machine \<Rightarrow> u8 list" where
  "arrived h m = concat (map (bytes_in h) (trace m))"

definition accepted :: "handle \<Rightarrow> 'w machine \<Rightarrow> u8 list" where
  "accepted h m = concat (map (bytes_out h) (trace m))"

lemma arrived_emit [simp]: "arrived h (emit ev w m) = arrived h m @ bytes_in h ev"
  by (simp add: arrived_def)

lemma accepted_emit [simp]: "accepted h (emit ev w m) = accepted h m @ bytes_out h ev"
  by (simp add: accepted_def)

section \<open>The socket as a reader\<close>

text \<open>The state of the reader is the environment with the socket and the machine.\<close>

type_synonym 'w link = "'w env \<times> socket \<times> 'w machine"

definition link_read :: "'w link \<Rightarrow> u8 list \<Rightarrow> (nat \<times> u8 list) \<times> 'w link" where
  "link_read = (\<lambda>(e, s, m) buf. case socket_recv e s buf m of ((r, b), m') \<Rightarrow> ((nat r, b), (e, s, m')))"

definition link_log :: "'w link \<Rightarrow> u8 list" where
  "link_log = (\<lambda>(e, s, m). arrived (socket_fd s) m)"

definition link_ok :: "'w link \<Rightarrow> bool" where
  "link_ok = (\<lambda>(e, s, m). recv_bounded e)"

definition link_fill :: "'w link \<Rightarrow> u8 list \<Rightarrow> nat \<Rightarrow> (bool \<times> u8 list) \<times> 'w link" where
  "link_fill = (\<lambda>(e, s, m) buf done.
     case socket_recv_all_loop e s buf done m of ((ok, b), m') \<Rightarrow> ((ok, b), (e, s, m')))"

lemma socket_recv_effect:
  assumes "recv_bounded e" "socket_recv e s buf m = ((r, buf'), m')"
  shows "- 1 \<le> r \<and> nat r \<le> length buf \<and> length buf' = length buf \<and> drop (nat r) buf' = drop (nat r) buf
    \<and> arrived (socket_fd s) m' = arrived (socket_fd s) m @ take (nat r) buf'"
proof (cases "\<not> socket_is_open s \<or> buf = []")
  case True
  with assms show ?thesis by (auto simp: socket_recv_def)
next
  case False
  obtain q d w where k: "k_recv e (socket_fd s) (length buf) (world m) = ((q, d), w)"
    by (metis prod.collapse)
  have "if 0 < q then q = int (length d) \<and> length d \<le> length buf else d = []"
    using recv_boundedD [OF assms(1) k] .
  moreover have "r = (if 0 \<le> q then q else - 1)" "buf' = overlay d buf"
    "m' = emit (EvRecv (socket_fd s) (length buf) q d) w m"
    using assms(2) False k by (auto simp: socket_recv_def sys_defs)
  ultimately show ?thesis
    by (auto simp: take_overlay drop_overlay split: if_splits)
qed

interpretation socket_fill: fill_loop link_read link_log link_ok "\<lambda>_. True" link_fill
proof
  fix c c' :: "'w link" and buf buf' n
  obtain e s m where c: "c = (e, s, m)" by (cases c)
  assume ok: "link_ok c" and rd: "link_read c buf = ((n, buf'), c')"
  then obtain r m' where r: "socket_recv e s buf m = ((r, buf'), m')" "n = nat r" "c' = (e, s, m')"
    by (auto simp: link_read_def c split: prod.splits)
  have "recv_bounded e" using ok by (simp add: link_ok_def c)
  note eff = socket_recv_effect [OF this r(1)]
  show "link_ok c'" using ok r by (simp add: link_ok_def c)
  show "n \<le> length buf \<and> length buf' = length buf \<and> drop n buf' = drop n buf"
    using eff r by simp
  show "link_log c' = link_log c @ take n buf'" using eff r by (simp add: link_log_def c)
next
  fix c :: "'w link" and buf "done"
  obtain e s m where c: "c = (e, s, m)" by (cases c)
  show "link_fill c buf done =
    (if done < length buf then
       let ((n, chunk), c') = link_read c (drop done buf); buf' = write_tail done chunk buf
       in if n = 0 then ((False, buf'), c') else link_fill c' buf' (done + n)
     else ((True, buf), c))"
    by (auto simp: c link_fill_def link_read_def Let_def socket_recv_all_loop.simps [of e s buf "done" m]
        split: prod.splits)
qed simp

section \<open>Properties\<close>

lemma socket_recv_all_effect:
  assumes "recv_bounded e" "socket_recv_all e s buf m = ((ok, buf'), m')"
  shows "\<exists>k\<le>length buf. (ok \<longleftrightarrow> k = length buf) \<and> length buf' = length buf \<and>
    drop k buf' = drop k buf \<and> arrived (socket_fd s) m' = arrived (socket_fd s) m @ take k buf'"
proof -
  have "link_fill (e, s, m) buf 0 = ((ok, buf'), (e, s, m'))"
    using assms(2) by (simp add: link_fill_def socket_recv_all_def)
  from socket_fill.fill_from_start [OF _ _ this] show ?thesis
    using assms(1) by (auto simp: link_ok_def link_log_def)
qed

text \<open>
  C10. \<open>recv_all\<close> always returns. The bytes it took from the descriptor are exactly the first
  \<open>k\<close> bytes of the buffer, in order, the rest of the buffer is untouched, and it answers \<open>true\<close>
  exactly when \<open>k\<close> is the size of the buffer.
\<close>

theorem socket_recv_all_correct:
  assumes "recv_bounded e" "socket_recv_all e s buf m = ((ok, buf'), m')"
  shows "\<exists>k\<le>length buf. (ok \<longleftrightarrow> k = length buf) \<and> length buf' = length buf \<and>
    drop k buf' = drop k buf \<and> arrived (socket_fd s) m' = arrived (socket_fd s) m @ take k buf'"
  using socket_recv_all_effect [OF assms] .

text \<open>An open socket of the sample environment, for the instances below.\<close>

definition sample_socket :: socket where
  "sample_socket = Socket (Some (socket_impl_default\<lparr>sock_handle := 3\<rparr>))"

theorem socket_recv_all_correct_witness:
  "fst (socket_recv_all sim_env sample_socket [0, 0, 0] (boot (sim_start\<lparr>sim_in := [7, 8, 9, 10]\<rparr>)))
     = (True, [7, 8, 9])
   \<and> arrived 3 (snd (socket_recv_all sim_env sample_socket [0, 0, 0]
       (boot (sim_start\<lparr>sim_in := [7, 8, 9, 10]\<rparr>)))) = [7, 8, 9]"
proof -
  let ?m = "boot (sim_start\<lparr>sim_in := [7, 8, 9, 10]\<rparr>)"
  have v: "fst (socket_recv_all sim_env sample_socket [0, 0, 0] ?m) = (True, [7, 8, 9])"
    by code_simp
  then obtain m' where r: "socket_recv_all sim_env sample_socket [0, 0, 0] ?m = ((True, [7, 8, 9]), m')"
    by (metis prod.collapse)
  have "arrived 3 ?m = []" "socket_fd sample_socket = 3" by code_simp+
  with socket_recv_all_correct [OF sim_env_bounded(1) r] r show ?thesis by auto
qed

lemma socket_send_effect:
  assumes "send_bounded e" "socket_send e s data m = (r, m')"
  shows "- 1 \<le> r \<and> nat r \<le> length data
    \<and> accepted (socket_fd s) m' = accepted (socket_fd s) m @ take (nat r) data"
proof (cases "\<not> socket_is_open s \<or> data = []")
  case True
  with assms show ?thesis by (auto simp: socket_send_def)
next
  case False
  obtain q w where k: "k_send e (socket_fd s) data (world m) = (q, w)" by (metis prod.collapse)
  have "q \<le> int (length data)" using send_boundedD [OF assms(1) k] .
  moreover have "r = (if 0 \<le> q then q else - 1)" "m' = emit (EvSend (socket_fd s) data q) w m"
    using assms(2) False k by (auto simp: socket_send_def sys_defs)
  ultimately show ?thesis by auto
qed

section \<open>The socket as a sender\<close>

definition link_send :: "'w link \<Rightarrow> u8 list \<Rightarrow> int \<times> 'w link" where
  "link_send = (\<lambda>(e, s, m) data. case socket_send e s data m of (r, m') \<Rightarrow> (r, (e, s, m')))"

definition link_sent :: "'w link \<Rightarrow> u8 list" where
  "link_sent = (\<lambda>(e, s, m). accepted (socket_fd s) m)"

definition link_out_ok :: "'w link \<Rightarrow> bool" where
  "link_out_ok = (\<lambda>(e, s, m). send_bounded e)"

definition link_drain :: "'w link \<Rightarrow> u8 list \<Rightarrow> nat \<Rightarrow> bool \<times> 'w link" where
  "link_drain = (\<lambda>(e, s, m) data off.
     case socket_send_all_loop e s data off m of (ok, m') \<Rightarrow> (ok, (e, s, m')))"

interpretation socket_drain: send_loop link_send link_sent link_out_ok "\<lambda>_. True" link_drain
proof
  fix c c' :: "'w link" and data r
  obtain e s m where c: "c = (e, s, m)" by (cases c)
  assume ok: "link_out_ok c" and sd: "link_send c data = (r, c')"
  then obtain m' where r: "socket_send e s data m = (r, m')" "c' = (e, s, m')"
    by (auto simp: link_send_def c split: prod.splits)
  have "send_bounded e" using ok by (simp add: link_out_ok_def c)
  note eff = socket_send_effect [OF this r(1)]
  show "link_out_ok c'" using ok r by (simp add: link_out_ok_def c)
  show "nat r \<le> length data" using eff by simp
  show "link_sent c' = link_sent c @ take (nat r) data" using eff r by (simp add: link_sent_def c)
next
  fix c :: "'w link" and data off
  obtain e s m where c: "c = (e, s, m)" by (cases c)
  show "link_drain c data off =
    (if off < length data then
       let (r, c') = link_send c (drop off data)
       in if r \<le> 0 then (False, c') else link_drain c' data (off + nat r)
     else (True, c))"
    by (auto simp: c link_drain_def link_send_def Let_def socket_send_all_loop.simps [of e s data off m]
        split: prod.splits)
qed simp

lemma socket_send_all_effect:
  assumes "send_bounded e" "socket_send_all e s data m = (ok, m')"
  shows "\<exists>k\<le>length data. (ok \<longleftrightarrow> k = length data) \<and>
    accepted (socket_fd s) m' = accepted (socket_fd s) m @ take k data"
proof -
  have "link_drain (e, s, m) data 0 = (ok, (e, s, m'))"
    using assms(2) by (simp add: link_drain_def socket_send_all_def)
  from socket_drain.send_from_start [OF _ _ this] show ?thesis
    using assms(1) by (auto simp: link_out_ok_def link_sent_def)
qed

text \<open>
  C9. \<open>send_all\<close> always returns. What the kernel accepted for the descriptor is exactly the first
  \<open>k\<close> bytes of the data, in order and without repetition, and it answers \<open>true\<close> exactly when that
  is all of it.
\<close>

theorem socket_send_all_correct:
  assumes "send_bounded e" "socket_send_all e s data m = (ok, m')"
  shows "\<exists>k\<le>length data. (ok \<longleftrightarrow> k = length data) \<and>
    accepted (socket_fd s) m' = accepted (socket_fd s) m @ take k data"
  using socket_send_all_effect [OF assms] .

theorem socket_send_all_correct_witness:
  "fst (socket_send_all sim_env sample_socket [1, 2, 3, 4, 5] (boot sim_start))
   \<and> accepted 3 (snd (socket_send_all sim_env sample_socket [1, 2, 3, 4, 5] (boot sim_start)))
       = [1, 2, 3, 4, 5]"
proof -
  have ok: "fst (socket_send_all sim_env sample_socket [1, 2, 3, 4, 5] (boot sim_start))"
    by code_simp
  then obtain m' where r: "socket_send_all sim_env sample_socket [1, 2, 3, 4, 5] (boot sim_start) = (True, m')"
    by (metis (full_types) prod.collapse)
  have "accepted 3 (boot sim_start) = []" "socket_fd sample_socket = 3" by code_simp+
  with socket_send_all_correct [OF sim_env_bounded(2) r] r show ?thesis by auto
qed

end
