(* ===== verification/Socket_Safety.thy ===== *)
theory Socket_Safety
  imports Byte_Transfer
begin

text \<open>
  Ownership and option handling of \<open>Socket\<close>: its methods only touch the descriptor it holds and
  nothing at all once it is closed or moved from, \<open>close\<close> and the destructor release it exactly
  once, and the option setters pass the kernel what the documentation says.
\<close>

section \<open>What a socket holds\<close>

definition socket_holds :: "socket \<Rightarrow> handle multiset" where
  "socket_holds s =
     (case socket_pimpl s of None \<Rightarrow> {#}
      | Some im \<Rightarrow> if 0 \<le>s sock_handle im then {#sock_handle im#} else {#})"

text \<open>An open socket of the library has a descriptor that the kernel can have returned.\<close>

definition socket_valid :: "socket \<Rightarrow> bool" where
  "socket_valid s \<longleftrightarrow> (socket_is_open s \<longrightarrow> 0 \<le>s socket_fd s)"

lemma invalid_negative [simp]: "\<not> 0 \<le>s INVALID_SOCKET_HANDLE"
  by (simp add: INVALID_SOCKET_HANDLE_def word_sle_eq)

lemma nonneg_not_invalid: "0 \<le>s h \<Longrightarrow> h \<noteq> INVALID_SOCKET_HANDLE"
  by auto

lemma socket_holds_open: "socket_valid s \<Longrightarrow> socket_is_open s \<Longrightarrow> socket_holds s = {#socket_fd s#}"
  by (auto simp: socket_holds_def socket_valid_def socket_is_open_def socket_fd_def split: option.splits)

lemma socket_holds_closed: "\<not> socket_is_open s \<Longrightarrow> socket_holds s = {#}"
  by (auto simp: socket_holds_def socket_is_open_def split: option.splits)

lemma socket_valid_Some:
  "0 \<le>s sock_handle im \<Longrightarrow> socket_valid (Socket (Some im)) \<and> socket_is_open (Socket (Some im))
     \<and> socket_holds (Socket (Some im)) = {#sock_handle im#}"
  by (auto simp: socket_valid_def socket_is_open_def socket_fd_def socket_holds_def)

section \<open>Methods stay on the descriptor\<close>

definition via :: "socket \<Rightarrow> 'w machine \<Rightarrow> 'w machine \<Rightarrow> bool" where
  "via s m m' \<longleftrightarrow> io_on (socket_fd s) m m' \<and> (socket_is_open s \<or> m' = m)"

lemma via_refl [intro, simp]: "via s m m"
  by (simp add: via_def)

lemma via_trans: "via s m m' \<Longrightarrow> via s m' m'' \<Longrightarrow> via s m m''"
  by (auto simp: via_def intro: io_trans)

lemma via_open: "socket_is_open s \<Longrightarrow> io_on (socket_fd s) m m' \<Longrightarrow> via s m m'"
  by (simp add: via_def)

lemma via_frame:
  assumes "via s m m'"
  shows "live_fds m' = live_fds m" "live_sessions m' = live_sessions m"
    "live_records m' = live_records m" "published m' = published m"
    "sessions_respected m' = sessions_respected m"
proof -
  have io: "io_on (socket_fd s) m m'" using assms by (simp add: via_def)
  show "live_fds m' = live_fds m" "live_sessions m' = live_sessions m"
    "live_records m' = live_records m" "published m' = published m"
    "sessions_respected m' = sessions_respected m"
    by (rule io_on_frame [OF io])+
qed

lemma via_respects:
  assumes "via s m m'" "socket_valid s" "socket_holds s \<subseteq># live_fds m"
  shows "fds_respected m' = fds_respected m"
proof (cases "socket_is_open s")
  case True
  with assms have "socket_fd s \<in># live_fds m" by (simp add: socket_holds_open single_subset_iff)
  moreover have "io_on (socket_fd s) m m'" using assms(1) by (simp add: via_def)
  ultimately show ?thesis by (rule io_on_respects [rotated])
next
  case False
  with assms show ?thesis by (simp add: via_def)
qed

named_theorems via_facts \<open>the methods of a socket stay on its descriptor\<close>

lemma via_send [via_facts]: "socket_send e s d m = (r, m') \<Longrightarrow> via s m m'"
  by (auto simp: socket_send_def sys_defs via_def split: if_splits prod.splits)

lemma via_recv [via_facts]: "socket_recv e s b m = (r, m') \<Longrightarrow> via s m m'"
  by (auto simp: socket_recv_def sys_defs via_def split: if_splits prod.splits)

lemma via_send_all_loop: "socket_send_all_loop e s d n m = (r, m') \<Longrightarrow> via s m m'"
proof (induction e s d n m rule: socket_send_all_loop.induct)
  case (1 e s d n m)
  obtain q m1 where q: "socket_send e s (drop n d) m = (q, m1)" by (metis prod.collapse)
  show ?case
  proof (cases "n < length d \<and> 0 < q")
    case True
    then have "via s m1 m'"
      using "1.prems" q "1.IH" [OF _ q [symmetric] refl]
      by (simp add: socket_send_all_loop.simps [of e s d n m])
    with via_send [OF q] show ?thesis by (rule via_trans)
  next
    case False
    with "1.prems" q via_send [OF q] show ?thesis
      by (auto simp: socket_send_all_loop.simps [of e s d n m] split: if_splits)
  qed
qed

lemma via_send_all [via_facts]: "socket_send_all e s d m = (r, m') \<Longrightarrow> via s m m'"
  unfolding socket_send_all_def by (rule via_send_all_loop)

lemma via_recv_all_loop: "socket_recv_all_loop e s b n m = (r, m') \<Longrightarrow> via s m m'"
proof (induction e s b n m rule: socket_recv_all_loop.induct)
  case (1 e s b n m)
  obtain q c m1 where q: "socket_recv e s (drop n b) m = ((q, c), m1)" by (metis prod.collapse)
  show ?case
  proof (cases "n < length b \<and> 0 < q")
    case True
    then have "via s m1 m'"
      using "1.prems" q "1.IH" [OF _ q [symmetric] refl refl]
      by (simp add: socket_recv_all_loop.simps [of e s b n m])
    with via_recv [OF q] show ?thesis by (rule via_trans)
  next
    case False
    with "1.prems" q via_recv [OF q] show ?thesis
      by (auto simp: socket_recv_all_loop.simps [of e s b n m] split: if_splits)
  qed
qed

lemma via_recv_all [via_facts]: "socket_recv_all e s b m = (r, m') \<Longrightarrow> via s m m'"
  unfolding socket_recv_all_def by (rule via_recv_all_loop)

lemma via_recv_some [via_facts]: "socket_recv_some e s n m = (r, m') \<Longrightarrow> via s m m'"
  by (auto simp: socket_recv_some_def Let_def dest: via_recv split: if_splits prod.splits)

lemma via_set_timeouts [via_facts]: "socket_set_timeouts e s t u m = (r, m') \<Longrightarrow> via s m m'"
  by (auto simp: socket_set_timeouts_def sys_defs via_def Let_def intro!: io_step
      split: if_splits prod.splits)

lemma via_set_buffer_sizes [via_facts]: "socket_set_buffer_sizes e s t u m = (r, m') \<Longrightarrow> via s m m'"
  by (auto simp: socket_set_buffer_sizes_def sys_defs via_def Let_def intro!: io_step
      split: if_splits prod.splits)

lemma via_set_blocking [via_facts]: "socket_set_blocking e s f m = (r, m') \<Longrightarrow> via s m m'"
  by (auto simp: socket_set_blocking_def sys_defs via_def Let_def intro!: io_step
      split: if_splits prod.splits)

section \<open>Closing\<close>

lemma socket_close_result:
  assumes "socket_close e s m = (s', m')"
  shows "\<not> socket_is_open s' \<and> socket_valid s' \<and> socket_holds s' = {#}"
  using assms
  by (auto simp: socket_close_def socket_is_open_def socket_valid_def socket_holds_def
      split: option.splits if_splits)

lemma socket_close_live:
  "socket_close e s m = (s', m') \<Longrightarrow> live_fds m' = live_fds m - socket_holds s"
  by (auto simp: socket_close_def close_socket_handle_def sys_defs socket_holds_def
      split: option.splits if_splits)

lemma socket_close_closed: "\<not> socket_is_open s \<Longrightarrow> socket_close e s m = (s, m)"
  by (auto simp: socket_close_def socket_is_open_def split: option.splits)

interpretation socket_closable: closable socket_close socket_is_open socket_holds live_fds socket_valid
proof
  fix e :: "'a env" and s s' :: socket and m m' :: "'a machine"
  show "socket_close e s m = (s', m') \<Longrightarrow> socket_valid s' \<and> \<not> socket_is_open s' \<and> socket_holds s' = {#}"
    using socket_close_result by blast
  show "socket_close e s m = (s', m') \<Longrightarrow> live_fds m' = live_fds m - socket_holds s"
    by (rule socket_close_live)
  show "\<not> socket_is_open s \<Longrightarrow> socket_close e s m = (s, m)"
    by (rule socket_close_closed)
qed

lemma socket_close_respects:
  "socket_close e s m = (s', m') \<Longrightarrow> socket_holds s \<subseteq># live_fds m \<Longrightarrow>
     fds_respected m' = fds_respected m"
  by (auto simp: socket_close_def close_socket_handle_def sys_defs socket_holds_def
      split: option.splits if_splits)

lemma via_same_sdp: "via s m m' \<Longrightarrow> same_sdp m m'"
  unfolding via_def by (blast intro: io_on_same_sdp)

lemma socket_close_same_sdp: "socket_close e s m = (s', m') \<Longrightarrow> same_sdp m m'"
  by (auto simp: socket_close_def close_socket_handle_def split: option.splits if_splits)

text \<open>The destructor does to the machine what \<open>close\<close> does.\<close>

lemma socket_destroy_close: "socket_destroy e s m = snd (socket_close e s m)"
  by (auto simp: socket_destroy_def socket_impl_destroy_def socket_close_def split: option.splits)

text \<open>Closed or moved-from sockets are inert.\<close>

lemma closed_socket_inert:
  assumes "\<not> socket_is_open s"
  shows "socket_send e s d m = (0, m)" "socket_recv e s b m = ((0, b), m)"
    "socket_recv_some e s n m = ([], m)" "socket_set_buffer_sizes e s i j m = (False, m)"
    "socket_set_timeouts e s i j m = (False, m)" "socket_set_blocking e s f m = (False, m)"
    "socket_close e s m = (s, m)" "socket_destroy e s m = m"
    "d \<noteq> [] \<Longrightarrow> socket_send_all e s d m = (False, m)"
    "b \<noteq> [] \<Longrightarrow> socket_recv_all e s b m = ((False, b), m)"
  using assms
  by (simp_all add: socket_send_def socket_recv_def socket_recv_some_def socket_set_buffer_sizes_def
      socket_set_timeouts_def socket_set_blocking_def socket_close_closed socket_destroy_close
      socket_send_all_def socket_recv_all_def socket_send_all_loop.simps [of e s d 0 m]
      socket_recv_all_loop.simps [of e s b 0 m] write_tail_def)

section \<open>Properties\<close>

text \<open>
  After \<open>close\<close> the socket is closed for good: the descriptor has been released once, a second
  \<open>close\<close> and the destructor make no call, and every transfer or option method makes no call and
  reports that nothing was done.
\<close>

theorem socket_close_final:
  assumes "socket_valid s" "socket_holds s \<subseteq># live_fds m" "fds_respected m"
    and "socket_close e s m = (s', m')"
  shows "live_fds m = live_fds m' + socket_holds s \<and> fds_respected m' \<and> \<not> socket_is_open s'
    \<and> socket_close e s' m' = (s', m') \<and> socket_destroy e s' m' = m'
    \<and> socket_send e s' d m' = (0, m') \<and> socket_recv e s' b m' = ((0, b), m')
    \<and> socket_set_timeouts e s' i j m' = (False, m') \<and> socket_set_blocking e s' f m' = (False, m')"
proof -
  have "live_fds m = live_fds m' + socket_holds s"
    using socket_closable.close_accounts [OF assms(1,2,4)] .
  moreover have "\<not> socket_is_open s'" using socket_close_result [OF assms(4)] by simp
  moreover have "fds_respected m'" using socket_close_respects [OF assms(4,2)] assms(3) by simp
  ultimately show ?thesis by (simp add: closed_socket_inert)
qed

theorem socket_close_final_witness:
  "socket_close sim_env (fst (socket_close sim_env sample_socket
       (emit (EvSocket 3) sim_start (boot sim_start))))
     (snd (socket_close sim_env sample_socket (emit (EvSocket 3) sim_start (boot sim_start)))) =
   socket_close sim_env sample_socket (emit (EvSocket 3) sim_start (boot sim_start))"
proof -
  let ?m = "emit (EvSocket 3) sim_start (boot sim_start)"
  obtain s' m' where c: "socket_close sim_env sample_socket ?m = (s', m')" by (metis prod.collapse)
  have "socket_valid sample_socket" "socket_holds sample_socket \<subseteq># live_fds ?m" "fds_respected ?m"
    by (simp_all add: sample_socket_def socket_valid_def socket_is_open_def socket_fd_def
        socket_holds_def word_sle_eq)
  from socket_close_final [OF this c] c show ?thesis by simp
qed

text \<open>
  Moving transfers ownership: after move assignment between distinct sockets the target holds
  what the source held, the source is closed, and what the target held before has been released.
\<close>

theorem socket_move_assign_transfers:
  assumes "socket_move_assign e dst src m = ((dst', src'), m')"
  shows "socket_pimpl dst' = socket_pimpl src \<and> socket_holds dst' = socket_holds src
    \<and> \<not> socket_is_open src' \<and> socket_holds src' = {#}
    \<and> live_fds m' = live_fds m - socket_holds dst"
proof -
  have "live_fds (socket_destroy e dst m) = live_fds m - socket_holds dst"
    unfolding socket_destroy_close by (rule socket_close_live [OF prod.collapse [symmetric]])
  with assms show ?thesis
    by (auto simp: socket_move_assign_def socket_holds_def socket_is_open_def)
qed

theorem socket_move_assign_transfers_witness:
  "live_fds (snd (socket_move_assign sim_env sample_socket socket_new
     (emit (EvSocket 3) sim_start (boot sim_start)))) = {#}"
proof -
  let ?m = "emit (EvSocket 3) sim_start (boot sim_start)"
  obtain d s m' where r: "socket_move_assign sim_env sample_socket socket_new ?m = ((d, s), m')"
    by (metis prod.collapse)
  have "live_fds ?m = {#3#}" "socket_holds sample_socket = {#3#}"
    by (simp_all add: sample_socket_def socket_holds_def word_sle_eq)
  with socket_move_assign_transfers [OF r] r show ?thesis by simp
qed

end
