(* ===== verification/Socket_Options.thy ===== *)
theory Socket_Options
  imports Socket_Safety
begin

text \<open>
  What the option methods of \<open>Socket\<close> and the construction from a native descriptor ask of the
  kernel: the status flag for blocking mode, the timeouts as \<open>struct timeval\<close>, the buffer sizes.
\<close>

section \<open>Blocking mode\<close>

lemma bit_O_NONBLOCK: "bit O_NONBLOCK n \<longleftrightarrow> n = 11"
proof -
  have "O_NONBLOCK = 2 ^ 11" by (simp add: O_NONBLOCK_def)
  show ?thesis unfolding \<open>O_NONBLOCK = 2 ^ 11\<close> by (subst bit_exp_iff) auto
qed

text \<open>
  On an open socket whose flags can be read, \<open>set_blocking\<close> writes the flags back with the
  non-blocking bit (bit 11) cleared or set as asked and every other bit as it was, and answers
  whether the kernel took them.
\<close>

theorem socket_set_blocking_correct:
  assumes "socket_is_open s" "k_getfl e (socket_fd s) (world m) = (f, w)" "0 \<le>s f"
    and "socket_set_blocking e s blocking m = (ok, m')"
  shows "\<exists>f' r. trace m' = trace m @ [EvGetfl (socket_fd s) f, EvSetfl (socket_fd s) f' r]
    \<and> ok = (r = 0) \<and> list_all (\<lambda>n. bit f' n = (if n = 11 then \<not> blocking else bit f n)) [0..<32]"
proof -
  let ?f = "if blocking then f AND NOT O_NONBLOCK else f OR O_NONBLOCK"
  obtain r w' where k: "k_setfl e (socket_fd s) ?f w = (r, w')" by (metis prod.collapse)
  have "\<not> f <s 0" using assms(3) by (simp add: word_sle_eq word_sless_alt)
  then have "trace m' = trace m @ [EvGetfl (socket_fd s) f, EvSetfl (socket_fd s) ?f r]" "ok = (r = 0)"
    using assms k by (auto simp: socket_set_blocking_def sys_defs Let_def)
  moreover have "list_all (\<lambda>n. bit ?f n = (if n = 11 then \<not> blocking else bit f n)) [0..<32]"
    by (auto simp: list_all_iff bit_simps bit_O_NONBLOCK)
  ultimately show ?thesis by blast
qed

theorem socket_set_blocking_correct_witness:
  "fst (socket_set_blocking sim_env sample_socket False (boot sim_start))"
proof -
  have f: "0 \<le>s (2 :: u32)" by (simp add: word_sle_eq)
  have o: "socket_is_open sample_socket" by code_simp
  have k: "k_getfl sim_env (socket_fd sample_socket) (world (boot sim_start)) = (2, sim_start)"
    by (simp add: sim_env_def boot_def sim_start_def)
  obtain ok m' where r: "socket_set_blocking sim_env sample_socket False (boot sim_start) = (ok, m')"
    by (metis prod.collapse)
  from socket_set_blocking_correct [OF o k f r]
  obtain f' q where t: "trace m' = trace (boot sim_start) @
      [EvGetfl (socket_fd sample_socket) 2, EvSetfl (socket_fd sample_socket) f' q]" "ok = (q = 0)"
    by auto
  have "trace (snd (socket_set_blocking sim_env sample_socket False (boot sim_start))) =
      [EvGetfl 3 2, EvSetfl 3 0x802 0]" by code_simp
  with t r show ?thesis by (simp add: boot_def)
qed

section \<open>Timeouts\<close>

lemma timeval_of_nonneg:
  assumes "0 \<le> ms" "timeval_of_ms ms = OptTimeval sec usec"
  shows "1000000 * sec + usec = 1000 * ms \<and> 0 \<le> sec \<and> 0 \<le> usec \<and> usec < 1000000"
proof -
  have "sec = ms div 1000" "usec = (ms mod 1000) * 1000"
    using assms by (auto simp: timeval_of_ms_def signed_divide_int_def signed_modulo_int_def
        sgn_if algebra_simps minus_div_mult_eq_mod)
  moreover have "ms = 1000 * (ms div 1000) + ms mod 1000" by simp
  moreover have "0 \<le> ms mod 1000" "ms mod 1000 < 1000" by simp_all
  moreover have "0 \<le> ms div 1000" using assms(1) by (simp add: pos_imp_zdiv_nonneg_iff)
  ultimately show ?thesis by linarith
qed

text \<open>
  For timeouts that are not negative, \<open>set_timeouts\<close> on an open socket makes the two
  \<open>setsockopt\<close> calls with valid \<open>timeval\<close> values of exactly the requested durations, the send
  timeout first, and answers whether both succeeded.
\<close>

theorem socket_set_timeouts_correct:
  assumes "socket_is_open s" "0 \<le> st" "0 \<le> rt" "socket_set_timeouts e s st rt m = (ok, m')"
  shows "\<exists>s1 u1 s2 u2 r1 r2.
      trace m' = trace m @ [EvSetsockopt (socket_fd s) SO_SNDTIMEO (OptTimeval s1 u1) r1,
                            EvSetsockopt (socket_fd s) SO_RCVTIMEO (OptTimeval s2 u2) r2]
    \<and> ok = (r1 = 0 \<and> r2 = 0)
    \<and> 1000000 * s1 + u1 = 1000 * st \<and> 0 \<le> u1 \<and> u1 < 1000000
    \<and> 1000000 * s2 + u2 = 1000 * rt \<and> 0 \<le> u2 \<and> u2 < 1000000"
proof -
  obtain s1 u1 where t1: "timeval_of_ms st = OptTimeval s1 u1" by (simp add: timeval_of_ms_def)
  obtain s2 u2 where t2: "timeval_of_ms rt = OptTimeval s2 u2" by (simp add: timeval_of_ms_def)
  obtain r1 w1 where k1: "k_setsockopt e (socket_fd s) SO_SNDTIMEO (OptTimeval s1 u1) (world m) = (r1, w1)"
    by (metis prod.collapse)
  obtain r2 w2 where k2: "k_setsockopt e (socket_fd s) SO_RCVTIMEO (OptTimeval s2 u2) w1 = (r2, w2)"
    by (metis prod.collapse)
  have "trace m' = trace m @ [EvSetsockopt (socket_fd s) SO_SNDTIMEO (OptTimeval s1 u1) r1,
      EvSetsockopt (socket_fd s) SO_RCVTIMEO (OptTimeval s2 u2) r2]" "ok = (r1 = 0 \<and> r2 = 0)"
    using assms(1,4) t1 t2 k1 k2 by (auto simp: socket_set_timeouts_def sys_defs Let_def)
  then show ?thesis
    using timeval_of_nonneg [OF assms(2) t1] timeval_of_nonneg [OF assms(3) t2] by blast
qed

theorem socket_set_timeouts_correct_witness:
  "timeval_of_ms 1500 = OptTimeval 1 500000
   \<and> fst (socket_set_timeouts sim_env sample_socket 1500 3000 (boot sim_start))"
proof -
  have o: "socket_is_open sample_socket" by code_simp
  obtain ok m' where r: "socket_set_timeouts sim_env sample_socket 1500 3000 (boot sim_start) = (ok, m')"
    by (metis prod.collapse)
  from socket_set_timeouts_correct [OF o _ _ r]
  obtain s1 u1 s2 u2 r1 r2 where "trace m' = trace (boot sim_start) @
      [EvSetsockopt (socket_fd sample_socket) SO_SNDTIMEO (OptTimeval s1 u1) r1,
       EvSetsockopt (socket_fd sample_socket) SO_RCVTIMEO (OptTimeval s2 u2) r2]"
    "ok = (r1 = 0 \<and> r2 = 0)" by auto
  moreover have "trace (snd (socket_set_timeouts sim_env sample_socket 1500 3000 (boot sim_start))) =
      [EvSetsockopt 3 SO_SNDTIMEO (OptTimeval 1 500000) 0, EvSetsockopt 3 SO_RCVTIMEO (OptTimeval 3 0) 0]"
    by code_simp
  moreover have "timeval_of_ms 1500 = OptTimeval 1 500000" by code_simp
  ultimately show ?thesis using r by (simp add: boot_def)
qed

section \<open>From a native descriptor\<close>

lemma socket_from_native_effect:
  assumes "0 \<le>s h" "socket_from_native e (handle_to_uintptr h) a c m = (s, m')"
  shows "socket_valid s \<and> socket_is_open s \<and> socket_holds s = {#h#} \<and> socket_fd s = h
    \<and> socket_native_handle s = handle_to_uintptr h
    \<and> socket_peer_address s = a \<and> socket_peer_channel s = c
    \<and> io_on h m m'
    \<and> (\<exists>r1 r2 r3. trace m' = trace m @
         [EvSetsockopt h SO_SNDBUF (OptInt 524288) r1, EvSetsockopt h SO_RCVBUF (OptInt 524288) r2,
          EvGetsockname h r3] \<and> (r3 = 0 \<or> socket_local_channel s = 0))"
proof -
  let ?im = "socket_impl_default\<lparr>sock_handle := h, peer_addr := a, peer_ch := c\<rparr>"
  have o: "socket_is_open (Socket (Some ?im))" "socket_fd (Socket (Some ?im)) = h"
    using assms(1) by (auto simp: socket_is_open_def socket_fd_def)
  obtain r1 w1 where k1: "k_setsockopt e h SO_SNDBUF (OptInt 524288) (world m) = (r1, w1)"
    by (metis prod.collapse)
  obtain r2 w2 where k2: "k_setsockopt e h SO_RCVBUF (OptInt 524288) w1 = (r2, w2)"
    by (metis prod.collapse)
  obtain r3 sa w3 where k3: "k_getsockname e h w2 = ((r3, sa), w3)" by (metis prod.collapse)
  let ?m = "emit (EvGetsockname h r3) w3 (emit (EvSetsockopt h SO_RCVBUF (OptInt 524288) r2) w2
    (emit (EvSetsockopt h SO_SNDBUF (OptInt 524288) r1) w1 m))"
  have "s = Socket (Some (if r3 = 0 then ?im\<lparr>local_ch := rc_channel sa\<rparr> else ?im))" "m' = ?m"
    using assms(2) o k1 k2 k3
    by (auto simp: socket_from_native_def socket_set_buffer_sizes_def DEFAULT_BUFFER_SIZE_def
        sys_defs Let_def)
  moreover have "io_on h m ?m" by (intro io_step io_refl io_events)
  ultimately show ?thesis
    using assms(1) by (auto simp: socket_valid_def socket_is_open_def socket_fd_def socket_holds_def
        socket_native_handle_def socket_peer_address_def socket_peer_channel_def
        socket_local_channel_def socket_impl_default_def)
qed

text \<open>
  A socket made from the \<open>uintptr_t\<close> image of a descriptor returned by the kernel holds that
  descriptor and gives the same image back, records the peer it was told, takes its local channel
  from \<open>getsockname\<close> (0 when that fails), and first asks for the 512 KiB send and receive buffers.
\<close>

theorem socket_from_native_correct:
  assumes "0 \<le>s h" "socket_from_native e (handle_to_uintptr h) a c m = (s, m')"
  shows "socket_valid s \<and> socket_is_open s \<and> socket_holds s = {#h#} \<and> socket_fd s = h
    \<and> socket_native_handle s = handle_to_uintptr h
    \<and> socket_peer_address s = a \<and> socket_peer_channel s = c
    \<and> io_on h m m'
    \<and> (\<exists>r1 r2 r3. trace m' = trace m @
         [EvSetsockopt h SO_SNDBUF (OptInt 524288) r1, EvSetsockopt h SO_RCVBUF (OptInt 524288) r2,
          EvGetsockname h r3] \<and> (r3 = 0 \<or> socket_local_channel s = 0))"
  by (rule socket_from_native_effect [OF assms])

theorem socket_from_native_correct_witness:
  "socket_fd (fst (socket_from_native sim_env (handle_to_uintptr 5) address_any 7 (boot sim_start))) = 5"
proof -
  have "0 \<le>s (5 :: handle)" by (simp add: word_sle_eq)
  from socket_from_native_correct [OF this prod.collapse [symmetric]] show ?thesis by blast
qed

end
