(* ===== verification/Server_Model.thy ===== *)
theory Server_Model
  imports Sdp_Resolve Socket_Options
begin

text \<open>
  \<open>class Server\<close> of \<open>src/server.cpp\<close>, Linux branches: a listening descriptor, the channel it is
  bound to and, for a published service, the guard of its SDP record. A server that has been moved
  from has a null \<open>pimpl_\<close>; \<open>listen\<close> dereferences it without a check.
\<close>

section \<open>State\<close>

record server_impl =
  listen_fd :: handle
  srv_channel :: u8
  sdp_reg :: "registration option"

datatype server = Server (server_pimpl: "server_impl option")

definition server_new :: server where
  "server_new =
     Server (Some \<lparr>listen_fd = INVALID_SOCKET_HANDLE, srv_channel = 0, sdp_reg = None\<rparr>)"

definition server_impl_close :: "'w env \<Rightarrow> server_impl \<Rightarrow> 'w machine \<Rightarrow> server_impl \<times> 'w machine" where
  "server_impl_close e im m =
     (let (im, m) =
            (case sdp_reg im of
               Some g \<Rightarrow>
                 let (g, m) = registration_unregister e g m
                 in (im\<lparr>sdp_reg := None\<rparr>, registration_destroy e g m)
             | None \<Rightarrow> (im, m));
          (im, m) =
            (if listen_fd im \<noteq> INVALID_SOCKET_HANDLE then
               (im\<lparr>listen_fd := INVALID_SOCKET_HANDLE\<rparr>, close_socket_handle e (listen_fd im) m)
             else (im, m))
      in (im\<lparr>srv_channel := 0\<rparr>, m))"

definition server_destroy :: "'w env \<Rightarrow> server \<Rightarrow> 'w machine \<Rightarrow> 'w machine" where
  "server_destroy e s m =
     (case server_pimpl s of None \<Rightarrow> m | Some im \<Rightarrow> snd (server_impl_close e im m))"

definition server_move :: "server \<Rightarrow> server \<times> server" where
  "server_move other = (Server (server_pimpl other), Server None)"

definition server_move_assign ::
  "'w env \<Rightarrow> server \<Rightarrow> server \<Rightarrow> 'w machine \<Rightarrow> (server \<times> server) \<times> 'w machine" where
  "server_move_assign e dst other m =
     ((Server (server_pimpl other), Server None), server_destroy e dst m)"

definition server_close :: "'w env \<Rightarrow> server \<Rightarrow> 'w machine \<Rightarrow> server \<times> 'w machine" where
  "server_close e s m =
     (case server_pimpl s of
        None \<Rightarrow> (s, m)
      | Some im \<Rightarrow> let (im, m) = server_impl_close e im m in (Server (Some im), m))"

definition server_is_listening :: "server \<Rightarrow> bool" where
  "server_is_listening s =
     (case server_pimpl s of None \<Rightarrow> False | Some im \<Rightarrow> listen_fd im \<noteq> INVALID_SOCKET_HANDLE)"

definition server_channel :: "server \<Rightarrow> u8" where
  "server_channel s = (case server_pimpl s of None \<Rightarrow> 0 | Some im \<Rightarrow> srv_channel im)"

section \<open>Listening\<close>

text \<open>The local address of the bind: any adapter, one channel.\<close>

definition any_local :: "u8 \<Rightarrow> sockaddr_rc" where
  "any_local ch = sockaddr_zero\<lparr>rc_family := AF_BLUETOOTH, rc_bdaddr := bdaddr_zero, rc_channel := ch\<rparr>"

lemma unat_next_channel: "(ch :: u8) \<le> 30 \<Longrightarrow> unat (ch + 1) = Suc (unat ch)"
  by (simp add: unat_add_lem [THEN iffD1] word_le_nat_alt)

text \<open>The scan for a free channel, from \<open>ch\<close> on; 0 when no bind succeeds.\<close>

function server_bind_scan :: "'w env \<Rightarrow> handle \<Rightarrow> u8 \<Rightarrow> 'w machine \<Rightarrow> u8 \<times> 'w machine" where
  "server_bind_scan e s ch m =
     (if ch \<le> 30 then
        let (r, m) = sys_bind e s (any_local ch) m
        in if r = 0 then (ch, m) else server_bind_scan e s (ch + 1) m
      else (0, m))"
  by pat_completeness auto

termination
  by (relation "measure (\<lambda>(e, s, ch, m). 31 - unat ch)") (auto simp: unat_next_channel word_le_nat_alt)

declare server_bind_scan.simps [simp del]

text \<open>Binding as asked, or to the first channel from 1 to 30 that is free.\<close>

definition server_bind :: "'w env \<Rightarrow> handle \<Rightarrow> u8 \<Rightarrow> 'w machine \<Rightarrow> u8 \<times> 'w machine" where
  "server_bind e s channel m =
     (if channel \<noteq> 0 then
        let (r, m) = sys_bind e s (any_local channel) m
        in (if r = 0 then channel else 0, m)
      else server_bind_scan e s 1 m)"

definition server_listen ::
  "'w env \<Rightarrow> server \<Rightarrow> u8 \<Rightarrow> int \<Rightarrow> 'w machine \<Rightarrow> ((ub + bool) \<times> server) \<times> 'w machine" where
  "server_listen e srv channel backlog m =
     (case server_pimpl srv of
        None \<Rightarrow> ((Inl NullDereference, srv), m)
      | Some im \<Rightarrow>
          let (im, m) = server_impl_close e im m;
              (s, m) = sys_socket e m
          in if s <s 0 then ((Inr False, Server (Some im)), m)
             else
               let (_, m) = sys_setsockopt e s SO_SNDBUF (OptInt DEFAULT_BUFFER_SIZE) m;
                   (_, m) = sys_setsockopt e s SO_RCVBUF (OptInt DEFAULT_BUFFER_SIZE) m;
                   (bound_channel, m) = server_bind e s channel m
               in if bound_channel = 0 then
                    ((Inr False, Server (Some im)), close_socket_handle e s m)
                  else
                    let (r, m) = sys_listen e s backlog m
                    in if r \<noteq> 0 then ((Inr False, Server (Some im)), close_socket_handle e s m)
                       else ((Inr True,
                              Server (Some (im\<lparr>listen_fd := s, srv_channel := bound_channel\<rparr>))), m))"

text \<open>The provider name is the default argument of \<open>Registration::create\<close>.\<close>

definition default_provider :: string where
  "default_provider = ''SimpleRFCOMM''"

definition server_listen_with_sdp ::
  "'w env \<Rightarrow> server \<Rightarrow> uuid \<Rightarrow> string \<Rightarrow> u8 \<Rightarrow> int \<Rightarrow> 'w machine \<Rightarrow>
     ((ub + bool) \<times> server) \<times> 'w machine" where
  "server_listen_with_sdp e srv u service_name channel backlog m =
     (case server_listen e srv channel backlog m of
        ((Inl b, srv), m) \<Rightarrow> ((Inl b, srv), m)
      | ((Inr False, srv), m) \<Rightarrow> ((Inr False, srv), m)
      | ((Inr True, srv), m) \<Rightarrow>
          (case server_pimpl srv of
             None \<Rightarrow> ((Inl NullDereference, srv), m)
           | Some im \<Rightarrow>
               let (g, m) = registration_create e (srv_channel im) u service_name default_provider m;
                   m = (case sdp_reg im of None \<Rightarrow> m | Some old \<Rightarrow> registration_destroy e old m);
                   im = im\<lparr>sdp_reg := g\<rparr>
               in if g = None then
                    let (im, m) = server_impl_close e im m in ((Inr False, Server (Some im)), m)
                  else ((Inr True, Server (Some im)), m)))"

section \<open>Accepting\<close>

definition server_accept :: "'w env \<Rightarrow> server \<Rightarrow> 'w machine \<Rightarrow> socket option \<times> 'w machine" where
  "server_accept e srv m =
     (case server_pimpl srv of
        None \<Rightarrow> (None, m)
      | Some im \<Rightarrow>
          if \<not> server_is_listening srv then (None, m)
          else
            let ((client_s, rem), m) = sys_accept e (listen_fd im) m
            in if client_s <s 0 then (None, m)
               else
                 let (sock, m) = socket_from_native e (handle_to_uintptr client_s)
                       (bdaddr_to_address (rc_bdaddr rem)) (rc_channel rem) m
                 in (Some sock, m))"

end
