(* ===== verification/Server_Facts.thy ===== *)
theory Server_Facts
  imports Server_Model
begin

text \<open>
  Properties of \<open>Server\<close>: a server holds a descriptor, an SDP session and a published record, and
  every path through its methods, the failing ones included, accounts for all three.
\<close>

section \<open>What a server holds\<close>

definition server_fds :: "server \<Rightarrow> handle multiset" where
  "server_fds s =
     (case server_pimpl s of None \<Rightarrow> {#}
      | Some im \<Rightarrow> if 0 \<le>s listen_fd im then {#listen_fd im#} else {#})"

definition server_reg :: "server \<Rightarrow> registration" where
  "server_reg s =
     (case server_pimpl s of None \<Rightarrow> Registration None
      | Some im \<Rightarrow> (case sdp_reg im of None \<Rightarrow> Registration None | Some g \<Rightarrow> g))"

text \<open>
  The invariant: a listening server has a descriptor of the kernel and a channel, one that is not
  listening has no channel and no registration, and a registration is a published one.
\<close>

definition server_valid :: "server \<Rightarrow> bool" where
  "server_valid s =
     (case server_pimpl s of None \<Rightarrow> True
      | Some im \<Rightarrow>
          (listen_fd im \<noteq> INVALID_SOCKET_HANDLE \<longrightarrow> 0 \<le>s listen_fd im) \<and>
          (listen_fd im = INVALID_SOCKET_HANDLE \<longleftrightarrow> srv_channel im = 0) \<and>
          (case sdp_reg im of None \<Rightarrow> True
           | Some g \<Rightarrow> listen_fd im \<noteq> INVALID_SOCKET_HANDLE \<and> registration_valid g \<and>
               registration_is_registered g))"

lemmas server_defs = server_fds_def server_reg_def server_valid_def server_is_listening_def
  server_close_def server_impl_close_def server_channel_def

lemma null_registration [simp]:
  "registration_valid (Registration None)" "\<not> registration_is_registered (Registration None)"
  "registration_sessions (Registration None) = {#}" "registration_records (Registration None) = {#}"
  "registration_unregister e (Registration None) m = (Registration None, m)"
  by (simp_all add: registration_defs)

lemma server_valid_reg: "server_valid s \<Longrightarrow> registration_valid (server_reg s)"
  by (auto simp: server_defs split: option.splits)

lemma server_new_valid [simp]:
  "server_valid server_new" "\<not> server_is_listening server_new" "server_fds server_new = {#}"
  "server_reg server_new = Registration None"
  by (simp_all add: server_new_def server_defs)

section \<open>Closing\<close>

definition server_fd :: "server \<Rightarrow> handle" where
  "server_fd s = (case server_pimpl s of None \<Rightarrow> INVALID_SOCKET_HANDLE | Some im \<Rightarrow> listen_fd im)"

text \<open>\<open>close\<close> withdraws the registration and then closes the descriptor.\<close>

lemma server_close_steps:
  assumes "server_valid s"
  shows "\<exists>s'. server_close e s m = (s', snd (let (g, m) = registration_unregister e (server_reg s) m
      in (g, if server_is_listening s then sys_close e (server_fd s) m else m)))
    \<and> server_valid s' \<and> \<not> server_is_listening s' \<and> server_fds s' = {#} \<and> server_reg s' = Registration None
    \<and> server_channel s' = 0 \<and> (server_pimpl s' = None \<longleftrightarrow> server_pimpl s = None)"
proof (cases "server_pimpl s")
  case None
  then show ?thesis by (simp add: server_defs)
next
  case (Some im)
  show ?thesis
  proof (cases "sdp_reg im")
    case None
    with Some assms show ?thesis
      by (auto simp: server_defs server_fd_def close_socket_handle_def Let_def split: if_splits)
  next
    case reg: (Some g)
    obtain g' m1 where u: "registration_unregister e g m = (g', m1)" by (metis prod.collapse)
    have v: "registration_valid g" using assms Some reg by (simp add: server_defs)
    have "registration_destroy e g' m1 = m1"
      using registration_session.close_again [OF v u] by (simp add: registration_destroy_unregister)
    with Some reg u assms show ?thesis
      by (auto simp: server_defs server_fd_def close_socket_handle_def Let_def split: if_splits)
  qed
qed

lemma server_fds_listening:
  "server_valid s \<Longrightarrow> server_fds s = (if server_is_listening s then {#server_fd s#} else {#})"
  by (auto simp: server_defs server_fd_def split: option.splits)

lemma server_close_result:
  assumes "server_valid s" "server_close e s m = (s', m')"
  shows "server_valid s'" "\<not> server_is_listening s'" "server_fds s' = {#}"
    "server_reg s' = Registration None" "server_channel s' = 0"
    "server_pimpl s' = None \<longleftrightarrow> server_pimpl s = None"
  using server_close_steps [OF assms(1), of e m] assms(2) by auto

lemma server_close_ledger:
  assumes "server_valid s" "server_close e s m = (s', m')"
  shows "live_fds m' = live_fds m - server_fds s"
    "live_sessions m' = live_sessions m - registration_sessions (server_reg s)"
    "published m' = published m - registration_records (server_reg s)"
    "server_fds s \<subseteq># live_fds m \<Longrightarrow> fds_respected m' = fds_respected m"
    "registration_sessions (server_reg s) \<subseteq># live_sessions m \<Longrightarrow>
       sessions_respected m' = sessions_respected m"
proof -
  obtain g m1 where u: "registration_unregister e (server_reg s) m = (g, m1)" by (metis prod.collapse)
  then have m': "m' = (if server_is_listening s then sys_close e (server_fd s) m1 else m1)"
    using server_close_steps [OF assms(1), of e m] assms(2) by auto
  note led = registration_unregister_ledger [OF server_valid_reg [OF assms(1)] u]
  show "live_fds m' = live_fds m - server_fds s"
    "live_sessions m' = live_sessions m - registration_sessions (server_reg s)"
    "published m' = published m - registration_records (server_reg s)"
    "server_fds s \<subseteq># live_fds m \<Longrightarrow> fds_respected m' = fds_respected m"
    "registration_sessions (server_reg s) \<subseteq># live_sessions m \<Longrightarrow>
       sessions_respected m' = sessions_respected m"
    using led by (auto simp: m' server_fds_listening [OF assms(1)] sys_close_def split: if_splits)
qed

lemma server_close_idle: "server_valid s \<Longrightarrow> \<not> server_is_listening s \<Longrightarrow> server_close e s m = (s, m)"
  by (cases s) (auto simp: server_defs Let_def split: option.splits)

interpretation server_fd_closable: closable server_close server_is_listening server_fds live_fds server_valid
  using server_close_result server_close_ledger(1) server_close_idle
  by unfold_locales blast+

interpretation server_session_closable: closable server_close server_is_listening
  "\<lambda>s. registration_sessions (server_reg s)" live_sessions server_valid
proof
  fix e :: "'a env" and s s' :: server and m m' :: "'a machine"
  assume v: "server_valid s"
  show "\<not> server_is_listening s \<Longrightarrow> server_close e s m = (s, m)" using v by (rule server_close_idle)
  assume c: "server_close e s m = (s', m')"
  show "server_valid s' \<and> \<not> server_is_listening s' \<and> registration_sessions (server_reg s') = {#}"
    using server_close_result [OF v c] by simp
  show "live_sessions m' = live_sessions m - registration_sessions (server_reg s)"
    by (rule server_close_ledger(2) [OF v c])
qed

interpretation server_record_closable: closable server_close server_is_listening
  "\<lambda>s. registration_records (server_reg s)" published server_valid
proof
  fix e :: "'a env" and s s' :: server and m m' :: "'a machine"
  assume v: "server_valid s"
  show "\<not> server_is_listening s \<Longrightarrow> server_close e s m = (s, m)" using v by (rule server_close_idle)
  assume c: "server_close e s m = (s', m')"
  show "server_valid s' \<and> \<not> server_is_listening s' \<and> registration_records (server_reg s') = {#}"
    using server_close_result [OF v c] by simp
  show "published m' = published m - registration_records (server_reg s)"
    by (rule server_close_ledger(3) [OF v c])
qed

lemma server_destroy_close: "server_destroy e s m = snd (server_close e s m)"
  by (auto simp: server_destroy_def server_close_def split: option.splits prod.splits)

section \<open>The channel scan\<close>

text \<open>Binds of consecutive channels with their results.\<close>

fun bind_attempts :: "handle \<Rightarrow> nat \<Rightarrow> int list \<Rightarrow> event list" where
  "bind_attempts h i [] = []"
| "bind_attempts h i (r # rs) = EvBind h (any_local (word_of_nat i)) r # bind_attempts h (Suc i) rs"

lemma bind_scan_steps:
  assumes "0 < ch" "unat ch \<le> 31" "server_bind_scan e h ch m = (c, m')"
  shows "io_on h m m' \<and> c \<le> 30 \<and>
    (\<exists>fails. list_all (\<lambda>r. r \<noteq> 0) fails
      \<and> trace m' = trace m @ bind_attempts h (unat ch) (fails @ (if c = 0 then [] else [0]))
      \<and> unat ch + length fails = (if c = 0 then 31 else unat c))"
  using assms
proof (induction e h ch m rule: server_bind_scan.induct)
  case (1 e h ch m)
  show ?case
  proof (cases "ch \<le> 30")
    case False
    then have "unat ch = 31" using "1.prems"(2) by (simp add: word_le_nat_alt)
    with False "1.prems"(3) show ?thesis
      by (auto simp: server_bind_scan.simps [of e h ch m] intro!: exI [of _ "[]"])
  next
    case True
    obtain r w where b: "sys_bind e h (any_local ch) m = (r, emit (EvBind h (any_local ch) r) w m)"
      using sys_bind_shape [of e h "any_local ch" m] by blast
    let ?m = "emit (EvBind h (any_local ch) r) w m"
    show ?thesis
    proof (cases "r = 0")
      case r: True
      then have "c = ch \<and> m' = ?m"
        using "1.prems"(3) True b by (auto simp: server_bind_scan.simps [of e h ch m])
      with "1.prems"(1) True r show ?thesis by (auto intro!: exI [of _ "[]"])
    next
      case r: False
      have next_ch: "unat (ch + 1) = Suc (unat ch)" using True by (rule unat_next_channel)
      then have "0 < ch + 1" "unat (ch + 1) \<le> 31" using True by (simp_all add: word_less_nat_alt word_le_nat_alt)
      moreover have "server_bind_scan e h (ch + 1) ?m = (c, m')"
        using "1.prems"(3) True b r by (simp add: server_bind_scan.simps [of e h ch m])
      ultimately obtain fails where io: "io_on h ?m m'" "c \<le> 30"
        and f: "list_all (\<lambda>r. r \<noteq> 0) fails"
          "trace m' = trace ?m @ bind_attempts h (unat (ch + 1)) (fails @ (if c = 0 then [] else [0]))"
          "unat (ch + 1) + length fails = (if c = 0 then 31 else unat c)"
        using "1.IH" [OF True b [symmetric] refl r] by blast
      have "io_on h m m'" using io(1) by (rule io_trans) simp
      moreover have "trace m' = trace m @ bind_attempts h (unat ch) ((r # fails) @ (if c = 0 then [] else [0]))"
        using f(2) next_ch by simp
      ultimately show ?thesis
        using io(2) f(1,3) next_ch r by (intro conjI exI [of _ "r # fails"]) simp_all
    qed
  qed
qed

lemma bind_attempts_snoc:
  "bind_attempts h i (rs @ [r]) = bind_attempts h i rs @ [EvBind h (any_local (word_of_nat (i + length rs))) r]"
  by (induction rs arbitrary: i) (simp_all add: ac_simps)

lemma server_bind_last:
  assumes "server_bind e h ch m = (c, m')" "c \<noteq> 0"
  shows "\<exists>pre. trace m' = pre @ [EvBind h (any_local c) 0]"
proof (cases "ch = 0")
  case True
  then have "server_bind_scan e h 1 m = (c, m')" using assms(1) by (simp add: server_bind_def)
  with bind_scan_steps [of 1 e h m c m'] assms(2) obtain fails where
    f: "trace m' = trace m @ bind_attempts h 1 (fails @ [0])" "1 + length fails = unat c" by auto
  have "(word_of_nat (1 + length fails) :: u8) = c" unfolding f(2) by simp
  with f(1) show ?thesis by (simp add: bind_attempts_snoc)
next
  case False
  obtain r w where b: "sys_bind e h (any_local ch) m = (r, emit (EvBind h (any_local ch) r) w m)"
    using sys_bind_shape [of e h "any_local ch" m] by blast
  with False assms show ?thesis by (auto simp: server_bind_def split: if_splits)
qed

lemma server_bind_effect:
  assumes "server_bind e h ch m = (c, m')"
  shows "io_on h m m'" "ch \<noteq> 0 \<Longrightarrow> c \<noteq> 0 \<Longrightarrow> c = ch" "ch = 0 \<Longrightarrow> c \<le> 30"
proof -
  obtain r w where b: "sys_bind e h (any_local ch) m = (r, emit (EvBind h (any_local ch) r) w m)"
    using sys_bind_shape [of e h "any_local ch" m] by blast
  note scan = bind_scan_steps [of 1 e h m c m', simplified]
  show "io_on h m m'"
    using assms b scan by (cases "ch = 0") (auto simp: server_bind_def)
  show "ch \<noteq> 0 \<Longrightarrow> c \<noteq> 0 \<Longrightarrow> c = ch" using assms b by (auto simp: server_bind_def split: if_splits)
  show "ch = 0 \<Longrightarrow> c \<le> 30" using assms scan by (simp add: server_bind_def)
qed

section \<open>Listening\<close>

text \<open>The calls of \<open>listen\<close> after the server has been closed, path by path.\<close>

lemma server_listen_paths:
  assumes "server_close e srv m = (Server (Some im), m0)" "server_pimpl srv \<noteq> None"
  obtains (no_socket) h w where "h <s 0"
      "server_listen e srv ch n m = ((Inr False, Server (Some im)), emit (EvSocket h) w m0)"
  | (no_channel) h w m2 m3 r1 r2 where "0 \<le>s h" "io_on h (emit (EvSocket h) w m0) m2"
      "trace m2 = trace m0 @ [EvSocket h, EvSetsockopt h SO_SNDBUF (OptInt 524288) r1,
         EvSetsockopt h SO_RCVBUF (OptInt 524288) r2]"
      "server_bind e h ch m2 = (0, m3)"
      "server_listen e srv ch n m = ((Inr False, Server (Some im)), sys_close e h m3)"
  | (listens) h w m2 c m3 r1 r2 r w' where "0 \<le>s h" "io_on h (emit (EvSocket h) w m0) m2"
      "trace m2 = trace m0 @ [EvSocket h, EvSetsockopt h SO_SNDBUF (OptInt 524288) r1,
         EvSetsockopt h SO_RCVBUF (OptInt 524288) r2]"
      "server_bind e h ch m2 = (c, m3)" "c \<noteq> 0"
      "server_listen e srv ch n m =
         (if r \<noteq> 0 then ((Inr False, Server (Some im)), sys_close e h (emit (EvListen h n r) w' m3))
          else ((Inr True, Server (Some (im\<lparr>listen_fd := h, srv_channel := c\<rparr>))), emit (EvListen h n r) w' m3))"
proof -
  obtain im' where im': "server_pimpl srv = Some im'" "server_impl_close e im' m = (im, m0)"
    using assms by (auto simp: server_close_def split: prod.splits)
  obtain h w where s: "sys_socket e m0 = (h, emit (EvSocket h) w m0)"
    using sys_socket_shape [of e m0] by blast
  let ?m1 = "emit (EvSocket h) w m0"
  obtain r1 w1 where o1: "sys_setsockopt e h SO_SNDBUF (OptInt 524288) ?m1 =
      (r1, emit (EvSetsockopt h SO_SNDBUF (OptInt 524288) r1) w1 ?m1)" (is "_ = (_, ?m1')")
    using sys_setsockopt_shape [of e h SO_SNDBUF "OptInt 524288" ?m1] by blast
  obtain r2 w2 where o2: "sys_setsockopt e h SO_RCVBUF (OptInt 524288) ?m1' =
      (r2, emit (EvSetsockopt h SO_RCVBUF (OptInt 524288) r2) w2 ?m1')" (is "_ = (_, ?m2)")
    using sys_setsockopt_shape [of e h SO_RCVBUF "OptInt 524288" ?m1'] by blast
  have m2: "io_on h ?m1 ?m2" by (intro io_step io_refl io_events)
  obtain c m3 where b: "server_bind e h ch ?m2 = (c, m3)" by (metis prod.collapse)
  obtain r w' where l: "sys_listen e h n m3 = (r, emit (EvListen h n r) w' m3)"
    using sys_listen_shape [of e h n m3] by blast
  note eval = server_listen_def im' s o1 o2 b l DEFAULT_BUFFER_SIZE_def close_socket_handle_def Let_def
  show ?thesis
  proof (cases "h <s 0")
    case True
    with no_socket show ?thesis by (auto simp: eval)
  next
    case False
    then have h: "0 \<le>s h" by (simp add: word_sle_eq word_sless_alt)
    show ?thesis
    proof (cases "c = 0")
      case True
      show ?thesis by (rule no_channel [OF h m2]) (use False h True in \<open>simp_all add: eval\<close>)
    next
      case c: False
      show ?thesis 
        by (rule listens [where r = r and w' = w' and ?r1.0 = r1 and ?r2.0 = r2, OF h m2 _ b c])
          (use False h c in \<open>auto simp: eval\<close>)
    qed
  qed
qed

lemma sys_close_frame [frame_facts]:
  "live_fds (sys_close e h m) = live_fds m - {#h#}" "live_sessions (sys_close e h m) = live_sessions m"
  "live_records (sys_close e h m) = live_records m" "published (sys_close e h m) = published m"
  "sessions_respected (sys_close e h m) = sessions_respected m"
  "fds_respected (sys_close e h m) \<longleftrightarrow> fds_respected m \<and> h \<in># live_fds m"
  by (simp_all add: sys_close_def)

text \<open>The calls by which a server has come to listen: its descriptor was bound to its channel, then put to listen.\<close>

definition listened_on :: "server \<Rightarrow> int \<Rightarrow> event list \<Rightarrow> bool" where
  "listened_on s n tr \<longleftrightarrow>
     (\<exists>pre. tr = pre @ [EvBind (server_fd s) (any_local (server_channel s)) 0, EvListen (server_fd s) n 0])"

text \<open>After a closed server has listened, only its own descriptor may have been added.\<close>

lemma server_listen_effect:
  assumes "server_valid srv" "server_close e srv m = (srv0, m0)" "server_pimpl srv \<noteq> None"
    and "server_listen e srv ch n m = ((res, srv'), m')"
  shows "server_valid srv'" "res = Inr (server_is_listening srv')" "server_reg srv' = Registration None"
    "live_fds m' = live_fds m0 + server_fds srv'" "live_sessions m' = live_sessions m0"
    "published m' = published m0" "fds_respected m' = fds_respected m0"
    "sessions_respected m' = sessions_respected m0"
    "server_is_listening srv' \<Longrightarrow> if ch = 0 then server_channel srv' \<le> 30 else server_channel srv' = ch"
    "server_is_listening srv' \<Longrightarrow> listened_on srv' n (trace m')"
proof -
  obtain im where im: "srv0 = Server (Some im)"
    using server_close_result(6) [OF assms(1,2)] assms(3) by (cases srv0) auto
  have closed: "listen_fd im = INVALID_SOCKET_HANDLE" "srv_channel im = 0" "sdp_reg im = None"
    using server_close_result [OF assms(1,2)] im
    by (auto simp: server_defs split: option.splits)
  have im_valid: "server_valid (Server (Some im))" using server_close_result(1) [OF assms(1,2)] im by simp
  have "server_valid srv' \<and> res = Inr (server_is_listening srv') \<and> server_reg srv' = Registration None
    \<and> live_fds m' = live_fds m0 + server_fds srv' \<and> live_sessions m' = live_sessions m0
    \<and> published m' = published m0 \<and> fds_respected m' = fds_respected m0
    \<and> sessions_respected m' = sessions_respected m0
    \<and> (server_is_listening srv' \<longrightarrow> (if ch = 0 then server_channel srv' \<le> 30 else server_channel srv' = ch))
    \<and> (server_is_listening srv' \<longrightarrow> listened_on srv' n (trace m'))"
    using assms(2) [unfolded im] assms(3)
  proof (cases rule: server_listen_paths [where ch = ch and n = n, case_names no_socket no_channel listens])
    case (no_socket h w)
    then have "\<not> 0 \<le>s h" by (simp add: word_sle_eq word_sless_alt)
    with no_socket assms(4) closed im_valid show ?thesis by (auto simp: server_defs)
  next
    case (no_channel h w m2 m3)
    have io: "io_on h (emit (EvSocket h) w m0) m3"
      by (rule io_trans [OF server_bind_effect(1) [OF no_channel(4)] no_channel(2)])
    note io_on_frame [OF io] io_on_respects [OF io]
    with no_channel(1,5) assms(4) closed im_valid show ?thesis
      by (auto simp: server_defs frame_facts)
  next
    case (listens h w m2 c m3 r1 r2 r w')
    have "io_on h (emit (EvSocket h) w m0) m3"
      by (rule io_trans [OF server_bind_effect(1) [OF listens(4)] listens(2)])
    then have io: "io_on h (emit (EvSocket h) w m0) (emit (EvListen h n r) w' m3)" by (rule io_step) simp
    note led = io_on_frame [OF io] io_on_respects [OF io]
    show ?thesis
    proof (cases "r = 0")
      case True
      have "listened_on srv' n (trace m')"
        using server_bind_last [OF listens(4,5)] listens(6) assms(4) True
        by (auto simp: listened_on_def server_fd_def server_channel_def)
      with True show ?thesis
        using led listens(1,5,6) assms(4) closed nonneg_not_invalid [OF listens(1)]
          server_bind_effect(2,3) [OF listens(4)]
        by (auto simp: server_defs)
    next
      case False
      then show ?thesis
        using led listens(1,6) assms(4) closed im_valid by (auto simp: server_defs frame_facts)
    qed
  qed
  then show "server_valid srv'" "res = Inr (server_is_listening srv')" "server_reg srv' = Registration None"
    "live_fds m' = live_fds m0 + server_fds srv'" "live_sessions m' = live_sessions m0"
    "published m' = published m0" "fds_respected m' = fds_respected m0"
    "sessions_respected m' = sessions_respected m0"
    "server_is_listening srv' \<Longrightarrow> if ch = 0 then server_channel srv' \<le> 30 else server_channel srv' = ch"
    "server_is_listening srv' \<Longrightarrow> listened_on srv' n (trace m')"
    by simp_all
qed

lemma server_listening_channel: "server_valid s \<Longrightarrow> server_is_listening s \<Longrightarrow> server_channel s \<noteq> 0"
  by (auto simp: server_defs split: option.splits)

text \<open>The two calls written out.\<close>

lemma listened_on_calls:
  assumes "server_valid s" "server_is_listening s" "listened_on s n tr"
  shows "\<exists>pre h. server_fds s = {#h#}
    \<and> tr = pre @ [EvBind h \<lparr>rc_family = AF_BLUETOOTH, rc_bdaddr = Bdaddr [0, 0, 0, 0, 0, 0], rc_channel = server_channel s\<rparr> 0,
        EvListen h n 0]"
proof -
  have "bdaddr_zero = Bdaddr [0, 0, 0, 0, 0, 0]" by (simp add: bdaddr_zero_def eval_nat_numeral)
  with assms show ?thesis
    by (auto simp: listened_on_def server_fds_listening any_local_def sockaddr_zero_def)
qed

section \<open>Ownership through the methods\<close>

definition server_owned :: "server \<Rightarrow> 'w machine \<Rightarrow> bool" where
  "server_owned s m \<longleftrightarrow> server_valid s \<and> server_fds s \<subseteq># live_fds m \<and>
     registration_sessions (server_reg s) \<subseteq># live_sessions m \<and>
     registration_records (server_reg s) \<subseteq># published m \<and> fds_respected m \<and> sessions_respected m"

lemma server_close_owned:
  assumes "server_owned s m" "server_close e s m = (s', m')"
  shows "live_fds m = live_fds m' + server_fds s"
    "live_sessions m = live_sessions m' + registration_sessions (server_reg s)"
    "published m = published m' + registration_records (server_reg s)"
    "fds_respected m'" "sessions_respected m'"
proof -
  have v: "server_valid s" and o: "server_fds s \<subseteq># live_fds m"
    "registration_sessions (server_reg s) \<subseteq># live_sessions m"
    "registration_records (server_reg s) \<subseteq># published m" and r: "fds_respected m" "sessions_respected m"
    using assms(1) by (simp_all add: server_owned_def)
  show "live_fds m = live_fds m' + server_fds s"
    by (rule server_fd_closable.close_accounts [OF v o(1) assms(2)])
  show "live_sessions m = live_sessions m' + registration_sessions (server_reg s)"
    by (rule server_session_closable.close_accounts [OF v o(2) assms(2)])
  show "published m = published m' + registration_records (server_reg s)"
    by (rule server_record_closable.close_accounts [OF v o(3) assms(2)])
  show "fds_respected m'" "sessions_respected m'"
    using server_close_ledger(4,5) [OF v assms(2)] o r by simp_all
qed

lemma server_listen_owned:
  assumes "server_owned s m" "server_pimpl s \<noteq> None" "server_listen e s ch n m = ((res, s'), m')"
  shows "res = Inr (server_is_listening s') \<and> server_owned s' m'
    \<and> live_fds m' + server_fds s = live_fds m + server_fds s'
    \<and> live_sessions m = live_sessions m' + registration_sessions (server_reg s)
    \<and> published m = published m' + registration_records (server_reg s)
    \<and> (if server_is_listening s' then (if ch = 0 then server_channel s' \<le> 30 else server_channel s' = ch)
         \<and> listened_on s' n (trace m')
       else server_fds s' = {#} \<and> server_channel s' = 0)"
proof -
  obtain s0 m0 where c: "server_close e s m = (s0, m0)" by (metis prod.collapse)
  have v: "server_valid s" using assms(1) by (simp add: server_owned_def)
  note own = server_close_owned [OF assms(1) c]
  note eff = server_listen_effect [OF v c assms(2,3)]
  have "\<not> server_is_listening s' \<Longrightarrow> server_channel s' = 0"
    using eff(1) by (auto simp: server_defs split: option.splits)
  then show ?thesis
    using own eff server_fds_listening [OF eff(1)]
    by (simp add: server_owned_def ac_simps split: if_splits)
qed

text \<open>The calls by which a listening server has come to be published.\<close>

definition published_on :: "server \<Rightarrow> int \<Rightarrow> uuid \<Rightarrow> string \<Rightarrow> event list \<Rightarrow> bool" where
  "published_on s n u nm tr \<longleftrightarrow> (\<exists>tr1 r ses x. listened_on s n tr1
     \<and> registration_records (server_reg s) = {#r#} \<and> registration_sessions (server_reg s) = {#ses#} \<and> 0 \<le> x
     \<and> tr = tr1 @ [EvRecordAlloc (Some r)] @ map (EvSetAttr r) (service_attributes (server_channel s) u nm default_provider) @
         [EvSdpConnect bdaddr_zero local_sdp_server (Some ses), EvSdpRegister ses r x])"

lemma server_listen_with_sdp_effect:
  assumes "server_owned s m" "server_pimpl s \<noteq> None"
    and "server_listen_with_sdp e s u nm ch n m = ((res, s'), m')"
  shows "res = Inr (server_is_listening s') \<and> server_owned s' m'
    \<and> registration_is_registered (server_reg s') = server_is_listening s'
    \<and> live_fds m' + server_fds s = live_fds m + server_fds s'
    \<and> live_sessions m' + registration_sessions (server_reg s)
        = live_sessions m + registration_sessions (server_reg s')
    \<and> published m' + registration_records (server_reg s)
        = published m + registration_records (server_reg s')
    \<and> (if server_is_listening s' then (if ch = 0 then server_channel s' \<le> 30 else server_channel s' = ch)
         \<and> published_on s' n u nm (trace m')
       else server_fds s' = {#} \<and> server_reg s' = Registration None)"
proof -
  obtain res1 s1 m1 where l: "server_listen e s ch n m = ((res1, s1), m1)" by (metis prod.collapse)
  obtain s0 m0 where c: "server_close e s m = (s0, m0)" by (metis prod.collapse)
  have v: "server_valid s" using assms(1) by (simp add: server_owned_def)
  note own = server_close_owned [OF assms(1) c]
  note eff = server_listen_effect [OF v c assms(2) l]
  show ?thesis
  proof (cases "server_is_listening s1")
    case False
    then have "res = Inr False" "s' = s1" "m' = m1"
      using assms(3) l eff(2) by (simp_all add: server_listen_with_sdp_def)
    with False own eff server_fds_listening [OF eff(1)] show ?thesis
      by (simp add: server_owned_def ac_simps)
  next
    case True
    then obtain im where im: "s1 = Server (Some im)"
      by (cases s1) (auto simp: server_is_listening_def split: option.splits)
    have parts: "0 \<le>s listen_fd im" "listen_fd im \<noteq> INVALID_SOCKET_HANDLE" "srv_channel im \<noteq> 0" "sdp_reg im = None"
      using True eff(1,3) im by (auto simp: server_defs split: option.splits)
    obtain g m2 where g: "registration_create e (srv_channel im) u nm default_provider m1 = (g, m2)"
      by (metis prod.collapse)
    note made = registration_create_paths [where e = e and channel = "srv_channel im" and u = u and
        nm = nm and pr = default_provider and m = m1, unfolded g] registration_create_respects [OF g]
    have fds1: "server_fds s1 = {#listen_fd im#}" using parts im by (simp add: server_defs)
    show ?thesis
    proof (cases g)
      case None
      then have "res = Inr False \<and> m' = sys_close e (listen_fd im) m2 \<and>
          s' = Server (Some (im\<lparr>sdp_reg := None, listen_fd := INVALID_SOCKET_HANDLE, srv_channel := 0\<rparr>))"
        using assms(3) l eff(2) True im g parts
        by (auto simp: server_listen_with_sdp_def server_impl_close_def close_socket_handle_def Let_def)
      moreover from this have "server_valid s'" "\<not> server_is_listening s'" "server_fds s' = {#}"
        "server_reg s' = Registration None"
        by (simp_all add: server_defs)
      moreover have "live_fds m2 = live_fds m1 \<and> live_sessions m2 = live_sessions m1 \<and> published m2 = published m1"
        using made(1) None by simp
      ultimately show ?thesis
        using own eff(3-8) made(2) fds1 by (simp add: server_owned_def frame_facts)
    next
      case (Some h)
      then have "res = Inr True \<and> s' = Server (Some (im\<lparr>sdp_reg := Some h\<rparr>)) \<and> m' = m2"
        using assms(3) l eff(2) True im g parts
        by (auto simp: server_listen_with_sdp_def Let_def)
      moreover from this have "server_fds s' = {#listen_fd im#}" "server_reg s' = h" "server_is_listening s'"
        "server_channel s' = srv_channel im"
        using parts by (simp_all add: server_defs)
      moreover have h: "registration_valid h" "registration_is_registered h"
        "live_sessions m2 = live_sessions m1 + registration_sessions h"
        "published m2 = published m1 + registration_records h" "live_fds m2 = live_fds m1"
        using made(1) Some by simp_all
      moreover from calculation have "server_valid s'" using parts by (simp add: server_defs)
      moreover have "published_on s' n u nm (trace m')"
      proof -
        have "listened_on s' n (trace m1)"
          using eff(10) [OF True] im calculation by (simp add: listened_on_def server_fd_def server_channel_def)
        with made(1) Some calculation show ?thesis by (auto simp: published_on_def)
      qed
      ultimately show ?thesis
        using own eff(3-8) eff(9) [OF True, unfolded im] im made(2) fds1
        by (simp add: server_owned_def frame_facts ac_simps server_channel_def split: if_splits)
    qed
  qed
qed

section \<open>Properties\<close>

text \<open>
  C4. \<open>listen\<close> releases what the server held and then either listens or holds nothing. When it answers \<open>true\<close> the
  server owns one new descriptor, whose last two calls were a \<open>bind\<close> to the server's channel on any adapter
  and a \<open>listen\<close> with the backlog asked for, both successful; the channel is the one asked for, or one of
  1 to 30 when the caller left the choice. When it answers \<open>false\<close> no descriptor is left on any error path.
\<close>

theorem server_listen_correct:
  assumes "server_owned s m" "server_pimpl s \<noteq> None" "server_listen e s ch n m = ((res, s'), m')"
  shows "res = Inr (server_is_listening s') \<and> server_owned s' m'
    \<and> live_fds m' + server_fds s = live_fds m + server_fds s'
    \<and> live_sessions m = live_sessions m' + registration_sessions (server_reg s)
    \<and> published m = published m' + registration_records (server_reg s)
    \<and> (if server_is_listening s' then server_channel s' \<noteq> 0
         \<and> (if ch = 0 then server_channel s' \<le> 30 else server_channel s' = ch)
         \<and> (\<exists>pre h. server_fds s' = {#h#} \<and> trace m' = pre @
              [EvBind h \<lparr>rc_family = AF_BLUETOOTH, rc_bdaddr = Bdaddr [0, 0, 0, 0, 0, 0], rc_channel = server_channel s'\<rparr> 0,
               EvListen h n 0])
       else server_fds s' = {#} \<and> server_channel s' = 0)"
proof -
  note own = server_listen_owned [OF assms]
  then have "server_valid s'" by (simp add: server_owned_def)
  with own listened_on_calls [of s' n "trace m'"] server_listening_channel [of s'] show ?thesis by simp
qed

theorem server_listen_correct_witness:
  "let ((res, s), m) = server_listen sim_env server_new 5 4 (boot sim_start)
   in res = Inr True \<and> server_channel s = 5 \<and> live_fds m = {#3#}"
proof -
  obtain res s m where r: "server_listen sim_env server_new 5 4 (boot sim_start) = ((res, s), m)"
    by (metis prod.collapse)
  have o: "server_owned server_new (boot sim_start)" "server_pimpl server_new \<noteq> None"
    by (simp_all add: server_owned_def) (simp add: server_new_def)
  have "fst (fst (server_listen sim_env server_new 5 4 (boot sim_start))) = Inr True" by code_simp
  moreover have "server_fds (snd (fst (server_listen sim_env server_new 5 4 (boot sim_start)))) = {#3#}"
    by code_simp
  ultimately show ?thesis using server_listen_correct [OF o r] r by (auto split: if_splits)
qed

text \<open>
  Asked to choose a channel, \<open>listen\<close> tries 1, 2, and so on up to 30 and takes the first that
  binds: when it succeeds on channel \<open>k + 1\<close>, the trace shows \<open>k\<close> failed binds of the channels
  from 1 to \<open>k\<close>, then the successful one, after the descriptor was opened and its buffers set.
\<close>

theorem server_listen_first_free:
  assumes "server_valid s" "\<not> server_is_listening s" "server_listen e s 0 n m = ((Inr True, s'), m')"
  shows "\<exists>h r1 r2 fails. trace m' = trace m @
      [EvSocket h, EvSetsockopt h SO_SNDBUF (OptInt 524288) r1, EvSetsockopt h SO_RCVBUF (OptInt 524288) r2] @
      bind_attempts h 1 (fails @ [0]) @ [EvListen h n 0]
    \<and> list_all (\<lambda>r. r \<noteq> 0) fails \<and> unat (server_channel s') = length fails + 1 \<and> server_channel s' \<le> 30
    \<and> server_fds s' = {#h#}"
proof -
  have p: "server_pimpl s \<noteq> None" using assms(3) by (auto simp: server_listen_def split: option.splits)
  then obtain im where im: "s = Server (Some im)" by (cases s) auto
  have c: "server_close e s m = (Server (Some im), m)"
    using server_close_idle [OF assms(1,2)] im by simp
  from c p show ?thesis
  proof (cases rule: server_listen_paths [where ch = 0 and n = n, case_names no_socket no_channel listens])
    case (no_socket h w)
    then show ?thesis using assms(3) by simp
  next
    case (no_channel h w m2 m3)
    then show ?thesis using assms(3) by simp
  next
    case (listens h w m2 c m3 r1 r2 r w')
    have s': "s' = Server (Some (im\<lparr>listen_fd := h, srv_channel := c\<rparr>))" "r = 0"
      "m' = emit (EvListen h n r) w' m3"
      using listens(6) assms(3) by (auto split: if_splits)
    from listens(4,5) bind_scan_steps [of 1 e h m2 c m3]
    obtain fails where "list_all (\<lambda>r. r \<noteq> 0) fails" "trace m3 = trace m2 @ bind_attempts h 1 (fails @ [0])"
      "unat c = length fails + 1" "c \<le> 30"
      by (auto simp: server_bind_def)
    with s' listens(1,3) show ?thesis
      by (intro exI [of _ h] exI [of _ r1] exI [of _ r2] exI [of _ fails]) (simp add: server_defs)
  qed
qed

theorem server_listen_first_free_witness:
  "server_channel (snd (fst (server_listen sim_env server_new 0 4 (boot (sim_start\<lparr>sim_busy := [1, 2, 4]\<rparr>))))) = 3"
proof -
  let ?m = "boot (sim_start\<lparr>sim_busy := [1, 2, 4]\<rparr>)"
  have t: "fst (fst (server_listen sim_env server_new 0 4 ?m)) = Inr True"
    "server_channel (snd (fst (server_listen sim_env server_new 0 4 ?m))) = 3" by code_simp+
  obtain s' m' where r: "server_listen sim_env server_new 0 4 ?m = ((Inr True, s'), m')"
    using t(1) by (metis prod.collapse)
  have "server_channel s' \<le> 30"
    using server_listen_first_free [OF server_new_valid(1,2) r] by auto
  with t(2) show ?thesis by simp
qed

text \<open>The attributes of a published record written out.\<close>

lemma published_on_calls:
  assumes "server_valid s" "server_is_listening s" "published_on s n u nm tr"
  shows "\<exists>pre h r ses x. server_fds s = {#h#} \<and> registration_records (server_reg s) = {#r#}
    \<and> registration_sessions (server_reg s) = {#ses#} \<and> 0 \<le> x \<and> tr = pre @
      [EvBind h \<lparr>rc_family = AF_BLUETOOTH, rc_bdaddr = Bdaddr [0, 0, 0, 0, 0, 0], rc_channel = server_channel s\<rparr> 0,
       EvListen h n 0, EvRecordAlloc (Some r),
       EvSetAttr r (ServiceId (SdpUuid128 (uuid_bytes u))), EvSetAttr r (ServiceClasses [SdpUuid128 (uuid_bytes u)]),
       EvSetAttr r (BrowseGroups [SdpUuid16 0x1002]),
       EvSetAttr r (AccessProtos [[[DataUuid (SdpUuid16 0x0100)], [DataUuid (SdpUuid16 0x0003), DataUint8 (server_channel s)]]]),
       EvSetAttr r (InfoAttr nm ''SimpleRFCOMM'' nm),
       EvSdpConnect (Bdaddr [0, 0, 0, 0, 0, 0]) (Bdaddr [0, 0, 0, 0xff, 0xff, 0xff]) (Some ses), EvSdpRegister ses r x]"
proof -
  obtain tr1 r ses x where p: "listened_on s n tr1" "registration_records (server_reg s) = {#r#}"
    "registration_sessions (server_reg s) = {#ses#}" "0 \<le> x"
    "tr = tr1 @ [EvRecordAlloc (Some r)] @ map (EvSetAttr r) (service_attributes (server_channel s) u nm default_provider) @
         [EvSdpConnect bdaddr_zero local_sdp_server (Some ses), EvSdpRegister ses r x]"
    using assms(3) by (auto simp: published_on_def)
  moreover have "bdaddr_zero = Bdaddr [0, 0, 0, 0, 0, 0]" by (simp add: bdaddr_zero_def eval_nat_numeral)
  ultimately show ?thesis
    using listened_on_calls [OF assms(1,2) p(1)]
    by (auto simp: service_attributes_def default_provider_def local_sdp_server_def PUBLIC_BROWSE_GROUP_def L2CAP_UUID_def
        RFCOMM_UUID_def Let_def)
qed

text \<open>
  C5. \<open>listen_with_sdp\<close> is all or nothing. It answers \<open>true\<close> with a server whose descriptor was bound to a channel,
  as asked, and put to listen, and then a record was published over a session to the local SDP server: its
  attributes are the service UUID, the public browse group, the protocols L2CAP and RFCOMM with that same
  channel, and the name. It answers \<open>false\<close> with a closed server. Descriptors, sessions and published records
  are then what they were, less what the server held before, plus what it holds now.
\<close>

theorem server_listen_with_sdp_correct:
  assumes "server_owned s m" "server_pimpl s \<noteq> None"
    and "server_listen_with_sdp e s u nm ch n m = ((res, s'), m')"
  shows "res = Inr (server_is_listening s') \<and> server_owned s' m'
    \<and> registration_is_registered (server_reg s') = server_is_listening s'
    \<and> live_fds m' + server_fds s = live_fds m + server_fds s'
    \<and> live_sessions m' + registration_sessions (server_reg s)
        = live_sessions m + registration_sessions (server_reg s')
    \<and> published m' + registration_records (server_reg s)
        = published m + registration_records (server_reg s')
    \<and> (if server_is_listening s' then server_channel s' \<noteq> 0
         \<and> (if ch = 0 then server_channel s' \<le> 30 else server_channel s' = ch)
         \<and> (\<exists>pre h r ses x. server_fds s' = {#h#} \<and> registration_records (server_reg s') = {#r#}
              \<and> registration_sessions (server_reg s') = {#ses#} \<and> 0 \<le> x \<and> trace m' = pre @
              [EvBind h \<lparr>rc_family = AF_BLUETOOTH, rc_bdaddr = Bdaddr [0, 0, 0, 0, 0, 0], rc_channel = server_channel s'\<rparr> 0,
               EvListen h n 0, EvRecordAlloc (Some r),
               EvSetAttr r (ServiceId (SdpUuid128 (uuid_bytes u))),
               EvSetAttr r (ServiceClasses [SdpUuid128 (uuid_bytes u)]),
               EvSetAttr r (BrowseGroups [SdpUuid16 0x1002]),
               EvSetAttr r (AccessProtos [[[DataUuid (SdpUuid16 0x0100)],
                 [DataUuid (SdpUuid16 0x0003), DataUint8 (server_channel s')]]]),
               EvSetAttr r (InfoAttr nm ''SimpleRFCOMM'' nm),
               EvSdpConnect (Bdaddr [0, 0, 0, 0, 0, 0]) (Bdaddr [0, 0, 0, 0xff, 0xff, 0xff]) (Some ses),
               EvSdpRegister ses r x])
       else server_fds s' = {#} \<and> server_reg s' = Registration None)"
proof -
  note eff = server_listen_with_sdp_effect [OF assms]
  then have "server_valid s'" by (simp add: server_owned_def)
  with eff published_on_calls [of s' n u nm "trace m'"] server_listening_channel [of s'] show ?thesis by simp
qed

theorem server_listen_with_sdp_correct_witness:
  "let ((res, s), m) = server_listen_with_sdp sim_env server_new uuid_serial_port ''svc'' 5 4 (boot sim_start)
   in res = Inr True \<and> live_fds m = {#3#} \<and> live_sessions m = {#7#} \<and> published m = {#100#}"
proof -
  let ?r = "server_listen_with_sdp sim_env server_new uuid_serial_port ''svc'' 5 4 (boot sim_start)"
  obtain res s m where r: "?r = ((res, s), m)" by (metis prod.collapse)
  have o: "server_owned server_new (boot sim_start)" "server_pimpl server_new \<noteq> None"
    by (simp_all add: server_owned_def) (simp add: server_new_def)
  have "fst (fst ?r) = Inr True" by code_simp
  moreover have "server_fds (snd (fst ?r)) = {#3#}" by code_simp
  moreover have "registration_sessions (server_reg (snd (fst ?r))) = {#7#}" by code_simp
  moreover have "registration_records (server_reg (snd (fst ?r))) = {#100#}" by code_simp
  ultimately show ?thesis using server_listen_with_sdp_correct [OF o r] r by auto
qed

text \<open>
  \<open>close\<close> withdraws the SDP service before it closes the listening descriptor, releases the
  descriptor, the session and the record once each, and is final: closing again, destroying and
  accepting make no call.
\<close>

theorem server_close_final:
  assumes "server_owned s m" "server_close e s m = (s', m')"
  shows "trace m' = trace m @ registration_withdrawal (server_reg s) @
      (if server_is_listening s then [EvClose (server_fd s)] else [])
    \<and> live_fds m = live_fds m' + server_fds s
    \<and> live_sessions m = live_sessions m' + registration_sessions (server_reg s)
    \<and> published m = published m' + registration_records (server_reg s)
    \<and> server_owned s' m' \<and> \<not> server_is_listening s' \<and> server_channel s' = 0
    \<and> server_close e s' m' = (s', m') \<and> server_destroy e s' m' = m' \<and> server_accept e s' m' = (None, m')"
proof -
  have v: "server_valid s" using assms(1) by (simp add: server_owned_def)
  obtain g m1 where u: "registration_unregister e (server_reg s) m = (g, m1)" by (metis prod.collapse)
  have "trace m' = trace m1 @ (if server_is_listening s then [EvClose (server_fd s)] else [])"
    using server_close_steps [OF v, of e m] assms(2) u by (auto simp: sys_close_def)
  moreover have "trace m1 = trace m @ registration_withdrawal (server_reg s)"
    by (rule registration_unregister_trace [OF server_valid_reg [OF v] u])
  moreover note res = server_close_result [OF v assms(2)]
  moreover have "server_close e s' m' = (s', m')" by (rule server_close_idle [OF res(1,2)])
  moreover have "server_accept e s' m' = (None, m')"
    using res(2) by (simp add: server_accept_def split: option.split)
  ultimately show ?thesis
    using server_close_owned [OF assms] by (simp add: server_owned_def server_destroy_close)
qed

theorem server_close_final_witness:
  "trace (snd (server_close sim_env (snd (fst (server_listen sim_env server_new 5 4 (boot sim_start))))
     (snd (server_listen sim_env server_new 5 4 (boot sim_start))))) =
   [EvSocket 3, EvSetsockopt 3 SO_SNDBUF (OptInt 524288) 0, EvSetsockopt 3 SO_RCVBUF (OptInt 524288) 0,
    EvBind 3 (any_local 5) 0, EvListen 3 4 0, EvClose 3]"
proof -
  let ?s = "Server (Some \<lparr>listen_fd = 3, srv_channel = 5, sdp_reg = None\<rparr>)"
  let ?m = "\<lparr>world = sim_start\<lparr>sim_next := 4\<rparr>, trace =
    [EvSocket 3, EvSetsockopt 3 SO_SNDBUF (OptInt 524288) 0, EvSetsockopt 3 SO_RCVBUF (OptInt 524288) 0,
     EvBind 3 (any_local 5) 0, EvListen 3 4 0]\<rparr>"
  have l: "server_listen sim_env server_new 5 4 (boot sim_start) = ((Inr True, ?s), ?m)"
    by code_simp
  have "server_valid ?s" "server_fds ?s = {#3#}" "server_reg ?s = Registration None" "live_fds ?m = {#3#}"
    "fds_respected ?m" "sessions_respected ?m"
    by (simp_all add: server_defs word_sle_eq live_fds_def fds_respected_def sessions_respected_def
        balance_def well_used_def INVALID_SOCKET_HANDLE_def)
  then have "server_owned ?s ?m" by (simp add: server_owned_def)
  from server_close_final [OF this prod.collapse [symmetric], of sim_env]
  have "trace (snd (server_close sim_env ?s ?m)) = trace ?m @ registration_withdrawal (server_reg ?s) @
      (if server_is_listening ?s then [EvClose (server_fd ?s)] else [])" by simp
  then show ?thesis
    by (simp add: l server_defs server_fd_def registration_withdrawal_def INVALID_SOCKET_HANDLE_def)
qed

lemma server_accept_effect:
  assumes "server_valid s" "server_accept e s m = (res, m')"
  shows "same_sdp m m' \<and> (server_fds s \<subseteq># live_fds m \<longrightarrow> fds_respected m' = fds_respected m) \<and> (case res of
      None \<Rightarrow> live_fds m' = live_fds m \<and> (server_is_listening s \<or> m' = m)
    | Some sock \<Rightarrow> server_is_listening s \<and> socket_valid sock \<and> socket_is_open sock
        \<and> live_fds m' = live_fds m + socket_holds sock
        \<and> (\<exists>a w. k_accept e (server_fd s) (world m) = ((socket_fd sock, a), w)
             \<and> socket_peer_address sock = bdaddr_to_address (rc_bdaddr a)
             \<and> socket_peer_channel sock = rc_channel a))"
proof (cases "server_is_listening s")
  case False
  then show ?thesis using assms(2) by (auto simp: server_accept_def split: option.splits)
next
  case True
  then obtain im where im: "s = Server (Some im)" by (cases s) (auto simp: server_is_listening_def split: option.splits)
  obtain c a w where k: "k_accept e (listen_fd im) (world m) = ((c, a), w)" by (metis prod.collapse)
  let ?m = "emit (EvAccept (listen_fd im) c) w m"
  have acc: "sys_accept e (listen_fd im) m = ((c, a), ?m)" using k by (simp add: sys_accept_def)
  show ?thesis
  proof (cases "c <s 0")
    case neg: True
    then have "\<not> 0 \<le>s c" by (simp add: word_sle_eq word_sless_alt)
    with neg show ?thesis
      using assms(2) True im acc server_fds_listening [OF assms(1)]
      by (auto simp: server_accept_def server_fd_def)
  next
    case False
    then have c: "0 \<le>s c" by (simp add: word_sle_eq word_sless_alt)
    obtain sock m2 where n: "socket_from_native e (handle_to_uintptr c) (bdaddr_to_address (rc_bdaddr a))
        (rc_channel a) ?m = (sock, m2)" by (metis prod.collapse)
    have "res = Some sock" "m' = m2"
      using assms(2) True im acc n False by (auto simp: server_accept_def)
    moreover have io: "io_on c ?m m2" and sock: "socket_valid sock \<and> socket_is_open sock \<and>
        socket_holds sock = {#c#} \<and> socket_fd sock = c \<and>
        socket_peer_address sock = bdaddr_to_address (rc_bdaddr a) \<and> socket_peer_channel sock = rc_channel a"
      using socket_from_native_effect [OF c n] by auto
    ultimately show ?thesis
      using True k c io_on_frame(1) [OF io] io_on_respects [OF io] im server_fds_listening [OF assms(1)]
        same_sdp_trans [OF same_sdp_fd_event(2) io_on_same_sdp [OF io]]
      by (simp add: server_fd_def)
  qed
qed

text \<open>
  \<open>accept\<close> on a listening server returns either nothing, having taken no descriptor, or a socket
  that owns exactly the accepted descriptor and is open, with the peer's address as it came from the
  kernel; on a server that is not listening it makes no call.
\<close>

theorem server_accept_correct:
  assumes "server_valid s" "server_accept e s m = (res, m')"
  shows "case res of
      None \<Rightarrow> live_fds m' = live_fds m \<and> (server_is_listening s \<or> m' = m)
    | Some sock \<Rightarrow> server_is_listening s \<and> socket_valid sock \<and> socket_is_open sock
        \<and> live_fds m' = live_fds m + socket_holds sock
        \<and> (\<exists>a w. k_accept e (server_fd s) (world m) = ((socket_fd sock, a), w)
             \<and> socket_peer_address sock = bdaddr_to_address (rc_bdaddr a)
             \<and> socket_peer_channel sock = rc_channel a)"
  using server_accept_effect [OF assms] by (auto split: option.splits)

theorem server_accept_correct_witness:
  "case server_accept sim_env (Server (Some \<lparr>listen_fd = 3, srv_channel = 5, sdp_reg = None\<rparr>))
     (boot (sim_start\<lparr>sim_next := 4\<rparr>)) of
     (None, _) \<Rightarrow> False
   | (Some sock, m) \<Rightarrow> live_fds m = {#4#} \<and> socket_peer_channel sock = 9
       \<and> address_to_string (socket_peer_address sock) = ''01:02:03:04:05:06''"
proof -
  let ?s = "Server (Some \<lparr>listen_fd = 3, srv_channel = 5, sdp_reg = None\<rparr>)"
  let ?m = "boot (sim_start\<lparr>sim_next := 4\<rparr>)"
  have v: "server_valid ?s" by (simp add: server_defs word_sle_eq INVALID_SOCKET_HANDLE_def)
  obtain res m' where r: "server_accept sim_env ?s ?m = (res, m')" by (metis prod.collapse)
  have "map_option socket_fd (fst (server_accept sim_env ?s ?m)) = Some 4" by code_simp
  with r obtain sock where sock: "res = Some sock" "socket_fd sock = 4" by auto
  have pa: "bdaddr_to_address (Bdaddr [6, 5, 4, 3, 2, 1]) = Address [1, 2, 3, 4, 5, 6]" by code_simp
  have str: "address_to_string (Address [1, 2, 3, 4, 5, 6]) = ''01:02:03:04:05:06''" by code_simp
  show ?thesis
    using server_accept_correct [OF v r] sock r pa str
    by (auto simp: socket_holds_open server_fd_def sim_env_def boot_def sim_start_def live_fds_def balance_def)
qed

end
