(* ===== verification/Client_Model.thy ===== *)
theory Client_Model
  imports Sdp_Resolve Socket_Options
begin

text \<open>
  \<open>class Client\<close> of \<open>src/client.cpp\<close>, Linux branches: connecting to a channel, or to the channel that
  SDP resolves for a service. A client has no state of its own; what it makes is a socket.
\<close>

section \<open>Connecting\<close>

definition remote_address :: "address \<Rightarrow> u8 \<Rightarrow> sockaddr_rc" where
  "remote_address addr ch =
     sockaddr_zero\<lparr>rc_family := AF_BLUETOOTH, rc_bdaddr := address_to_bdaddr addr, rc_channel := ch\<rparr>"

definition client_connect ::
  "'w env \<Rightarrow> address \<Rightarrow> u8 \<Rightarrow> int \<Rightarrow> 'w machine \<Rightarrow> socket option \<times> 'w machine" where
  "client_connect e addr channel timeout m =
     (let (s, m) = sys_socket e m in
      if s <s 0 then (None, m)
      else
        let (_, m) = sys_setsockopt e s SO_SNDBUF (OptInt DEFAULT_BUFFER_SIZE) m;
            (_, m) = sys_setsockopt e s SO_RCVBUF (OptInt DEFAULT_BUFFER_SIZE) m;
            m = (if 0 < timeout then
                   let (_, m) = sys_setsockopt e s SO_SNDTIMEO (timeval_of_ms timeout) m;
                       (_, m) = sys_setsockopt e s SO_RCVTIMEO (timeval_of_ms timeout) m
                   in m
                 else m);
            (r, m) = sys_connect e s (remote_address addr channel) m
        in if r \<noteq> 0 then (None, close_socket_handle e s m)
           else
             let (sock, m) = socket_from_native e (handle_to_uintptr s) addr channel m
             in (Some sock, m))"

definition client_connect_by_sdp ::
  "'w env \<Rightarrow> address \<Rightarrow> uuid \<Rightarrow> int \<Rightarrow> 'w machine \<Rightarrow> (ub + socket option) \<times> 'w machine" where
  "client_connect_by_sdp e addr u timeout m =
     (case resolve_channel e addr u m of
        (Inl b, m) \<Rightarrow> (Inl b, m)
      | (Inr None, m) \<Rightarrow> (Inr None, m)
      | (Inr (Some channel), m) \<Rightarrow>
          let (sock, m) = client_connect e addr channel timeout m in (Inr sock, m))"

section \<open>The calls of a connection\<close>

definition timeout_events :: "handle \<Rightarrow> int \<Rightarrow> int \<Rightarrow> int \<Rightarrow> event list" where
  "timeout_events h t r3 r4 =
     (if 0 < t then [EvSetsockopt h SO_SNDTIMEO (timeval_of_ms t) r3, EvSetsockopt h SO_RCVTIMEO (timeval_of_ms t) r4]
      else [])"

text \<open>The address of the device, its bytes least significant first, and the options, written out.\<close>

lemma remote_address_bytes:
  "remote_address a c = \<lparr>rc_family = AF_BLUETOOTH, rc_bdaddr = Bdaddr [address_bytes a ! 5, address_bytes a ! 4,
     address_bytes a ! 3, address_bytes a ! 2, address_bytes a ! 1, address_bytes a ! 0], rc_channel = c\<rparr>"
  by (simp add: remote_address_def sockaddr_zero_def address_to_bdaddr_def upt_6 eval_nat_numeral)

lemma timeout_events_values:
  "timeout_events h t r3 r4 =
     (if 0 < t then [EvSetsockopt h SO_SNDTIMEO (OptTimeval (t div 1000) (t mod 1000 * 1000)) r3,
        EvSetsockopt h SO_RCVTIMEO (OptTimeval (t div 1000) (t mod 1000 * 1000)) r4] else [])"
  by (auto simp: timeout_events_def timeval_of_ms_def signed_divide_int_def signed_modulo_int_def)

lemma client_connect_paths:
  obtains (no_socket) h w where "h <s 0" "client_connect e a c t m = (None, emit (EvSocket h) w m)"
  | (tried) h w m1 r1 r2 r3 r4 r w' where "0 \<le>s h" "io_on h (emit (EvSocket h) w m) m1"
      "trace m1 = trace m @ [EvSocket h, EvSetsockopt h SO_SNDBUF (OptInt 524288) r1,
         EvSetsockopt h SO_RCVBUF (OptInt 524288) r2] @ timeout_events h t r3 r4"
      "client_connect e a c t m =
         (let m2 = emit (EvConnect h (remote_address a c) r) w' m1 in
          if r \<noteq> 0 then (None, sys_close e h m2)
          else let (sock, m3) = socket_from_native e (handle_to_uintptr h) a c m2 in (Some sock, m3))"
proof -
  obtain h w where s: "sys_socket e m = (h, emit (EvSocket h) w m)"
    using sys_socket_shape [of e m] by blast
  let ?m1 = "emit (EvSocket h) w m"
  obtain r1 w1 where o1: "sys_setsockopt e h SO_SNDBUF (OptInt 524288) ?m1 =
      (r1, emit (EvSetsockopt h SO_SNDBUF (OptInt 524288) r1) w1 ?m1)" (is "_ = (_, ?m2)")
    using sys_setsockopt_shape [of e h SO_SNDBUF "OptInt 524288" ?m1] by blast
  obtain r2 w2 where o2: "sys_setsockopt e h SO_RCVBUF (OptInt 524288) ?m2 =
      (r2, emit (EvSetsockopt h SO_RCVBUF (OptInt 524288) r2) w2 ?m2)" (is "_ = (_, ?m3)")
    using sys_setsockopt_shape [of e h SO_RCVBUF "OptInt 524288" ?m2] by blast
  obtain r3 w3 where o3: "sys_setsockopt e h SO_SNDTIMEO (timeval_of_ms t) ?m3 =
      (r3, emit (EvSetsockopt h SO_SNDTIMEO (timeval_of_ms t) r3) w3 ?m3)" (is "_ = (_, ?m4)")
    using sys_setsockopt_shape [of e h SO_SNDTIMEO "timeval_of_ms t" ?m3] by blast
  obtain r4 w4 where o4: "sys_setsockopt e h SO_RCVTIMEO (timeval_of_ms t) ?m4 =
      (r4, emit (EvSetsockopt h SO_RCVTIMEO (timeval_of_ms t) r4) w4 ?m4)" (is "_ = (_, ?m5)")
    using sys_setsockopt_shape [of e h SO_RCVTIMEO "timeval_of_ms t" ?m4] by blast
  define m1 where "m1 = (if 0 < t then ?m5 else ?m3)"
  obtain r w' where k: "sys_connect e h (remote_address a c) m1 =
      (r, emit (EvConnect h (remote_address a c) r) w' m1)"
    using sys_connect_shape [of e h "remote_address a c" m1] by blast
  show ?thesis
  proof (cases "h <s 0")
    case True
    with s show ?thesis by (intro no_socket [of h w]) (auto simp: client_connect_def)
  next
    case False
    then have h: "0 \<le>s h" by (simp add: word_sle_eq word_sless_alt)
    have io: "io_on h ?m1 m1" unfolding m1_def by (auto intro!: io_step io_refl io_events)
    have tr: "trace m1 = trace m @ [EvSocket h, EvSetsockopt h SO_SNDBUF (OptInt 524288) r1,
         EvSetsockopt h SO_RCVBUF (OptInt 524288) r2] @ timeout_events h t r3 r4"
      by (simp add: m1_def timeout_events_def)
    have cl: "close_socket_handle e h m = sys_close e h m" for m
      using h by (simp add: close_socket_handle_def)
    have "client_connect e a c t m =
       (let (r, m) = sys_connect e h (remote_address a c) m1
        in if r \<noteq> 0 then (None, sys_close e h m)
           else let (sock, m) = socket_from_native e (handle_to_uintptr h) a c m in (Some sock, m))"
      using False h s o1 o2 o3 o4
      by (auto simp: client_connect_def DEFAULT_BUFFER_SIZE_def cl m1_def Let_def cong: if_cong)
    then show ?thesis by (intro tried [OF h io tr, of r w']) (simp add: k Let_def)
  qed
qed

lemma client_connect_effect:
  assumes "client_connect e a c t m = (res, m')"
  shows "fds_respected m' = fds_respected m \<and> same_sdp m m'
    \<and> (case res of None \<Rightarrow> live_fds m' = live_fds m
       | Some sock \<Rightarrow> socket_valid sock \<and> socket_is_open sock \<and> live_fds m' = live_fds m + socket_holds sock
           \<and> socket_peer_address sock = a \<and> socket_peer_channel sock = c
           \<and> (\<exists>r1 r2 r3 r4 post. let h = socket_fd sock in trace m' = trace m @
                [EvSocket h, EvSetsockopt h SO_SNDBUF (OptInt 524288) r1,
                 EvSetsockopt h SO_RCVBUF (OptInt 524288) r2] @ timeout_events h t r3 r4 @
                EvConnect h (remote_address a c) 0 # post))"
proof (cases rule: client_connect_paths [of e a c t m, case_names no_socket tried])
  case (no_socket h w)
  then have "\<not> 0 \<le>s h" by (simp add: word_sle_eq word_sless_alt)
  with no_socket assms show ?thesis by auto
next
  case (tried h w m1 r1 r2 r3 r4 r w')
  let ?m2 = "emit (EvConnect h (remote_address a c) r) w' m1"
  have io: "io_on h (emit (EvSocket h) w m) ?m2" using tried(2) by (rule io_step) simp
  note led = io_on_frame [OF io] io_on_respects [OF io]
  have sdp: "same_sdp m ?m2" by (rule same_sdp_trans [OF same_sdp_fd_event(1) io_on_same_sdp [OF io]])
  show ?thesis
  proof (cases "r = 0")
    case False
    with tried(1,4) assms led sdp show ?thesis
      by (auto simp: sys_close_def Let_def same_sdp_def)
  next
    case True
    obtain sock m3 where n: "socket_from_native e (handle_to_uintptr h) a c ?m2 = (sock, m3)"
      by (metis prod.collapse)
    have res: "res = Some sock" "m' = m3" using tried(4) assms n True by simp_all
    have io3: "io_on h ?m2 m3" and sock: "socket_valid sock" "socket_is_open sock" "socket_holds sock = {#h#}"
      "socket_fd sock = h" "socket_peer_address sock = a" "socket_peer_channel sock = c"
      and tr: "\<exists>r1 r2 r3. trace m3 = trace ?m2 @ [EvSetsockopt h SO_SNDBUF (OptInt 524288) r1,
        EvSetsockopt h SO_RCVBUF (OptInt 524288) r2, EvGetsockname h r3]"
      using socket_from_native_effect [OF tried(1) n] by auto
    have io': "io_on h (emit (EvSocket h) w m) m3" by (rule io_trans [OF io3 io])
    have "\<exists>post. trace m' = trace m @ [EvSocket h, EvSetsockopt h SO_SNDBUF (OptInt 524288) r1,
        EvSetsockopt h SO_RCVBUF (OptInt 524288) r2] @ timeout_events h t r3 r4 @
        EvConnect h (remote_address a c) 0 # post"
      using tr tried(3) res True by auto
    then show ?thesis
      using io_on_frame [OF io'] io_on_respects [OF io'] tried(1) res sock
        same_sdp_trans [OF sdp io_on_same_sdp [OF io3]] by (simp add: Let_def) blast
  qed
qed

lemma scan_records_frame:
  "scan_records e rs m = (res, m') \<Longrightarrow>
     live_fds m' = live_fds m \<and> fds_respected m' = fds_respected m \<and> same_sdp m m'"
proof (induction rs arbitrary: m)
  case (Cons r rs)
  obtain x ps w where g: "sdp_get_access_protos e r m = ((x, ps), emit (EvAccessProtos r x) w m)"
    using sdp_get_access_protos_shape [of e r m] by blast
  show ?case
    using Cons.prems Cons.IH [of "sdp_record_free e r (emit (EvAccessProtos r x) w m)"]
    by (auto simp: g sdp_record_free_def same_sdp_def Let_def split: sum.splits if_splits)
qed simp

text \<open>When the search stays within the bounds of its array, its session is closed.\<close>

lemma resolve_channel_ledger:
  assumes "resolve_channel e a u m = (Inr c, m')"
  shows "live_fds m' = live_fds m \<and> fds_respected m' = fds_respected m \<and> same_sdp m m'"
proof -
  obtain ses w where s: "sdp_connect e bdaddr_zero (address_to_bdaddr a) m =
      (ses, emit (EvSdpConnect bdaddr_zero (address_to_bdaddr a) ses) w m)" (is "_ = (_, ?m1)")
    using sdp_connect_shape [of e bdaddr_zero "address_to_bdaddr a" m] by blast
  show ?thesis
  proof (cases ses)
    case None
    with s assms show ?thesis by (auto simp: resolve_channel_def same_sdp_def)
  next
    case (Some i)
    obtain x rs w2 where q: "sdp_search e i [SdpUuid128 (uuid_bytes u)] [0xffff] ?m1 =
        ((x, rs), emit (EvSdpSearch i [SdpUuid128 (uuid_bytes u)] [0xffff] x rs) w2 ?m1)" (is "_ = (_, ?m2)")
      using sdp_search_shape [of e i "[SdpUuid128 (uuid_bytes u)]" "[0xffff]" ?m1] by blast
    obtain found m3 where f: "(if x = 0 \<and> rs \<noteq> [] then scan_records e rs ?m2 else (Inr 0, ?m2)) = (found, m3)"
      by (metis prod.collapse)
    then have fr: "live_fds m3 = live_fds ?m2 \<and> fds_respected m3 = fds_respected ?m2 \<and> same_sdp ?m2 m3"
      using scan_records_frame [of e rs ?m2 found m3] by (auto split: if_splits)
    have "m' = sdp_close e i m3"
      using assms by (auto simp: resolve_channel_def s Some q [unfolded Some] f [unfolded Some] split: sum.splits)
    with fr Some show ?thesis by (simp add: sdp_close_def same_sdp_def)
  qed
qed

text \<open>When it leaves the bounds, the session that was opened is still open.\<close>

lemma scan_data_error: "scan_data ds proto = Inl b \<Longrightarrow> b = ArrayOutOfBounds"
  by (induction ds proto rule: scan_data.induct) (auto split: sdp_data.splits if_splits)

lemma scan_chains_error: "scan_chains ds = Inl b \<Longrightarrow> b = ArrayOutOfBounds"
  by (induction ds) (auto dest: scan_data_error split: sum.splits if_splits)

lemma scan_protos_error: "scan_protos ps = Inl b \<Longrightarrow> b = ArrayOutOfBounds"
  by (induction ps) (auto dest: scan_chains_error split: sum.splits if_splits)

lemma scan_records_error: "scan_records e rs m = (Inl b, m') \<Longrightarrow> b = ArrayOutOfBounds"
proof (induction rs arbitrary: m)
  case (Cons r rs)
  then show ?case
    by (auto simp: Let_def dest: scan_protos_error split: prod.splits sum.splits if_splits)
qed simp

lemma resolve_channel_error:
  assumes "resolve_channel e a u m = (Inl b, m')"
  shows "b = ArrayOutOfBounds \<and> live_fds m' = live_fds m \<and> fds_respected m' = fds_respected m
    \<and> published m' = published m \<and> (\<exists>ses. live_sessions m' = add_mset ses (live_sessions m))"
proof -
  obtain ses w where s: "sdp_connect e bdaddr_zero (address_to_bdaddr a) m =
      (ses, emit (EvSdpConnect bdaddr_zero (address_to_bdaddr a) ses) w m)" (is "_ = (_, ?m1)")
    using sdp_connect_shape [of e bdaddr_zero "address_to_bdaddr a" m] by blast
  show ?thesis
  proof (cases ses)
    case None
    with s assms show ?thesis by (simp add: resolve_channel_def)
  next
    case (Some i)
    obtain x rs w2 where q: "sdp_search e i [SdpUuid128 (uuid_bytes u)] [0xffff] ?m1 =
        ((x, rs), emit (EvSdpSearch i [SdpUuid128 (uuid_bytes u)] [0xffff] x rs) w2 ?m1)" (is "_ = (_, ?m2)")
      using sdp_search_shape [of e i "[SdpUuid128 (uuid_bytes u)]" "[0xffff]" ?m1] by blast
    have "scan_records e rs ?m2 = (Inl b, m')"
      using assms by (auto simp: resolve_channel_def s Some q [unfolded Some] split: sum.splits if_splits prod.splits)
    from scan_records_frame [OF this] scan_records_error [OF this] Some show ?thesis
      by (auto simp: same_sdp_def)
  qed
qed

lemma client_connect_by_sdp_effect:
  assumes "client_connect_by_sdp e a u t m = (Inr res, m')"
  shows "same_sdp m m' \<and> fds_respected m' = fds_respected m
    \<and> (case res of None \<Rightarrow> live_fds m' = live_fds m
       | Some sock \<Rightarrow> socket_valid sock \<and> socket_is_open sock \<and> socket_peer_address sock = a
           \<and> live_fds m' = live_fds m + socket_holds sock
           \<and> fst (resolve_channel e a u m) = Inr (Some (socket_peer_channel sock)))"
proof -
  obtain r m1 where r: "resolve_channel e a u m = (r, m1)" by (metis prod.collapse)
  then obtain c where c: "r = Inr c" using assms by (cases r) (auto simp: client_connect_by_sdp_def)
  note led = resolve_channel_ledger [OF r [unfolded c]]
  show ?thesis
  proof (cases c)
    case None
    with assms r c led show ?thesis by (auto simp: client_connect_by_sdp_def)
  next
    case (Some ch)
    then have "client_connect e a ch t m1 = (res, m')"
      using assms r c by (auto simp: client_connect_by_sdp_def split: prod.splits)
    from client_connect_effect [OF this] led show ?thesis
      by (auto simp: r c Some dest: same_sdp_trans split: option.splits)
  qed
qed

section \<open>Properties\<close>

text \<open>
  C7. \<open>connect\<close> either returns a socket, open and owning exactly the new descriptor, or returns nothing and holds
  nothing, whichever call failed. On success the calls were, in this order: the descriptor is opened, its
  buffers are set to 512 KiB, both timeouts are set when one was asked for, and the descriptor is connected
  to the six bytes of the requested address, in the order of the kernel, and the requested channel.
\<close>

theorem client_connect_correct:
  assumes "client_connect e a c t m = (res, m')"
  shows "fds_respected m' = fds_respected m \<and> live_sessions m' = live_sessions m
    \<and> (case res of None \<Rightarrow> live_fds m' = live_fds m
       | Some sock \<Rightarrow> socket_valid sock \<and> socket_is_open sock \<and> live_fds m' = live_fds m + socket_holds sock
           \<and> socket_peer_address sock = a \<and> socket_peer_channel sock = c
           \<and> (\<exists>r1 r2 r3 r4 post. let h = socket_fd sock; b = address_bytes a in trace m' = trace m @
                [EvSocket h, EvSetsockopt h SO_SNDBUF (OptInt 524288) r1,
                 EvSetsockopt h SO_RCVBUF (OptInt 524288) r2] @
                (if 0 < t then [EvSetsockopt h SO_SNDTIMEO (OptTimeval (t div 1000) (t mod 1000 * 1000)) r3,
                   EvSetsockopt h SO_RCVTIMEO (OptTimeval (t div 1000) (t mod 1000 * 1000)) r4] else []) @
                EvConnect h \<lparr>rc_family = AF_BLUETOOTH, rc_bdaddr = Bdaddr [b ! 5, b ! 4, b ! 3, b ! 2, b ! 1, b ! 0],
                  rc_channel = c\<rparr> 0 # post))"
  using client_connect_effect [OF assms]
  unfolding same_sdp_def Let_def timeout_events_values remote_address_bytes by (cases res) simp_all

theorem client_connect_correct_witness:
  "case client_connect sim_env (Address [1, 2, 3, 4, 5, 6]) 9 1500 (boot sim_start) of
     (None, _) \<Rightarrow> False | (Some s, m) \<Rightarrow> live_fds m = {#3#} \<and> socket_peer_channel s = 9"
proof -
  let ?r = "client_connect sim_env (Address [1, 2, 3, 4, 5, 6]) 9 1500 (boot sim_start)"
  obtain res m where r: "?r = (res, m)" by (metis prod.collapse)
  have "map_option socket_holds (fst ?r) = Some {#3#}" by code_simp
  with r obtain s where "res = Some s" "socket_holds s = {#3#}" by auto
  with client_connect_correct [OF r] r show ?thesis by simp
qed

text \<open>
  C8. \<open>connect_by_sdp\<close> on every path. A socket it returns is open, owns exactly the one new descriptor, and that
  descriptor was connected, after the lookup, to the requested device on the channel that the lookup found;
  when it returns nothing, no descriptor is held; either way the SDP session is closed. The one other path is
  the overflow of the lookup: there nothing is connected and the session stays open.
\<close>

theorem client_connect_by_sdp_correct:
  assumes "client_connect_by_sdp e a u t m = (res, m')"
  shows "fds_respected m' = fds_respected m \<and> published m' = published m
    \<and> (case res of
         Inl b \<Rightarrow> b = ArrayOutOfBounds \<and> fst (resolve_channel e a u m) = Inl ArrayOutOfBounds
           \<and> live_fds m' = live_fds m \<and> (\<exists>ses. live_sessions m' = add_mset ses (live_sessions m))
       | Inr None \<Rightarrow> live_fds m' = live_fds m \<and> live_sessions m' = live_sessions m
       | Inr (Some sock) \<Rightarrow> live_sessions m' = live_sessions m
           \<and> socket_valid sock \<and> socket_is_open sock \<and> live_fds m' = live_fds m + socket_holds sock
           \<and> socket_peer_address sock = a
           \<and> (\<exists>c mid post. let b = address_bytes a in fst (resolve_channel e a u m) = Inr (Some c)
                \<and> socket_peer_channel sock = c
                \<and> trace m' = trace (snd (resolve_channel e a u m)) @ EvSocket (socket_fd sock) # mid @
                    EvConnect (socket_fd sock) \<lparr>rc_family = AF_BLUETOOTH,
                      rc_bdaddr = Bdaddr [b ! 5, b ! 4, b ! 3, b ! 2, b ! 1, b ! 0], rc_channel = c\<rparr> 0 # post))"
proof -
  obtain r m1 where r: "resolve_channel e a u m = (r, m1)" by (metis prod.collapse)
  show ?thesis
  proof (cases r)
    case (Inl b)
    with assms r resolve_channel_error [of e a u m b m1] show ?thesis by (auto simp: client_connect_by_sdp_def)
  next
    case (Inr c)
    then obtain res1 where res: "res = Inr res1"
      using assms r by (cases c) (auto simp: client_connect_by_sdp_def split: prod.splits)
    note eff = client_connect_by_sdp_effect [OF assms [unfolded res]]
    show ?thesis
    proof (cases res1)
      case None
      with eff res show ?thesis by (simp add: same_sdp_def)
    next
      case (Some sock)
      have ch: "c = Some (socket_peer_channel sock)" using eff Some r Inr by simp
      then have "client_connect e a (socket_peer_channel sock) t m1 = (Some sock, m')"
        using assms r Inr res Some by (auto simp: client_connect_by_sdp_def split: prod.splits)
      from client_connect_effect [OF this] obtain r1 r2 r3 r4 post where
        "trace m' = trace m1 @ [EvSocket (socket_fd sock), EvSetsockopt (socket_fd sock) SO_SNDBUF (OptInt 524288) r1,
           EvSetsockopt (socket_fd sock) SO_RCVBUF (OptInt 524288) r2] @ timeout_events (socket_fd sock) t r3 r4 @
           EvConnect (socket_fd sock) (remote_address a (socket_peer_channel sock)) 0 # post"
        unfolding option.case Let_def by blast
      then have "\<exists>mid post. trace m' = trace m1 @ EvSocket (socket_fd sock) # mid @
          EvConnect (socket_fd sock) (remote_address a (socket_peer_channel sock)) 0 # post"
        by (intro exI [of _ "EvSetsockopt (socket_fd sock) SO_SNDBUF (OptInt 524288) r1 #
           EvSetsockopt (socket_fd sock) SO_RCVBUF (OptInt 524288) r2 # timeout_events (socket_fd sock) t r3 r4"] exI [of _ post]) simp
      with eff Some res r Inr ch show ?thesis
        by (simp add: same_sdp_def Let_def remote_address_bytes)
    qed
  qed
qed

theorem client_connect_by_sdp_correct_witness:
  "case client_connect_by_sdp sim_env address_any uuid_serial_port 0 (boot (sim_start\<lparr>sim_records := sample_records\<rparr>)) of
     (Inr (Some s), m) \<Rightarrow> live_fds m = {#3#} \<and> live_sessions m = {#} \<and> socket_peer_channel s = 9
   | _ \<Rightarrow> False"
proof -
  let ?r = "client_connect_by_sdp sim_env address_any uuid_serial_port 0 (boot (sim_start\<lparr>sim_records := sample_records\<rparr>))"
  have v: "map_sum id (map_option (\<lambda>s. (socket_fd s, socket_peer_channel s))) (fst ?r) = Inr (Some (3, 9))"
    by code_simp
  obtain x m where r: "?r = (x, m)" by (metis prod.collapse)
  with v obtain s where x: "x = Inr (Some s)" "socket_fd s = 3" "socket_peer_channel s = 9"
    by (cases x) auto
  from client_connect_by_sdp_correct [OF r] r x show ?thesis
    by (simp add: socket_holds_open)
qed

end
