(* ===== verification/Serial_Port.thy ===== *)
theory Serial_Port
  imports Client_Model
begin

text \<open>
  \<open>class SerialPort\<close> of \<open>src/serial_port.cpp\<close>: a serial-port interface over one socket, with a receive
  cache (\<open>rx_buf\<close> from index \<open>rx_head\<close> on) between the socket and the reading methods. The loops
  that the peer or the clock can keep running (\<open>read_line\<close>, the drain loop of \<open>purge\<close>) are partial
  functions whose value is \<open>None\<close> when they do not return.
\<close>

section \<open>Data\<close>

datatype baud_rate = Baud9600 | Baud19200 | Baud38400 | Baud57600 | Baud115200 | Baud230400
  | Baud460800 | Baud921600 | BaudMaximum

datatype data_bits = Bits7 | Bits8

datatype stop_bits = StopOne | StopTwo

datatype parity_mode = ParityNone | ParityOdd | ParityEven | ParityMark | ParitySpace

datatype flow_control = FlowNone | FlowRtsCts | FlowDtrDsr | FlowXonXoff

text \<open>\<open>enum class PurgeFlags : uint32_t\<close> with its operators \<open>|\<close> and \<open>&\<close>.\<close>

type_synonym purge_flags = u32

definition PurgeRx :: purge_flags where "PurgeRx = push_bit 0 1"
definition PurgeTx :: purge_flags where "PurgeTx = push_bit 1 1"
definition PurgeAll :: purge_flags where "PurgeAll = PurgeRx OR PurgeTx"

definition purge_or :: "purge_flags \<Rightarrow> purge_flags \<Rightarrow> purge_flags" where
  "purge_or a b = a OR b"

definition purge_has :: "purge_flags \<Rightarrow> purge_flags \<Rightarrow> bool" where
  "purge_has a b = (a AND b \<noteq> 0)"

text \<open>
  \<open>SerialPort::Impl\<close>. The class is the same text in both builds, over the \<open>Socket\<close> of the build, so the type of
  sockets is a parameter. Timeouts are in milliseconds.
\<close>

record 's serial_impl_of =
  ser_sock :: "'s option"
  ser_baud :: baud_rate
  ser_data_bits :: data_bits
  ser_stop_bits :: stop_bits
  ser_parity :: parity_mode
  ser_flow_control :: flow_control
  read_timeout :: int
  write_timeout :: int
  ser_dtr :: bool
  ser_rts :: bool
  ser_cts :: bool
  ser_dsr :: bool
  rx_buf :: "u8 list"
  rx_head :: nat

datatype 's serial_port_of = SerialPort (serial_pimpl: "'s serial_impl_of option")

type_synonym serial_impl = "socket serial_impl_of"
type_synonym serial_port = "socket serial_port_of"

definition serial_impl_default :: "'s serial_impl_of" where
  "serial_impl_default =
     \<lparr>ser_sock = None, ser_baud = Baud115200, ser_data_bits = Bits8, ser_stop_bits = StopOne,
      ser_parity = ParityNone, ser_flow_control = FlowNone, read_timeout = 5000, write_timeout = 5000,
      ser_dtr = True, ser_rts = True, ser_cts = True, ser_dsr = True, rx_buf = [], rx_head = 0\<rparr>"

section \<open>The receive cache\<close>

definition clear_rx_cache :: "'s serial_impl_of \<Rightarrow> 's serial_impl_of" where
  "clear_rx_cache im = im\<lparr>rx_buf := [], rx_head := 0\<rparr>"

definition cached_bytes_available :: "'s serial_impl_of \<Rightarrow> nat" where
  "cached_bytes_available im = length (rx_buf im) - rx_head im"

text \<open>A zeroed \<open>std::vector<uint8_t>(4096)\<close>, the temporary buffer of the refill and of \<open>purge\<close>.\<close>

definition chunk_4096 :: "u8 list" where
  "chunk_4096 = replicate 4096 0"

definition refill_rx_cache ::
  "'w env \<Rightarrow> serial_impl \<Rightarrow> 'w machine \<Rightarrow> (bool \<times> serial_impl) \<times> 'w machine" where
  "refill_rx_cache e im m =
     (case ser_sock im of
        None \<Rightarrow> ((False, im), m)
      | Some s \<Rightarrow>
          if \<not> socket_is_open s then ((False, im), m)
          else
            let im = (if length (rx_buf im) \<le> rx_head im then clear_rx_cache im else im);
                ((r, chunk), m) = socket_recv e s chunk_4096 m
            in if r \<le> 0 then ((False, im), m)
               else
                 let im = (if 0 < rx_head im then im\<lparr>rx_buf := drop (rx_head im) (rx_buf im), rx_head := 0\<rparr>
                           else im)
                 in ((True, im\<lparr>rx_buf := rx_buf im @ take (nat r) chunk\<rparr>), m))"

section \<open>Construction, destruction, moves\<close>

definition serial_new :: "'s serial_port_of" where
  "serial_new = SerialPort (Some serial_impl_default)"

definition serial_destroy :: "'w env \<Rightarrow> serial_port \<Rightarrow> 'w machine \<Rightarrow> 'w machine" where
  "serial_destroy e p m =
     (case serial_pimpl p of None \<Rightarrow> m
      | Some im \<Rightarrow> (case ser_sock im of None \<Rightarrow> m | Some s \<Rightarrow> socket_destroy e s m))"

definition serial_move :: "'s serial_port_of \<Rightarrow> 's serial_port_of \<times> 's serial_port_of" where
  "serial_move other = (SerialPort (serial_pimpl other), SerialPort None)"

definition serial_move_assign ::
  "'w env \<Rightarrow> serial_port \<Rightarrow> serial_port \<Rightarrow> 'w machine \<Rightarrow> (serial_port \<times> serial_port) \<times> 'w machine" where
  "serial_move_assign e dst other m =
     ((SerialPort (serial_pimpl other), SerialPort None), serial_destroy e dst m)"

section \<open>Opening and closing\<close>

definition serial_close :: "'w env \<Rightarrow> serial_port \<Rightarrow> 'w machine \<Rightarrow> serial_port \<times> 'w machine" where
  "serial_close e p m =
     (case serial_pimpl p of
        None \<Rightarrow> (p, m)
      | Some im \<Rightarrow>
          let im = clear_rx_cache im in
          (case ser_sock im of
             None \<Rightarrow> (SerialPort (Some im), m)
           | Some s \<Rightarrow>
               let (s, m) = socket_close e s m
               in (SerialPort (Some (im\<lparr>ser_sock := None\<rparr>)), socket_destroy e s m)))"

definition serial_is_open :: "serial_port \<Rightarrow> bool" where
  "serial_is_open p =
     (case serial_pimpl p of None \<Rightarrow> False
      | Some im \<Rightarrow> (case ser_sock im of None \<Rightarrow> False | Some s \<Rightarrow> socket_is_open s))"

text \<open>
  What \<open>open\<close>, \<open>open_by_uuid\<close> and \<open>attach\<close> have in common: the new socket, if any, becomes the
  port's, and gets the port's timeouts. The port has just been closed, so it holds no other socket;
  with a null \<open>pimpl_\<close> the assignment dereferences it.
\<close>

definition serial_adopt ::
  "'w env \<Rightarrow> socket option \<Rightarrow> serial_port \<Rightarrow> 'w machine \<Rightarrow> ((ub + bool) \<times> serial_port) \<times> 'w machine" where
  "serial_adopt e new_sock p m =
     (case serial_pimpl p of
        None \<Rightarrow> ((Inl NullDereference, p), m)
      | Some im \<Rightarrow>
          let im = im\<lparr>ser_sock := new_sock\<rparr> in
          (case new_sock of
             None \<Rightarrow> ((Inr False, SerialPort (Some im)), m)
           | Some s \<Rightarrow>
               let (_, m) = socket_set_timeouts e s (write_timeout im) (read_timeout im) m
               in ((Inr True, SerialPort (Some im)), m)))"

definition serial_open ::
  "'w env \<Rightarrow> serial_port \<Rightarrow> address \<Rightarrow> u8 \<Rightarrow> int \<Rightarrow> 'w machine \<Rightarrow>
     ((ub + bool) \<times> serial_port) \<times> 'w machine" where
  "serial_open e p addr channel timeout m =
     (let (p, m) = serial_close e p m;
          (s, m) = client_connect e addr channel timeout m
      in serial_adopt e s p m)"

definition serial_open_mac ::
  "'w env \<Rightarrow> serial_port \<Rightarrow> string \<Rightarrow> u8 \<Rightarrow> int \<Rightarrow> 'w machine \<Rightarrow>
     ((ub + bool) \<times> serial_port) \<times> 'w machine" where
  "serial_open_mac e p mac channel timeout m =
     (case address_try_parse mac of
        None \<Rightarrow> ((Inr False, p), m)
      | Some addr \<Rightarrow> serial_open e p addr channel timeout m)"

definition serial_open_by_uuid ::
  "'w env \<Rightarrow> serial_port \<Rightarrow> address \<Rightarrow> uuid \<Rightarrow> int \<Rightarrow> 'w machine \<Rightarrow>
     ((ub + bool) \<times> serial_port) \<times> 'w machine" where
  "serial_open_by_uuid e p addr u timeout m =
     (let (p, m) = serial_close e p m in
      case client_connect_by_sdp e addr u timeout m of
        (Inl b, m) \<Rightarrow> ((Inl b, p), m)
      | (Inr s, m) \<Rightarrow> serial_adopt e s p m)"

definition serial_open_by_uuid_text ::
  "'w env \<Rightarrow> serial_port \<Rightarrow> string \<Rightarrow> string \<Rightarrow> int \<Rightarrow> 'w machine \<Rightarrow>
     ((ub + bool) \<times> serial_port) \<times> 'w machine" where
  "serial_open_by_uuid_text e p mac uuid_str timeout m =
     (case address_try_parse mac of
        None \<Rightarrow> ((Inr False, p), m)
      | Some addr \<Rightarrow>
          (case uuid_try_parse uuid_str of
             None \<Rightarrow> ((Inr False, p), m)
           | Some u \<Rightarrow> serial_open_by_uuid e p addr u timeout m))"

text \<open>\<open>attach\<close> takes the socket over; one that it refuses is destroyed on return.\<close>

definition serial_attach ::
  "'w env \<Rightarrow> serial_port \<Rightarrow> socket option \<Rightarrow> 'w machine \<Rightarrow>
     ((ub + bool) \<times> serial_port) \<times> 'w machine" where
  "serial_attach e p new_sock m =
     (let (p, m) = serial_close e p m in
      case new_sock of
        None \<Rightarrow> ((Inr False, p), m)
      | Some s \<Rightarrow>
          if \<not> socket_is_open s then ((Inr False, p), socket_destroy e s m)
          else serial_adopt e (Some s) p m)"

section \<open>Settings\<close>

definition map_serial ::
  "('s serial_impl_of \<Rightarrow> 's serial_impl_of) \<Rightarrow> 's serial_port_of \<Rightarrow> 's serial_port_of" where
  "map_serial f p = SerialPort (map_option f (serial_pimpl p))"

definition serial_set_baud_rate :: "baud_rate \<Rightarrow> 's serial_port_of \<Rightarrow> 's serial_port_of" where
  "serial_set_baud_rate b p = map_serial (\<lambda>im. im\<lparr>ser_baud := b\<rparr>) p"

definition serial_baud_rate :: "'s serial_port_of \<Rightarrow> baud_rate" where
  "serial_baud_rate p = (case serial_pimpl p of None \<Rightarrow> Baud115200 | Some im \<Rightarrow> ser_baud im)"

definition serial_set_data_characteristics ::
  "data_bits \<Rightarrow> stop_bits \<Rightarrow> parity_mode \<Rightarrow> 's serial_port_of \<Rightarrow> 's serial_port_of" where
  "serial_set_data_characteristics d s y p =
     map_serial (\<lambda>im. im\<lparr>ser_data_bits := d, ser_stop_bits := s, ser_parity := y\<rparr>) p"

definition serial_set_flow_control :: "flow_control \<Rightarrow> 's serial_port_of \<Rightarrow> 's serial_port_of" where
  "serial_set_flow_control f p = map_serial (\<lambda>im. im\<lparr>ser_flow_control := f\<rparr>) p"

definition serial_set_dtr :: "bool \<Rightarrow> 's serial_port_of \<Rightarrow> 's serial_port_of" where
  "serial_set_dtr x p = map_serial (\<lambda>im. im\<lparr>ser_dtr := x\<rparr>) p"

definition serial_set_rts :: "bool \<Rightarrow> 's serial_port_of \<Rightarrow> 's serial_port_of" where
  "serial_set_rts x p = map_serial (\<lambda>im. im\<lparr>ser_rts := x\<rparr>) p"

definition serial_get_cts :: "'s serial_port_of \<Rightarrow> bool" where
  "serial_get_cts p = (case serial_pimpl p of None \<Rightarrow> True | Some im \<Rightarrow> ser_cts im)"

definition serial_get_dsr :: "'s serial_port_of \<Rightarrow> bool" where
  "serial_get_dsr p = (case serial_pimpl p of None \<Rightarrow> True | Some im \<Rightarrow> ser_dsr im)"

definition serial_set_timeouts ::
  "'w env \<Rightarrow> serial_port \<Rightarrow> int \<Rightarrow> int \<Rightarrow> 'w machine \<Rightarrow> serial_port \<times> 'w machine" where
  "serial_set_timeouts e p rt wt m =
     (case serial_pimpl p of
        None \<Rightarrow> (p, m)
      | Some im \<Rightarrow>
          let im = im\<lparr>read_timeout := rt, write_timeout := wt\<rparr> in
          (case ser_sock im of
             None \<Rightarrow> (SerialPort (Some im), m)
           | Some s \<Rightarrow>
               let (_, m) = socket_set_timeouts e s wt rt m in (SerialPort (Some im), m)))"

definition serial_underlying_socket :: "'s serial_port_of \<Rightarrow> 's option" where
  "serial_underlying_socket p = (case serial_pimpl p of None \<Rightarrow> None | Some im \<Rightarrow> ser_sock im)"

definition serial_peer_address :: "serial_port \<Rightarrow> address" where
  "serial_peer_address p =
     (case serial_underlying_socket p of None \<Rightarrow> address_any | Some s \<Rightarrow> socket_peer_address s)"

definition serial_peer_channel :: "serial_port \<Rightarrow> u8" where
  "serial_peer_channel p =
     (case serial_underlying_socket p of None \<Rightarrow> 0 | Some s \<Rightarrow> socket_peer_channel s)"

end
