(* ===== verification/Serial_Io.thy ===== *)
theory Serial_Io
  imports Serial_Port
begin

text \<open>
  The input and output methods of \<open>SerialPort\<close>. They all start with \<open>is_open()\<close>, so an open port
  is taken apart once, into its \<open>Impl\<close> and its socket.
\<close>

definition serial_parts :: "serial_port \<Rightarrow> (serial_impl \<times> socket) option" where
  "serial_parts p =
     (case serial_pimpl p of None \<Rightarrow> None
      | Some im \<Rightarrow> (case ser_sock im of None \<Rightarrow> None
                   | Some s \<Rightarrow> if socket_is_open s then Some (im, s) else None))"

section \<open>Reading\<close>

definition serial_read ::
  "'w env \<Rightarrow> serial_port \<Rightarrow> u8 list \<Rightarrow> 'w machine \<Rightarrow> ((nat \<times> u8 list) \<times> serial_port) \<times> 'w machine" where
  "serial_read e p buffer m =
     (case serial_parts p of
        None \<Rightarrow> (((0, buffer), p), m)
      | Some (im, s) \<Rightarrow>
          if buffer = [] then (((0, buffer), p), m)
          else
            let available = cached_bytes_available im;
                to_copy = min available (length buffer);
                (copied, buffer, im) =
                  (if 0 < available then
                     (to_copy, overlay (take to_copy (drop (rx_head im) (rx_buf im))) buffer,
                      im\<lparr>rx_head := rx_head im + to_copy\<rparr>)
                   else (0, buffer, im));
                p = SerialPort (Some im)
            in if 0 < available \<and> copied = length buffer then (((copied, buffer), p), m)
               else
                 let ((r, chunk), m) = socket_recv e s (drop copied buffer) m
                 in (((if 0 < r then copied + nat r else copied, write_tail copied chunk buffer), p), m))"

lemma length_serial_read [shape_facts]:
  "serial_read e p buf m = (((n, buf'), p'), m') \<Longrightarrow> length buf' = length buf"
  by (auto simp: serial_read_def Let_def cached_bytes_available_def overlay_def write_tail_def
      dest!: length_socket_recv split: option.splits if_splits prod.splits)

function serial_read_exact_loop ::
  "'w env \<Rightarrow> serial_port \<Rightarrow> u8 list \<Rightarrow> nat \<Rightarrow> 'w machine \<Rightarrow> ((bool \<times> u8 list) \<times> serial_port) \<times> 'w machine" where
  "serial_read_exact_loop e p buffer got m =
     (if got < length buffer then
        let (((n, sub), p), m) = serial_read e p (drop got buffer) m;
            buffer' = write_tail got sub buffer
        in if n = 0 then (((False, buffer'), p), m)
           else serial_read_exact_loop e p buffer' (got + n) m
      else (((True, buffer), p), m))"
  by pat_completeness auto
termination
  by (relation "measure (\<lambda>(e, p, buffer, got, m). length buffer - got)")
    (auto simp: write_tail_def dest!: sym [of "(((_, _), _), _)"] length_serial_read)

declare serial_read_exact_loop.simps [simp del]

definition serial_read_exact ::
  "'w env \<Rightarrow> serial_port \<Rightarrow> u8 list \<Rightarrow> 'w machine \<Rightarrow> ((bool \<times> u8 list) \<times> serial_port) \<times> 'w machine" where
  "serial_read_exact e p buffer m = serial_read_exact_loop e p buffer 0 m"

definition serial_read_byte ::
  "'w env \<Rightarrow> serial_port \<Rightarrow> 'w machine \<Rightarrow> (u8 option \<times> serial_port) \<times> 'w machine" where
  "serial_read_byte e p m =
     (case serial_parts p of
        None \<Rightarrow> ((None, p), m)
      | Some (im, s) \<Rightarrow>
          let ((ok, im), m) =
                (if cached_bytes_available im = 0 then refill_rx_cache e im m else ((True, im), m))
          in if \<not> ok then ((None, SerialPort (Some im)), m)
             else if 0 < cached_bytes_available im then
               ((Some (rx_buf im ! rx_head im), SerialPort (Some (im\<lparr>rx_head := rx_head im + 1\<rparr>))), m)
             else ((None, SerialPort (Some im)), m))"

section \<open>Lines\<close>

definition CR :: char where
  "CR = CHR 0x0D"

definition strip_cr :: "string \<Rightarrow> string" where
  "strip_cr line = (if line \<noteq> [] \<and> last line = CR then butlast line else line)"

text \<open>The inner loop: takes characters from the cache up to the delimiter or to the end of the cache.\<close>

function scan_line :: "char \<Rightarrow> 's serial_impl_of \<Rightarrow> string \<Rightarrow> (bool \<times> string) \<times> 's serial_impl_of" where
  "scan_line delimiter im line =
     (if 0 < cached_bytes_available im then
        let c = char_of_byte (rx_buf im ! rx_head im);
            im = im\<lparr>rx_head := rx_head im + 1\<rparr>
        in if c = delimiter then ((True, strip_cr line), im)
           else scan_line delimiter im (line @ [c])
      else ((False, line), im))"
  by pat_completeness auto
termination
  by (relation "measure (\<lambda>(d, im, l). cached_bytes_available im)") (auto simp: cached_bytes_available_def)

declare scan_line.simps [simp del]

text \<open>\<open>now - start >= timeout\<close>, with \<open>start\<close> and \<open>now\<close> in nanoseconds.\<close>

definition timed_out :: "int \<Rightarrow> int \<Rightarrow> int \<Rightarrow> bool" where
  "timed_out start now timeout = (timeout * 1000000 \<le> now - start)"

lemma scan_line_sock: "scan_line d im line = (r, im') \<Longrightarrow> ser_sock im' = ser_sock im"
proof (induction d im line rule: scan_line.induct)
  case (1 d im line)
  then show ?case by (auto simp: scan_line.simps [of d im line] Let_def split: if_splits)
qed

partial_function (option) read_line_loop ::
  "'w env \<Rightarrow> char \<Rightarrow> int \<Rightarrow> int \<Rightarrow> serial_impl \<Rightarrow> string \<Rightarrow> 'w machine \<Rightarrow>
     ((string \<times> serial_impl) \<times> 'w machine) option" where
  "read_line_loop e delimiter timeout start im line m =
     (let ((found, line), im) = scan_line delimiter im line
      in if found then Some ((line, im), m)
         else
           let (expired, m) =
                 (if 0 < timeout then
                    let (now, m) = sys_now e m in (timed_out start now timeout, m)
                  else (False, m))
           in if expired then Some ((line, im), m)
              else
                let ((ok, im), m) = refill_rx_cache e im m
                in if \<not> ok then Some ((line, im), m)
                   else read_line_loop e delimiter timeout start im line m)"

declare read_line_loop.simps [code]

definition serial_read_line ::
  "'w env \<Rightarrow> serial_port \<Rightarrow> char \<Rightarrow> int \<Rightarrow> 'w machine \<Rightarrow> ((string \<times> serial_port) \<times> 'w machine) option" where
  "serial_read_line e p delimiter timeout m =
     (case serial_parts p of
        None \<Rightarrow> Some (([], p), m)
      | Some (im, s) \<Rightarrow>
          let (start, m) = sys_now e m
          in map_option (\<lambda>((line, im), m). ((line, SerialPort (Some im)), m))
               (read_line_loop e delimiter timeout start im [] m))"

section \<open>Writing\<close>

definition serial_write :: "'w env \<Rightarrow> serial_port \<Rightarrow> u8 list \<Rightarrow> 'w machine \<Rightarrow> nat \<times> 'w machine" where
  "serial_write e p data m =
     (case serial_parts p of
        None \<Rightarrow> (0, m)
      | Some (im, s) \<Rightarrow>
          if data = [] then (0, m)
          else let (sent, m) = socket_send e s data m in (if 0 < sent then nat sent else 0, m))"

definition serial_write_text :: "'w env \<Rightarrow> serial_port \<Rightarrow> string \<Rightarrow> 'w machine \<Rightarrow> nat \<times> 'w machine" where
  "serial_write_text e p text m = serial_write e p (map byte_of_char text) m"

definition serial_write_byte :: "'w env \<Rightarrow> serial_port \<Rightarrow> u8 \<Rightarrow> 'w machine \<Rightarrow> bool \<times> 'w machine" where
  "serial_write_byte e p b m = (let (n, m) = serial_write e p [b] m in (n = 1, m))"

definition serial_write_line ::
  "'w env \<Rightarrow> serial_port \<Rightarrow> string \<Rightarrow> string \<Rightarrow> 'w machine \<Rightarrow> bool \<times> 'w machine" where
  "serial_write_line e p line eol m =
     (case serial_parts p of
        None \<Rightarrow> (False, m)
      | Some (im, s) \<Rightarrow> socket_send_all e s (map byte_of_char (line @ eol)) m)"

text \<open>\<open>flush\<close> has an empty body.\<close>

definition serial_flush :: "serial_port \<Rightarrow> 'w machine \<Rightarrow> serial_port \<times> 'w machine" where
  "serial_flush p m = (p, m)"

section \<open>Queue status and purge\<close>

text \<open>
  \<open>FIONREAD\<close> stores an \<open>int\<close> at the start of the zero-initialised \<open>unsigned long\<close>: on the
  little-endian, 64-bit platforms of the library that is its low half.
\<close>

definition serial_get_rx_queue_status :: "'w env \<Rightarrow> serial_port \<Rightarrow> 'w machine \<Rightarrow> u64 \<times> 'w machine" where
  "serial_get_rx_queue_status e p m =
     (case serial_parts p of
        None \<Rightarrow> (0, m)
      | Some (im, s) \<Rightarrow>
          let in_cache = word_of_nat (cached_bytes_available im);
              (pending, m) = sys_fionread e (uintptr_to_handle (socket_native_handle s)) m;
              socket_pending = (case pending of None \<Rightarrow> 0 | Some n \<Rightarrow> ucast n)
          in (in_cache + socket_pending, m))"

partial_function (option) drain_loop ::
  "'w env \<Rightarrow> socket \<Rightarrow> u8 list \<Rightarrow> 'w machine \<Rightarrow> 'w machine option" where
  "drain_loop e s drain_buf m =
     (let ((r, drain_buf), m) = socket_recv e s drain_buf m
      in if 0 < r then drain_loop e s drain_buf m else Some m)"

declare drain_loop.simps [code]

definition serial_purge ::
  "'w env \<Rightarrow> serial_port \<Rightarrow> purge_flags \<Rightarrow> 'w machine \<Rightarrow> (serial_port \<times> 'w machine) option" where
  "serial_purge e p flags m =
     (case serial_pimpl p of
        None \<Rightarrow> Some (p, m)
      | Some im \<Rightarrow>
          if purge_has flags PurgeRx then
            let im = clear_rx_cache im in
            (case ser_sock im of
               None \<Rightarrow> Some (SerialPort (Some im), m)
             | Some s \<Rightarrow>
                 let (_, m) = socket_set_blocking e s False m
                 in (case drain_loop e s chunk_4096 m of
                       None \<Rightarrow> None
                     | Some m \<Rightarrow>
                         let (_, m) = socket_set_blocking e s True m
                         in Some (SerialPort (Some im), m)))
          else Some (p, m))"

end
