(* ===== verification/Serial_Cache.thy ===== *)
theory Serial_Cache
  imports Serial_Io "HOL-Library.Sublist"
begin

text \<open>
  The receive cache is transparent: what the reading methods of \<open>SerialPort\<close> hand out is exactly the
  byte stream of the socket, in order, with nothing lost or repeated, whichever methods are mixed.
  \<open>consumed\<close> is the part of the stream that has been handed out; the cache is the rest of what has
  arrived.
\<close>

section \<open>The cache as a suffix of the stream\<close>

definition im_cache :: "'s serial_impl_of \<Rightarrow> u8 list" where
  "im_cache im = drop (rx_head im) (rx_buf im)"

definition serial_cache :: "'s serial_port_of \<Rightarrow> u8 list" where
  "serial_cache p = (case serial_pimpl p of None \<Rightarrow> [] | Some im \<Rightarrow> im_cache im)"

definition serial_fd :: "serial_port \<Rightarrow> handle" where
  "serial_fd p =
     (case serial_underlying_socket p of None \<Rightarrow> INVALID_SOCKET_HANDLE | Some s \<Rightarrow> socket_fd s)"

definition head_in_bounds :: "'s serial_port_of \<Rightarrow> bool" where
  "head_in_bounds p = (case serial_pimpl p of None \<Rightarrow> True | Some im \<Rightarrow> rx_head im \<le> length (rx_buf im))"

text \<open>The invariant of an open port.\<close>

definition cache_sound :: "serial_port \<Rightarrow> 'w machine \<Rightarrow> bool" where
  "cache_sound p m \<longleftrightarrow> serial_is_open p \<and> head_in_bounds p \<and> suffix (serial_cache p) (arrived (serial_fd p) m)"

definition consumed :: "serial_port \<Rightarrow> 'w machine \<Rightarrow> u8 list" where
  "consumed p m =
     (let a = arrived (serial_fd p) m in take (length a - length (serial_cache p)) a)"

lemma consumed_append: "cache_sound p m \<Longrightarrow> consumed p m @ serial_cache p = arrived (serial_fd p) m"
  by (auto simp: cache_sound_def consumed_def suffix_def)

lemma consumedI:
  "serial_is_open p \<Longrightarrow> head_in_bounds p \<Longrightarrow> arrived (serial_fd p) m = xs @ serial_cache p \<Longrightarrow>
     cache_sound p m \<and> consumed p m = xs"
  by (auto simp: cache_sound_def consumed_def suffix_def)

lemma cached_bytes_cache [simp]: "cached_bytes_available im = length (im_cache im)"
  by (simp add: cached_bytes_available_def im_cache_def)

text \<open>An open port in terms of its parts.\<close>

lemma serial_parts_open:
  "serial_parts p = Some (im, s) \<longleftrightarrow> p = SerialPort (Some im) \<and> ser_sock im = Some s \<and> socket_is_open s"
  by (cases p) (auto simp: serial_parts_def split: option.splits)

lemma serial_parts_closed: "serial_parts p = None \<longleftrightarrow> \<not> serial_is_open p"
  by (auto simp: serial_parts_def serial_is_open_def split: option.splits)

lemma serial_open_cases:
  assumes "serial_is_open p"
  obtains im s where "p = SerialPort (Some im)" "ser_sock im = Some s" "socket_is_open s"
    "serial_parts p = Some (im, s)"
  using assms by (cases "serial_parts p") (auto simp: serial_parts_open serial_parts_closed)

lemma serial_of_impl [simp]:
  "serial_cache (SerialPort (Some im)) = im_cache im"
  "head_in_bounds (SerialPort (Some im)) \<longleftrightarrow> rx_head im \<le> length (rx_buf im)"
  "serial_underlying_socket (SerialPort (Some im)) = ser_sock im"
  "ser_sock im = Some s \<Longrightarrow> serial_fd (SerialPort (Some im)) = socket_fd s"
  "ser_sock im = Some s \<Longrightarrow> serial_is_open (SerialPort (Some im)) \<longleftrightarrow> socket_is_open s"
  by (simp_all add: serial_cache_def head_in_bounds_def serial_underlying_socket_def serial_fd_def
      serial_is_open_def)

lemma im_cache_step:
  "im_cache im \<noteq> [] \<Longrightarrow> im_cache im = (rx_buf im ! rx_head im) # im_cache (im\<lparr>rx_head := rx_head im + 1\<rparr>)"
  by (simp add: im_cache_def Cons_nth_drop_Suc)

lemma im_cache_nonempty: "im_cache im \<noteq> [] \<longleftrightarrow> rx_head im < length (rx_buf im)"
  by (auto simp: im_cache_def)

section \<open>Refilling\<close>

lemma refill_effect:
  assumes "recv_bounded e" "ser_sock im = Some s" "socket_is_open s" "rx_head im \<le> length (rx_buf im)"
    and "refill_rx_cache e im m = ((ok, im'), m')"
  shows "ser_sock im' = Some s \<and> rx_head im' \<le> length (rx_buf im') \<and> via s m m'
    \<and> (\<exists>new. im_cache im' = im_cache im @ new \<and> arrived (socket_fd s) m' = arrived (socket_fd s) m @ new
         \<and> (ok \<longleftrightarrow> new \<noteq> []))"
proof -
  obtain r chunk m1 where k: "socket_recv e s chunk_4096 m = ((r, chunk), m1)"
    by (metis prod.collapse)
  note eff = socket_recv_effect [OF assms(1) k]
  have new: "take (nat r) chunk \<noteq> [] \<longleftrightarrow> 0 < r" using eff by auto
  have "m' = m1" "ok \<longleftrightarrow> 0 < r"
    using assms(2,3,5) k by (auto simp: refill_rx_cache_def Let_def split: if_splits)
  moreover have "ser_sock im' = Some s" "rx_head im' \<le> length (rx_buf im')"
    using assms(2-5) k by (auto simp: refill_rx_cache_def clear_rx_cache_def Let_def split: if_splits)
  moreover have "im_cache im' = im_cache im @ (if 0 < r then take (nat r) chunk else [])"
    using assms(2-5) k
    by (auto simp: refill_rx_cache_def clear_rx_cache_def im_cache_def Let_def split: if_splits)
  moreover have "arrived (socket_fd s) m1 = arrived (socket_fd s) m @ (if 0 < r then take (nat r) chunk else [])"
    using eff by auto
  ultimately show ?thesis using via_recv [OF k] new by auto
qed

section \<open>\<open>read\<close> as a partial reader\<close>

lemma serial_read_effect:
  assumes "recv_bounded e" "cache_sound p m" "serial_read e p buf m = (((n, buf'), p'), m')"
  shows "cache_sound p' m' \<and> serial_underlying_socket p' = serial_underlying_socket p
    \<and> n \<le> length buf \<and> length buf' = length buf \<and> drop n buf' = drop n buf
    \<and> consumed p' m' = consumed p m @ take n buf'"
proof -
  have "serial_is_open p" using assms(2) by (simp add: cache_sound_def)
  then obtain im s where p: "p = SerialPort (Some im)" "ser_sock im = Some s" "socket_is_open s"
    "serial_parts p = Some (im, s)" by (rule serial_open_cases)
  let ?k = "min (length (im_cache im)) (length buf)"
  let ?im = "im\<lparr>rx_head := rx_head im + ?k\<rparr>"
  let ?b = "overlay (take ?k (im_cache im)) buf"
  have head: "rx_head im \<le> length (rx_buf im)" using assms(2) p by (simp add: cache_sound_def)
  have str: "arrived (socket_fd s) m = consumed p m @ im_cache im"
    using consumed_append [OF assms(2)] p by simp
  have cache': "im_cache ?im = drop ?k (im_cache im)" by (simp add: im_cache_def add.commute)
  have head': "rx_head ?im \<le> length (rx_buf ?im)" using head by (simp add: im_cache_def)
  have ov: "length ?b = length buf" "take ?k ?b = take ?k (im_cache im)" "drop ?k ?b = drop ?k buf"
    by (simp_all add: overlay_def)
  show ?thesis
  proof (cases "buf = [] \<or> (im_cache im \<noteq> [] \<and> ?k = length buf)")
    case True
    then have r: "n = ?k \<and> buf' = ?b \<and> p' = SerialPort (Some ?im) \<and> m' = m"
      using assms(3) p by (auto simp: serial_read_def Let_def im_cache_def split: if_splits)
    have "arrived (socket_fd s) m = (consumed p m @ take ?k (im_cache im)) @ im_cache ?im"
      using str cache' by simp
    then have "cache_sound p' m' \<and> consumed p' m' = consumed p m @ take ?k (im_cache im)"
      using r p head' by (intro consumedI) simp_all
    with r ov p show ?thesis by simp
  next
    case False
    obtain q chunk m1 where k: "socket_recv e s (drop ?k buf) m = ((q, chunk), m1)"
      by (metis prod.collapse)
    note eff = socket_recv_effect [OF assms(1) k]
    have r: "n = ?k + nat q \<and> buf' = write_tail ?k chunk ?b \<and> p' = SerialPort (Some ?im) \<and> m' = m1"
      using assms(3) p False k ov(3)
      by (auto simp: serial_read_def Let_def im_cache_def split: if_splits)
    have whole: "?k = length (im_cache im)" using False by auto
    have b': "buf' = im_cache im @ chunk" using r ov(2) whole by (simp add: write_tail_def)
    have fits: "n \<le> length buf" using r eff by auto
    have "length buf' = length buf" using b' eff whole by auto
    moreover have "drop n buf' = drop n buf"
      using b' r eff whole by (simp add: add.commute flip: drop_drop)
    moreover have out: "take n buf' = im_cache im @ take (nat q) chunk" using b' r whole by simp
    moreover have "arrived (socket_fd s) m1 = (consumed p m @ take n buf') @ im_cache ?im"
      using str cache' eff whole out by simp
    then have "cache_sound p' m' \<and> consumed p' m' = consumed p m @ take n buf'"
      using r p head' by (intro consumedI) simp_all
    ultimately show ?thesis using fits r p by simp
  qed
qed

type_synonym 'w serial_link = "'w env \<times> serial_port \<times> 'w machine"

definition serial_link_read :: "'w serial_link \<Rightarrow> u8 list \<Rightarrow> (nat \<times> u8 list) \<times> 'w serial_link" where
  "serial_link_read = (\<lambda>(e, p, m) buf.
     case serial_read e p buf m of (((n, b), p'), m') \<Rightarrow> ((n, b), (e, p', m')))"

definition serial_link_log :: "'w serial_link \<Rightarrow> u8 list" where
  "serial_link_log = (\<lambda>(e, p, m). consumed p m)"

definition serial_link_ok :: "'w serial_link \<Rightarrow> bool" where
  "serial_link_ok = (\<lambda>(e, p, m). recv_bounded e \<and> cache_sound p m)"

definition serial_link_fill :: "'w serial_link \<Rightarrow> u8 list \<Rightarrow> nat \<Rightarrow> (bool \<times> u8 list) \<times> 'w serial_link" where
  "serial_link_fill = (\<lambda>(e, p, m) buf done.
     case serial_read_exact_loop e p buf done m of (((ok, b), p'), m') \<Rightarrow> ((ok, b), (e, p', m')))"

interpretation serial_fill: fill_loop serial_link_read serial_link_log serial_link_ok "\<lambda>_. True" serial_link_fill
proof
  fix c c' :: "'w serial_link" and buf buf' n
  obtain e p m where c: "c = (e, p, m)" by (cases c)
  assume ok: "serial_link_ok c" and rd: "serial_link_read c buf = ((n, buf'), c')"
  then obtain p' m' where r: "serial_read e p buf m = (((n, buf'), p'), m')" "c' = (e, p', m')"
    by (auto simp: serial_link_read_def c split: prod.splits)
  have "recv_bounded e" "cache_sound p m" using ok by (simp_all add: serial_link_ok_def c)
  note eff = serial_read_effect [OF this r(1)]
  show "serial_link_ok c'" using ok eff r by (simp add: serial_link_ok_def c)
  show "n \<le> length buf \<and> length buf' = length buf \<and> drop n buf' = drop n buf" using eff by simp
  show "serial_link_log c' = serial_link_log c @ take n buf'" using eff r by (simp add: serial_link_log_def c)
next
  fix c :: "'w serial_link" and buf "done"
  obtain e p m where c: "c = (e, p, m)" by (cases c)
  show "serial_link_fill c buf done =
    (if done < length buf then
       let ((n, chunk), c') = serial_link_read c (drop done buf); buf' = write_tail done chunk buf
       in if n = 0 then ((False, buf'), c') else serial_link_fill c' buf' (done + n)
     else ((True, buf), c))"
    by (auto simp: c serial_link_fill_def serial_link_read_def Let_def
        serial_read_exact_loop.simps [of e p buf "done" m] split: prod.splits)
qed simp

section \<open>Single bytes\<close>

lemma serial_read_byte_effect:
  assumes "recv_bounded e" "cache_sound p m" "serial_read_byte e p m = ((res, p'), m')"
  shows "cache_sound p' m' \<and> serial_underlying_socket p' = serial_underlying_socket p
    \<and> consumed p' m' = consumed p m @ (case res of None \<Rightarrow> [] | Some b \<Rightarrow> [b])
    \<and> (res = None \<longrightarrow> serial_cache p' = [])"
proof -
  have "serial_is_open p" using assms(2) by (simp add: cache_sound_def)
  then obtain im s where p: "p = SerialPort (Some im)" "ser_sock im = Some s" "socket_is_open s"
    "serial_parts p = Some (im, s)" by (rule serial_open_cases)
  have head: "rx_head im \<le> length (rx_buf im)" using assms(2) p by (simp add: cache_sound_def)
  have str: "arrived (socket_fd s) m = consumed p m @ im_cache im"
    using consumed_append [OF assms(2)] p by simp
  obtain ok im1 m1 where f: "(if im_cache im = [] then refill_rx_cache e im m else ((True, im), m)) = ((ok, im1), m1)"
    by (metis prod.collapse)
  have f1: "ser_sock im1 = Some s \<and> rx_head im1 \<le> length (rx_buf im1)
    \<and> arrived (socket_fd s) m1 = consumed p m @ im_cache im1 \<and> (ok \<longleftrightarrow> im_cache im1 \<noteq> [])"
    using f refill_effect [OF assms(1) p(2,3) head, of m ok im1 m1] str head p(2)
    by (auto split: if_splits)
  let ?im = "im1\<lparr>rx_head := rx_head im1 + 1\<rparr>"
  have r: "(if ok then res = Some (rx_buf im1 ! rx_head im1) \<and> p' = SerialPort (Some ?im)
       else res = None \<and> p' = SerialPort (Some im1)) \<and> m' = m1"
    using assms(3) p(4) f f1 by (auto simp: serial_read_byte_def split: if_splits)
  show ?thesis
  proof (cases ok)
    case True
    then have step: "im_cache im1 = (rx_buf im1 ! rx_head im1) # im_cache ?im"
      using f1 by (intro im_cache_step) simp
    have "rx_head ?im \<le> length (rx_buf ?im)" using True f1 im_cache_nonempty [of im1] by auto
    moreover have "arrived (socket_fd s) m1 = (consumed p m @ [rx_buf im1 ! rx_head im1]) @ im_cache ?im"
      using f1 step by simp
    ultimately have "cache_sound p' m' \<and> consumed p' m' = consumed p m @ [rx_buf im1 ! rx_head im1]"
      using r True f1 p(3) by (intro consumedI) simp_all
    with r True f1 p show ?thesis by simp
  next
    case False
    then have "cache_sound p' m' \<and> consumed p' m' = consumed p m"
      using r f1 p(3) by (intro consumedI) simp_all
    with r False f1 p show ?thesis by simp
  qed
qed

section \<open>Properties\<close>

text \<open>
  \<open>read\<close> hands out the next bytes of the socket's stream: whatever mixture of cache and socket
  they come from, the \<open>n\<close> bytes it stores continue what has been consumed, the rest of the buffer is
  untouched and the cache stays the unread rest of what has arrived.
\<close>

theorem serial_read_transparent:
  assumes "recv_bounded e" "cache_sound p m" "serial_read e p buf m = (((n, buf'), p'), m')"
  shows "cache_sound p' m' \<and> n \<le> length buf \<and> length buf' = length buf \<and> drop n buf' = drop n buf
    \<and> consumed p' m' = consumed p m @ take n buf'"
  using serial_read_effect [OF assms] by simp

text \<open>An open port on descriptor 3 with three bytes in its cache, two of them unread.\<close>

definition sample_impl :: serial_impl where
  "sample_impl = serial_impl_default\<lparr>ser_sock := Some sample_socket, rx_buf := [65, 66, 10], rx_head := 1\<rparr>"

definition sample_port :: serial_port where
  "sample_port = SerialPort (Some sample_impl)"

definition sample_machine :: "u8 list \<Rightarrow> sim machine" where
  "sample_machine inbound =
     emit (EvRecv 3 4096 3 [65, 66, 10]) (sim_start\<lparr>sim_in := inbound\<rparr>) (boot sim_start)"

lemma sample_sound: "cache_sound sample_port (sample_machine inbound) \<and> consumed sample_port (sample_machine inbound) = [65]"
  by (rule consumedI) (simp_all add: sample_port_def sample_impl_def sample_machine_def sample_socket_def
      socket_is_open_def socket_fd_def im_cache_def arrived_def boot_def INVALID_SOCKET_HANDLE_def)

theorem serial_read_transparent_witness:
  "let (((n, buf), p'), m') = serial_read sim_env sample_port [0, 0, 0, 0] (sample_machine [67, 68, 69])
   in n = 4 \<and> buf = [66, 10, 67, 68] \<and> consumed p' m' = [65, 66, 10, 67, 68]"
proof -
  let ?r = "serial_read sim_env sample_port [0, 0, 0, 0] (sample_machine [67, 68, 69])"
  have v: "fst (fst ?r) = (4, [66, 10, 67, 68])" by code_simp
  obtain x p' m' where r: "?r = ((x, p'), m')" by (metis prod.collapse)
  with v have x: "x = (4, [66, 10, 67, 68])" by simp
  from serial_read_transparent [OF sim_env_bounded(1) conjunct1 [OF sample_sound] r [unfolded x]] r x sample_sound
  show ?thesis by simp
qed

lemma serial_read_exact_effect:
  assumes "recv_bounded e" "cache_sound p m" "serial_read_exact e p buf m = (((ok, buf'), p'), m')"
  shows "cache_sound p' m' \<and> length buf' = length buf \<and>
    (\<exists>k\<le>length buf. (ok \<longleftrightarrow> k = length buf) \<and> drop k buf' = drop k buf \<and>
       consumed p' m' = consumed p m @ take k buf')"
proof -
  have "serial_link_fill (e, p, m) buf 0 = ((ok, buf'), (e, p', m'))"
    using assms(3) by (simp add: serial_link_fill_def serial_read_exact_def)
  from serial_fill.fill_from_start [OF _ _ this] show ?thesis
    using assms(1,2) by (auto simp: serial_link_ok_def serial_link_log_def)
qed

text \<open>
  \<open>read_exact\<close> always returns. It stores the next \<open>k\<close> bytes of the stream at the start of the
  buffer, whether they were cached or not, leaves the rest of the buffer alone, and answers \<open>true\<close>
  exactly when \<open>k\<close> is the size of the buffer.
\<close>

theorem serial_read_exact_correct:
  assumes "recv_bounded e" "cache_sound p m" "serial_read_exact e p buf m = (((ok, buf'), p'), m')"
  shows "cache_sound p' m' \<and> length buf' = length buf \<and>
    (\<exists>k\<le>length buf. (ok \<longleftrightarrow> k = length buf) \<and> drop k buf' = drop k buf \<and>
       consumed p' m' = consumed p m @ take k buf')"
  using serial_read_exact_effect [OF assms] .

theorem serial_read_exact_correct_witness:
  "let (((ok, buf), p'), m') = serial_read_exact sim_env sample_port [0, 0, 0, 0, 0] (sample_machine [67, 68, 69])
   in ok \<and> buf = [66, 10, 67, 68, 69] \<and> consumed p' m' = [65, 66, 10, 67, 68, 69]"
proof -
  let ?r = "serial_read_exact sim_env sample_port [0, 0, 0, 0, 0] (sample_machine [67, 68, 69])"
  have v: "fst (fst ?r) = (True, [66, 10, 67, 68, 69])" by code_simp
  obtain x p' m' where r: "?r = ((x, p'), m')" by (metis prod.collapse)
  with v have x: "x = (True, [66, 10, 67, 68, 69])" by simp
  from serial_read_exact_correct [OF sim_env_bounded(1) conjunct1 [OF sample_sound] r [unfolded x]] r x sample_sound
  show ?thesis by auto
qed

end
