(* ===== verification/Serial_Lines.thy ===== *)
theory Serial_Lines
  imports Serial_Cache
begin

text \<open>
  \<open>read_line\<close>: what it returns in terms of the byte stream, that it returns when the clock advances
  towards a positive timeout, and that without a timeout a peer that never sends the delimiter keeps
  it running.
\<close>

section \<open>The inner loop\<close>

definition line_text :: "u8 list \<Rightarrow> string" where
  "line_text bs = map char_of_byte bs"

lemma line_text_simps [simp]:
  "line_text [] = []" "line_text (b # bs) = char_of_byte b # line_text bs"
  "line_text (xs @ ys) = line_text xs @ line_text ys"
  by (simp_all add: line_text_def)

text \<open>The bytes taken from the cache end at the first delimiter, or empty the cache.\<close>

lemma scan_line_spec:
  "rx_head im \<le> length (rx_buf im) \<Longrightarrow> scan_line d im line = ((found, line'), im') \<Longrightarrow>
    rx_head im' \<le> length (rx_buf im') \<and> ser_sock im' = ser_sock im \<and>
    (\<exists>body. d \<notin> set (line_text body) \<and>
      (if found then \<exists>b. im_cache im = body @ b # im_cache im' \<and> char_of_byte b = d \<and>
           line' = strip_cr (line @ line_text body)
       else im_cache im = body \<and> im_cache im' = [] \<and> line' = line @ line_text body))"
proof (induction d im line rule: scan_line.induct)
  case (1 d im line)
  show ?case
  proof (cases "im_cache im = []")
    case True
    then have "\<not> found \<and> line' = line \<and> im' = im" using "1.prems"(2) by (simp add: scan_line.simps [of d im])
    with True "1.prems"(1) show ?thesis by (intro conjI exI [of _ "[]"]) simp_all
  next
    case False
    let ?b = "rx_buf im ! rx_head im"
    let ?im = "im\<lparr>rx_head := rx_head im + 1\<rparr>"
    have step: "im_cache im = ?b # im_cache ?im" using False by (rule im_cache_step)
    have head: "rx_head ?im \<le> length (rx_buf ?im)" using False im_cache_nonempty [of im] by simp
    show ?thesis
    proof (cases "char_of_byte ?b = d")
      case True
      then have "found \<and> line' = strip_cr line \<and> im' = ?im"
        using "1.prems"(2) False by (simp add: scan_line.simps [of d im])
      with step head True show ?thesis
        by (intro conjI exI [of _ "[]"]) simp_all
    next
      case other: False
      have rec: "scan_line d ?im (line @ [char_of_byte ?b]) = ((found, line'), im')"
        using "1.prems"(2) False other by (simp add: scan_line.simps [of d im])
      have pos: "0 < cached_bytes_available im" using False by simp
      from "1.IH" [OF pos refl refl other head rec] obtain body where
        b: "rx_head im' \<le> length (rx_buf im')" "ser_sock im' = ser_sock im" "d \<notin> set (line_text body)"
          "if found then \<exists>b. im_cache ?im = body @ b # im_cache im' \<and> char_of_byte b = d \<and>
             line' = strip_cr ((line @ [char_of_byte ?b]) @ line_text body)
           else im_cache ?im = body \<and> im_cache im' = [] \<and> line' = (line @ [char_of_byte ?b]) @ line_text body"
        by auto
      have "d \<notin> set (line_text (?b # body))" using b(3) other by auto
      moreover have "if found then \<exists>b. im_cache im = (?b # body) @ b # im_cache im' \<and> char_of_byte b = d \<and>
             line' = strip_cr (line @ line_text (?b # body))
           else im_cache im = ?b # body \<and> im_cache im' = [] \<and> line' = line @ line_text (?b # body)"
        using b(4) step by (auto split: if_splits)
      ultimately show ?thesis using b(1,2) by blast
    qed
  qed
qed

section \<open>The outer loop\<close>

text \<open>
  What \<open>read_line\<close> returns for a stretch of the stream: up to the delimiter, which is dropped with a
  carriage return before it, or all of it when the wait ended without one.
\<close>

definition ends_line :: "char \<Rightarrow> u8 list \<Rightarrow> bool" where
  "ends_line d got \<longleftrightarrow> got \<noteq> [] \<and> char_of_byte (last got) = d"

definition line_of :: "char \<Rightarrow> u8 list \<Rightarrow> string \<Rightarrow> bool" where
  "line_of d got line \<longleftrightarrow>
     (if ends_line d got
      then d \<notin> set (line_text (butlast got)) \<and> line = strip_cr (line_text (butlast got))
      else d \<notin> set (line_text got) \<and> line = line_text got)"

text \<open>The contract of the loop, for a line that already holds the text of \<open>pre\<close>.\<close>

definition line_result ::
  "'w env \<Rightarrow> char \<Rightarrow> serial_impl \<Rightarrow> string \<Rightarrow> 'w machine \<Rightarrow> (string \<times> serial_impl) \<times> 'w machine \<Rightarrow> bool" where
  "line_result e d im line m = (\<lambda>((line', im'), m'). \<forall>s pre.
     recv_bounded e \<longrightarrow> ser_sock im = Some s \<longrightarrow> socket_is_open s \<longrightarrow> rx_head im \<le> length (rx_buf im) \<longrightarrow>
     line = line_text pre \<longrightarrow> d \<notin> set line \<longrightarrow>
     ser_sock im' = Some s \<and> rx_head im' \<le> length (rx_buf im') \<and>
     (\<exists>got new. arrived (socket_fd s) m' = arrived (socket_fd s) m @ new \<and>
       im_cache im @ new = got @ im_cache im' \<and> line_of d (pre @ got) line' \<and>
       (im_cache im' = [] \<or> ends_line d (pre @ got))))"

lemma line_of_found: "d \<notin> set (line_text xs) \<Longrightarrow> char_of_byte b = d \<Longrightarrow> line_of d (xs @ [b]) (strip_cr (line_text xs))"
  by (simp add: line_of_def ends_line_def)

lemma line_of_unfinished: "d \<notin> set (line_text xs) \<Longrightarrow> line_of d xs (line_text xs)"
  by (cases xs rule: rev_cases) (auto simp: line_of_def ends_line_def)

text \<open>One turn of the loop keeps the contract, when what it calls next does.\<close>

lemma read_line_turn:
  assumes rec: "\<And>im line m y. rec im line m = Some y \<Longrightarrow> line_result e d im line m y"
    and turn: "(let ((found, line), im) = scan_line d im line
      in if found then Some ((line, im), m)
         else let (expired, m) =
                 (if 0 < t then let (now, m) = sys_now e m in (timed_out start now t, m) else (False, m))
           in if expired then Some ((line, im), m)
              else let ((ok, im), m) = refill_rx_cache e im m
                in if \<not> ok then Some ((line, im), m) else rec im line m) = Some y"
  shows "line_result e d im line m y"
  unfolding line_result_def
proof (cases y, clarify)
  fix line' im' m' s pre
  assume y: "y = ((line', im'), m')" and e: "recv_bounded e" and s: "ser_sock im = Some s" "socket_is_open s"
    and head: "rx_head im \<le> length (rx_buf im)" and line: "line = line_text pre"
    and d: "d \<notin> set (line_text pre)"
  obtain found l1 im1 where sc: "scan_line d im line = ((found, l1), im1)" by (metis prod.collapse)
  obtain body where scan: "rx_head im1 \<le> length (rx_buf im1)" "ser_sock im1 = Some s" "d \<notin> set (line_text body)"
    "if found then \<exists>b. im_cache im = body @ b # im_cache im1 \<and> char_of_byte b = d \<and>
         l1 = strip_cr (line @ line_text body)
     else im_cache im = body \<and> im_cache im1 = [] \<and> l1 = line @ line_text body"
    using scan_line_spec [OF head sc] s by auto
  let ?goal = "ser_sock im' = Some s \<and> rx_head im' \<le> length (rx_buf im') \<and>
     (\<exists>got new. arrived (socket_fd s) m' = arrived (socket_fd s) m @ new \<and>
       im_cache im @ new = got @ im_cache im' \<and> line_of d (pre @ got) line' \<and>
       (im_cache im' = [] \<or> ends_line d (pre @ got)))"
  have pb: "d \<notin> set (line_text (pre @ body))" using d scan(3) by simp
  show ?goal
  proof (cases found)
    case True
    then obtain b where b: "im_cache im = (body @ [b]) @ im_cache im1" "char_of_byte b = d"
      "l1 = strip_cr (line_text (pre @ body))" using scan(4) line by auto
    have "line' = l1 \<and> im' = im1 \<and> m' = m" using turn sc True y by simp
    moreover have "line_of d (pre @ (body @ [b])) l1" using line_of_found [OF pb b(2)] b(3) by simp
    ultimately show ?thesis
      using b scan(1,2)
      by (intro conjI exI [of _ "body @ [b]"] exI [of _ "[]"]) (simp_all add: ends_line_def)
  next
    case nf: False
    then have body: "im_cache im = body" "im_cache im1 = []" "l1 = line_text (pre @ body)"
      using scan(4) line by auto
    have stop: ?goal if "line' = l1" "im_cache im' = []" "ser_sock im' = Some s"
        "rx_head im' \<le> length (rx_buf im')" "arrived (socket_fd s) m' = arrived (socket_fd s) m"
      using that body line_of_unfinished [OF pb] by (intro conjI exI [of _ body] exI [of _ "[]"]) simp_all
    obtain expired m1 where ex: "(if 0 < t then let (now, m) = sys_now e m in (timed_out start now t, m)
        else (False, m)) = (expired, m1)" by (metis prod.collapse)
    have m1: "arrived (socket_fd s) m1 = arrived (socket_fd s) m"
      using ex by (auto simp: sys_now_def split: if_splits prod.splits)
    obtain ok im2 m2 where rf: "refill_rx_cache e im1 m1 = ((ok, im2), m2)" by (metis prod.collapse)
    from refill_effect [OF e scan(2) s(2) scan(1) rf] obtain new where
      new: "ser_sock im2 = Some s" "rx_head im2 \<le> length (rx_buf im2)" "im_cache im2 = new"
        "arrived (socket_fd s) m2 = arrived (socket_fd s) m @ new" "ok \<longleftrightarrow> new \<noteq> []"
      using body(2) m1 by auto
    consider (expired) expired | (ended) "\<not> expired" "\<not> ok" | (more) "\<not> expired" ok by blast
    then show ?thesis
    proof cases
      case expired
      then have "line' = l1 \<and> im' = im1 \<and> m' = m1" using turn sc nf ex y by simp
      with body scan m1 show ?thesis by (intro stop) simp_all
    next
      case ended
      then have "line' = l1 \<and> im' = im2 \<and> m' = m2" using turn sc nf ex rf y by simp
      with ended new show ?thesis by (intro stop) simp_all
    next
      case more
      then have "rec im2 l1 m2 = Some ((line', im'), m')" using turn sc nf ex rf y by simp
      from rec [OF this] have fin: "ser_sock im' = Some s \<and> rx_head im' \<le> length (rx_buf im') \<and>
         (\<exists>got later. arrived (socket_fd s) m' = arrived (socket_fd s) m2 @ later \<and>
           im_cache im2 @ later = got @ im_cache im' \<and> line_of d ((pre @ body) @ got) line' \<and>
           (im_cache im' = [] \<or> ends_line d ((pre @ body) @ got)))"
        using e new(1,2) s(2) body(3) pb unfolding line_result_def by blast
      then obtain got later where g: "arrived (socket_fd s) m' = arrived (socket_fd s) m @ (new @ later)"
          "new @ later = got @ im_cache im'" "line_of d (pre @ body @ got) line'"
          "im_cache im' = [] \<or> ends_line d (pre @ body @ got)"
        using new(3,4) by auto
      have "im_cache im @ (new @ later) = (body @ got) @ im_cache im'" using g(2) body(1) by simp
      with g fin show ?thesis by (intro conjI exI [of _ "body @ got"] exI [of _ "new @ later"]) simp_all
    qed
  qed
qed

lemma read_line_loop_result:
  "read_line_loop e d t start im line m = Some y \<Longrightarrow> line_result e d im line m y"
  by (erule read_line_loop.raw_induct [where P = "\<lambda>e d t start im line m y. line_result e d im line m y", rotated])
    (rule read_line_turn)

section \<open>Returning\<close>

text \<open>
  A clock that the readings of \<open>steady_clock\<close> show, that never goes back, and that moves on by a
  nanosecond or more during a \<open>recv\<close>.
\<close>

definition clock_runs :: "'w env \<Rightarrow> ('w \<Rightarrow> int) \<Rightarrow> bool" where
  "clock_runs e clk \<longleftrightarrow>
     (\<forall>w. fst (k_now e w) = clk w \<and> clk w \<le> clk (snd (k_now e w))) \<and>
     (\<forall>h n w. clk w < clk (snd (k_recv e h n w)))"

lemma read_line_loop_returns:
  assumes "clock_runs e clk" "0 < t"
  shows "\<exists>y. read_line_loop e d t start im line m = Some y"
proof (induction "nat (start + t * 1000000 - clk (world m))" arbitrary: im line m rule: less_induct)
  case less
  obtain found l1 im1 where sc: "scan_line d im line = ((found, l1), im1)" by (metis prod.collapse)
  obtain now w where k: "k_now e (world m) = (now, w)" by (metis prod.collapse)
  have now: "now = clk (world m)" "clk (world m) \<le> clk w"
    using assms(1) k by (auto simp: clock_runs_def dest: spec [of _ "world m"])
  let ?m1 = "emit (EvNow now) w m"
  obtain ok im2 m2 where rf: "refill_rx_cache e im1 ?m1 = ((ok, im2), m2)" by (metis prod.collapse)
  have loop: "read_line_loop e d t start im line m =
      (if found then Some ((l1, im1), m)
       else if timed_out start now t then Some ((l1, im1), ?m1)
       else if \<not> ok then Some ((l1, im2), m2) else read_line_loop e d t start im2 l1 m2)"
    using assms(2) by (subst read_line_loop.simps) (simp add: sc sys_now_def k rf)
  show ?case
  proof (cases "found \<or> timed_out start now t \<or> \<not> ok")
    case True
    then show ?thesis by (auto simp: loop)
  next
    case False
    then obtain s where s: "ser_sock im1 = Some s" "socket_is_open s"
      using rf by (auto simp: refill_rx_cache_def split: option.splits if_splits)
    have "clk w < clk (world m2)"
      using rf s assms(1) False
      by (auto simp: refill_rx_cache_def socket_recv_def sys_recv_def Let_def clock_runs_def chunk_4096_def
          split: if_splits prod.splits) (metis snd_conv)+
    then have "nat (start + t * 1000000 - clk (world m2)) < nat (start + t * 1000000 - clk (world m))"
      using False now by (simp add: timed_out_def)
    from less.hyps [OF this] False show ?thesis by (simp add: loop)
  qed
qed

section \<open>Not returning\<close>

text \<open>A peer that always has something to deliver, never the delimiter.\<close>

definition endless :: "'w env \<Rightarrow> char \<Rightarrow> bool" where
  "endless e d \<longleftrightarrow> (\<forall>h n w. 0 < n \<longrightarrow>
     0 < fst (fst (k_recv e h n w)) \<and> d \<notin> set (line_text (snd (fst (k_recv e h n w)))))"

lemma refill_endless:
  assumes "recv_bounded e" "endless e d" "ser_sock im = Some s" "socket_is_open s"
    and "rx_head im \<le> length (rx_buf im)" "refill_rx_cache e im m = ((ok, im'), m')"
  shows "ok \<and> ser_sock im' = Some s \<and> rx_head im' \<le> length (rx_buf im') \<and>
    (d \<notin> set (line_text (im_cache im)) \<longrightarrow> d \<notin> set (line_text (im_cache im')))"
proof -
  obtain r ds w where k: "k_recv e (socket_fd s) 4096 (world m) = ((r, ds), w)" by (metis prod.collapse)
  have "0 < r" "d \<notin> set (line_text ds)"
    using assms(2) k unfolding endless_def by (metis fst_conv snd_conv zero_less_numeral)+
  have recv: "\<exists>buf. socket_recv e s chunk_4096 m = ((r, buf), emit (EvRecv (socket_fd s) 4096 r ds) w m)"
    using k assms(4) \<open>0 < r\<close> by (simp add: socket_recv_def sys_recv_def chunk_4096_def)
  then have "ok" "arrived (socket_fd s) m' = arrived (socket_fd s) m @ ds"
    using assms(3,4,6) \<open>0 < r\<close> by (auto simp: refill_rx_cache_def Let_def)
  with refill_effect [OF assms(1,3,4,5,6)] \<open>d \<notin> set (line_text ds)\<close> show ?thesis by auto
qed

lemma read_line_loop_endless:
  assumes "recv_bounded e" "endless e d" "t \<le> 0"
    and "ser_sock im = Some s" "socket_is_open s" "rx_head im \<le> length (rx_buf im)"
    and "d \<notin> set (line_text (im_cache im))"
  shows "read_line_loop e d t start im line m = None"
proof (rule ccontr)
  assume "read_line_loop e d t start im line m \<noteq> None"
  then obtain y where "read_line_loop e d t start im line m = Some y" by blast
  then have "recv_bounded e \<longrightarrow> endless e d \<longrightarrow> t \<le> 0 \<longrightarrow> ser_sock im = Some s \<longrightarrow>
      rx_head im \<le> length (rx_buf im) \<longrightarrow> d \<in> set (line_text (im_cache im))"
  proof (rule read_line_loop.raw_induct [where P = "\<lambda>e d t start im line m y.
      recv_bounded e \<longrightarrow> endless e d \<longrightarrow> t \<le> 0 \<longrightarrow> ser_sock im = Some s \<longrightarrow>
      rx_head im \<le> length (rx_buf im) \<longrightarrow> d \<in> set (line_text (im_cache im))", rotated])
    fix rec e d t start im line y and m :: "'a machine"
    assume rec: "\<And>e d t start im line m y. rec e d t start im line m = Some y \<Longrightarrow>
        recv_bounded e \<longrightarrow> endless e d \<longrightarrow> t \<le> 0 \<longrightarrow> ser_sock im = Some s \<longrightarrow>
        rx_head im \<le> length (rx_buf im) \<longrightarrow> d \<in> set (line_text (im_cache im))"
      and turn: "(let ((found, line), im) = scan_line d im line
        in if found then Some ((line, im), m)
           else let (expired, m) =
                   (if 0 < t then let (now, m) = sys_now e m in (timed_out start now t, m) else (False, m))
             in if expired then Some ((line, im), m)
                else let ((ok, im), m) = refill_rx_cache e im m
                  in if \<not> ok then Some ((line, im), m) else rec e d t start im line m) = Some y"
    show "recv_bounded e \<longrightarrow> endless e d \<longrightarrow> t \<le> 0 \<longrightarrow> ser_sock im = Some s \<longrightarrow>
        rx_head im \<le> length (rx_buf im) \<longrightarrow> d \<in> set (line_text (im_cache im))"
    proof (intro impI, rule ccontr)
      assume e: "recv_bounded e" "endless e d" and t: "t \<le> 0" and im: "ser_sock im = Some s"
        "rx_head im \<le> length (rx_buf im)" "d \<notin> set (line_text (im_cache im))"
      obtain found l1 im1 where sc: "scan_line d im line = ((found, l1), im1)" by (metis prod.collapse)
      have i1: "\<not> found" "rx_head im1 \<le> length (rx_buf im1)" "ser_sock im1 = Some s" "im_cache im1 = []"
        using scan_line_spec [OF im(2) sc] im(1,3) by (auto split: if_splits)
      obtain ok im2 m2 where rf: "refill_rx_cache e im1 m = ((ok, im2), m2)" by (metis prod.collapse)
      note i2 = refill_endless [OF e i1(3) assms(5) i1(2) rf]
      then have "rec e d t start im2 l1 m2 = Some y" using turn sc i1(1) t rf by simp
      from rec [OF this] e t i2 i1(4) show False by simp
    qed
  qed
  with assms show False by blast
qed

section \<open>Properties\<close>

lemma serial_read_line_parts:
  assumes "serial_is_open p"
  obtains im s start m1 where "p = SerialPort (Some im)" "ser_sock im = Some s" "socket_is_open s"
    "sys_now e m = (start, m1)" "arrived (socket_fd s) m1 = arrived (socket_fd s) m"
    "serial_read_line e p d t m = map_option (\<lambda>((line, im), m). ((line, SerialPort (Some im)), m))
       (read_line_loop e d t start im [] m1)"
proof -
  from assms obtain im s where p: "p = SerialPort (Some im)" "ser_sock im = Some s" "socket_is_open s"
    "serial_parts p = Some (im, s)" by (rule serial_open_cases)
  obtain start w where k: "sys_now e m = (start, emit (EvNow start) w m)"
    using sys_now_shape [of e m] by blast
  show ?thesis by (rule that [OF p(1-3) k]) (simp_all add: serial_read_line_def p(4) k)
qed

lemma serial_read_line_effect:
  assumes "recv_bounded e" "cache_sound p m" "serial_read_line e p d t m = Some ((line, p'), m')"
  shows "cache_sound p' m' \<and> (\<exists>got. consumed p' m' = consumed p m @ got \<and> line_of d got line
    \<and> (ends_line d got \<or> serial_cache p' = []))"
proof -
  have o: "serial_is_open p" using assms(2) by (simp add: cache_sound_def)
  obtain im s start m1 where p: "p = SerialPort (Some im)" "ser_sock im = Some s" "socket_is_open s"
    "sys_now e m = (start, m1)" "arrived (socket_fd s) m1 = arrived (socket_fd s) m"
    "serial_read_line e p d t m = map_option (\<lambda>((line, im), m). ((line, SerialPort (Some im)), m))
       (read_line_loop e d t start im [] m1)"
    by (rule serial_read_line_parts [OF o, of e m d t])
  then obtain im' where r: "read_line_loop e d t start im [] m1 = Some ((line, im'), m')"
    "p' = SerialPort (Some im')" using assms(3) by auto
  have head: "rx_head im \<le> length (rx_buf im)" using assms(2) p by (simp add: cache_sound_def)
  have str: "arrived (socket_fd s) m = consumed p m @ im_cache im"
    using consumed_append [OF assms(2)] p by simp
  have fin: "ser_sock im' = Some s" "rx_head im' \<le> length (rx_buf im')" and
    ex: "\<exists>got new. arrived (socket_fd s) m' = arrived (socket_fd s) m1 @ new \<and>
       im_cache im @ new = got @ im_cache im' \<and> line_of d ([] @ got) line \<and>
       (im_cache im' = [] \<or> ends_line d ([] @ got))"
    using read_line_loop_result [OF r(1), unfolded line_result_def prod.case, rule_format,
        OF assms(1) p(2,3) head, of "[]"] by simp_all
  from ex obtain got new where g: "arrived (socket_fd s) m' = arrived (socket_fd s) m1 @ new"
    "im_cache im @ new = got @ im_cache im'" "line_of d got line" "im_cache im' = [] \<or> ends_line d got"
    by auto
  have "cache_sound p' m' \<and> consumed p' m' = consumed p m @ got"
    using fin p(3,5) r(2) g(1,2) str by (intro consumedI) simp_all
  with g(3,4) r(2) show ?thesis by auto
qed

text \<open>
  When \<open>read_line\<close> returns, it has taken from the stream either the bytes up to and including the
  first delimiter, and the line is their text without the delimiter and without a carriage return
  before it; or, when the wait ended first, everything that had arrived, without any delimiter, and
  the line is all of it. The cache keeps what follows: no byte is lost between calls.
\<close>

theorem serial_read_line_correct:
  assumes "recv_bounded e" "cache_sound p m" "serial_read_line e p d t m = Some ((line, p'), m')"
  shows "cache_sound p' m' \<and> (\<exists>got. consumed p' m' = consumed p m @ got \<and> line_of d got line
    \<and> (ends_line d got \<or> serial_cache p' = []))"
  using serial_read_line_effect [OF assms] .

theorem serial_read_line_correct_witness:
  "case serial_read_line sim_env sample_port (CHR 0x0A) 5000 (sample_machine []) of
     Some ((line, p'), m') \<Rightarrow> line = ''B'' \<and> cache_sound p' m' | None \<Rightarrow> False"
proof -
  let ?r = "serial_read_line sim_env sample_port (CHR 0x0A) 5000 (sample_machine [])"
  have v: "map_option (\<lambda>r. fst (fst r)) ?r = Some ''B''" by code_simp
  then obtain p' m' where r: "?r = Some ((''B'', p'), m')" by (cases ?r) auto
  from serial_read_line_correct [OF sim_env_bounded(1) conjunct1 [OF sample_sound] r] r show ?thesis by simp
qed

text \<open>
  C16. With a positive timeout \<open>read_line\<close> returns, whatever the peer sends, provided the clock moves on
  during a \<open>recv\<close>.
\<close>

theorem serial_read_line_returns:
  assumes "clock_runs e clk" "0 < t"
  shows "\<exists>y. serial_read_line e p d t m = Some y"
proof (cases "serial_is_open p")
  case True
  obtain im s start m1 where p: "p = SerialPort (Some im)" "ser_sock im = Some s" "socket_is_open s"
    "sys_now e m = (start, m1)" "arrived (socket_fd s) m1 = arrived (socket_fd s) m"
    "serial_read_line e p d t m = map_option (\<lambda>((line, im), m). ((line, SerialPort (Some im)), m))
       (read_line_loop e d t start im [] m1)"
    by (rule serial_read_line_parts [OF True, of e m d t])
  from read_line_loop_returns [OF assms, of d start im "[]" m1] show ?thesis by (auto simp: p(6))
next
  case False
  then show ?thesis by (simp add: serial_read_line_def flip: serial_parts_closed)
qed

text \<open>The sample environment with a clock that also moves on during a \<open>recv\<close> and an endless peer.\<close>

definition busy_env :: "sim env" where
  "busy_env = sim_env\<lparr>k_recv := (\<lambda>h n w. (if 0 < n then (1, [120]) else (0, []), w\<lparr>sim_clock := sim_clock w + 1\<rparr>))\<rparr>"

theorem serial_read_line_returns_witness:
  "\<exists>y. serial_read_line busy_env sample_port (CHR 0x0D) 10 (sample_machine []) = Some y"
  by (rule serial_read_line_returns [of _ sim_clock]) (simp_all add: clock_runs_def busy_env_def sim_env_def)

text \<open>
  Without a timeout \<open>read_line\<close> never returns while the peer keeps sending bytes that are not
  the delimiter.
\<close>

theorem serial_read_line_endless:
  assumes "recv_bounded e" "endless e d" "t \<le> 0" "serial_is_open p" "head_in_bounds p"
    and "d \<notin> set (line_text (serial_cache p))"
  shows "serial_read_line e p d t m = None"
proof -
  obtain im s start m1 where p: "p = SerialPort (Some im)" "ser_sock im = Some s" "socket_is_open s"
    "sys_now e m = (start, m1)" "arrived (socket_fd s) m1 = arrived (socket_fd s) m"
    "serial_read_line e p d t m = map_option (\<lambda>((line, im), m). ((line, SerialPort (Some im)), m))
       (read_line_loop e d t start im [] m1)"
    by (rule serial_read_line_parts [OF assms(4), of e m d t])
  have "read_line_loop e d t start im [] m1 = None"
    by (rule read_line_loop_endless [OF assms(1-3) p(2,3)]) (use assms(5,6) p(1) in simp_all)
  with p(6) show ?thesis by simp
qed

theorem serial_read_line_endless_witness:
  "serial_read_line busy_env sample_port (CHR 0x0D) 0 (sample_machine []) = None"
proof (rule serial_read_line_endless)
  show "recv_bounded busy_env" by (auto simp: recv_bounded_def busy_env_def sim_env_def split: if_splits)
  show "endless busy_env (CHR 0x0D)"
    by (simp add: endless_def busy_env_def sim_env_def char_of_byte_def char_of_def)
  show "serial_is_open sample_port" "head_in_bounds sample_port" by code_simp+
  show "CHR 0x0D \<notin> set (line_text (serial_cache sample_port))" by code_simp
qed simp

end
