(* ===== verification/Serial_Safety.thy ===== *)
theory Serial_Safety
  imports Serial_Lines
begin

text \<open>
  Ownership of the socket by a \<open>SerialPort\<close>, opening and attaching, writing, the queue status and
  \<open>purge\<close>.
\<close>

section \<open>What a port holds\<close>

definition serial_holds :: "serial_port \<Rightarrow> handle multiset" where
  "serial_holds p = (case serial_underlying_socket p of None \<Rightarrow> {#} | Some s \<Rightarrow> socket_holds s)"

text \<open>The port's socket is open, and without one the cache is empty.\<close>

definition serial_valid :: "serial_port \<Rightarrow> bool" where
  "serial_valid p =
     (case serial_pimpl p of None \<Rightarrow> True
      | Some im \<Rightarrow> (case ser_sock im of
            None \<Rightarrow> rx_buf im = [] \<and> rx_head im = 0
          | Some s \<Rightarrow> socket_valid s \<and> socket_is_open s))"

lemma serial_new_valid [simp]: "serial_valid serial_new" "\<not> serial_is_open serial_new" "serial_holds serial_new = {#}"
  by (simp_all add: serial_new_def serial_impl_default_def serial_valid_def serial_is_open_def
      serial_holds_def serial_underlying_socket_def)

lemma serial_close_eq:
  "serial_close e p m =
     (map_serial (\<lambda>im. clear_rx_cache im\<lparr>ser_sock := None\<rparr>) p,
      case serial_underlying_socket p of None \<Rightarrow> m | Some s \<Rightarrow> snd (socket_close e s m))"
proof (cases "serial_pimpl p")
  case None
  then show ?thesis by (cases p) (simp add: serial_close_def map_serial_def serial_underlying_socket_def)
next
  case (Some im)
  show ?thesis
  proof (cases "ser_sock im")
    case None
    with Some show ?thesis
      by (simp add: serial_close_def map_serial_def serial_underlying_socket_def clear_rx_cache_def)
  next
    case sock: (Some s)
    obtain s' m' where c: "socket_close e s m = (s', m')" by (metis prod.collapse)
    have "socket_destroy e s' m' = m'"
      using socket_close_result [OF c] by (simp add: closed_socket_inert(8))
    with Some sock c show ?thesis
      by (simp add: serial_close_def map_serial_def serial_underlying_socket_def clear_rx_cache_def)
  qed
qed

lemma serial_close_result:
  assumes "serial_close e p m = (p', m')"
  shows "serial_valid p'" "\<not> serial_is_open p'" "serial_holds p' = {#}" "serial_cache p' = []"
    "serial_underlying_socket p' = None" "serial_pimpl p' = None \<longleftrightarrow> serial_pimpl p = None"
  using assms
  by (auto simp: serial_close_eq map_serial_def serial_valid_def serial_is_open_def serial_holds_def
      serial_underlying_socket_def clear_rx_cache_def serial_cache_def im_cache_def split: option.splits)

lemma serial_close_live:
  assumes "serial_close e p m = (p', m')"
  shows "live_fds m' = live_fds m - serial_holds p"
    "serial_holds p \<subseteq># live_fds m \<Longrightarrow> fds_respected m' = fds_respected m"
proof -
  have "live_fds m' = live_fds m - serial_holds p \<and>
      (serial_holds p \<subseteq># live_fds m \<longrightarrow> fds_respected m' = fds_respected m)"
  proof (cases "serial_underlying_socket p")
    case None
    with assms show ?thesis by (auto simp: serial_close_eq serial_holds_def)
  next
    case (Some s)
    obtain s' m1 where c: "socket_close e s m = (s', m1)" by (metis prod.collapse)
    with Some assms have "m' = m1" by (auto simp: serial_close_eq)
    with Some socket_close_live [OF c] socket_close_respects [OF c] show ?thesis
      by (simp add: serial_holds_def)
  qed
  then show "live_fds m' = live_fds m - serial_holds p"
    "serial_holds p \<subseteq># live_fds m \<Longrightarrow> fds_respected m' = fds_respected m" by simp_all
qed

lemma serial_close_idle:
  assumes "serial_valid p" "\<not> serial_is_open p"
  shows "serial_close e p m = (p, m)"
proof (cases "serial_pimpl p")
  case None
  then show ?thesis by (simp add: serial_close_def)
next
  case (Some im)
  with assms have "ser_sock im = None" "rx_buf im = []" "rx_head im = 0"
    by (auto simp: serial_valid_def serial_is_open_def split: option.splits)
  with Some show ?thesis by (cases p) (simp add: serial_close_def clear_rx_cache_def)
qed

lemma serial_close_same_sdp:
  assumes "serial_close e p m = (p', m')"
  shows "same_sdp m m'"
proof (cases "serial_underlying_socket p")
  case None
  with assms show ?thesis by (auto simp: serial_close_eq)
next
  case (Some s)
  obtain s' m1 where c: "socket_close e s m = (s', m1)" by (metis prod.collapse)
  with Some assms socket_close_same_sdp [OF c] show ?thesis by (auto simp: serial_close_eq)
qed

interpretation serial_closable: closable serial_close serial_is_open serial_holds live_fds serial_valid
proof
  fix e :: "'a env" and p p' :: serial_port and m m' :: "'a machine"
  show "serial_close e p m = (p', m') \<Longrightarrow> serial_valid p' \<and> \<not> serial_is_open p' \<and> serial_holds p' = {#}"
    using serial_close_result by blast
  show "serial_close e p m = (p', m') \<Longrightarrow> live_fds m' = live_fds m - serial_holds p"
    by (rule serial_close_live(1))
  show "serial_valid p \<Longrightarrow> \<not> serial_is_open p \<Longrightarrow> serial_close e p m = (p, m)"
    by (rule serial_close_idle)
qed

lemma serial_destroy_close: "serial_destroy e p m = snd (serial_close e p m)"
  by (auto simp: serial_destroy_def serial_close_eq serial_underlying_socket_def socket_destroy_close
      split: option.splits)

section \<open>Adopting a socket\<close>

lemma serial_adopt_effect:
  assumes "serial_adopt e ns p m = ((res, p'), m')" "serial_pimpl p \<noteq> None" "serial_cache p = []"
    and "serial_valid p" "serial_underlying_socket p = None"
    and "\<And>s. ns = Some s \<Longrightarrow> socket_valid s \<and> socket_is_open s"
  shows "res = Inr (ns \<noteq> None)" "serial_valid p'" "serial_underlying_socket p' = ns"
    "serial_is_open p' \<longleftrightarrow> ns \<noteq> None" "serial_cache p' = []" "head_in_bounds p'"
    "case ns of None \<Rightarrow> m' = m | Some s \<Rightarrow> via s m m'"
proof -
  obtain im where im: "p = SerialPort (Some im)" using assms(2) by (cases p) auto
  have empty: "rx_buf im = []" "rx_head im = 0" "ser_sock im = None"
    using assms(4,5) im by (simp_all add: serial_valid_def serial_underlying_socket_def)
  have "res = Inr (ns \<noteq> None) \<and> p' = SerialPort (Some (im\<lparr>ser_sock := ns\<rparr>))"
    "case ns of None \<Rightarrow> m' = m | Some s \<Rightarrow> via s m m'"
    using assms(1) im by (auto simp: serial_adopt_def Let_def dest: via_set_timeouts split: option.splits prod.splits)
  with empty assms(6) show "res = Inr (ns \<noteq> None)" "serial_valid p'" "serial_underlying_socket p' = ns"
    "serial_is_open p' \<longleftrightarrow> ns \<noteq> None" "serial_cache p' = []" "head_in_bounds p'"
    "case ns of None \<Rightarrow> m' = m | Some s \<Rightarrow> via s m m'"
    by (auto simp: serial_valid_def serial_is_open_def im_cache_def split: option.splits)
qed

lemma serial_open_valid: "serial_valid p \<Longrightarrow> serial_underlying_socket p = Some s \<Longrightarrow> socket_valid s \<and> socket_is_open s"
  by (auto simp: serial_valid_def serial_underlying_socket_def split: option.splits)

text \<open>What a port owns is among what the program holds.\<close>

definition serial_owned :: "serial_port \<Rightarrow> 'w machine \<Rightarrow> bool" where
  "serial_owned p m \<longleftrightarrow> serial_valid p \<and> serial_holds p \<subseteq># live_fds m \<and> fds_respected m"

lemma serial_close_owned:
  assumes "serial_owned p m" "serial_close e p m = (p', m')"
  shows "live_fds m = live_fds m' + serial_holds p" "fds_respected m'"
  using assms serial_closable.close_accounts [OF _ _ assms(2)] serial_close_live(2) [OF assms(2)]
  by (simp_all add: serial_owned_def)

lemma adopted_effect:
  assumes "serial_adopt e (Some s) p m = ((res, p'), m')" "serial_close e p0 m0 = (p, m1)"
    and "serial_pimpl p0 \<noteq> None" "socket_valid s" "socket_is_open s" "socket_holds s \<subseteq># live_fds m" "fds_respected m"
  shows "res = Inr True" "serial_owned p' m'" "serial_is_open p'" "serial_underlying_socket p' = Some s"
    "serial_cache p' = []" "cache_sound p' m'" "live_fds m' = live_fds m" "same_sdp m m'"
proof -
  note closed = serial_close_result [OF assms(2)]
  have p: "serial_pimpl p \<noteq> None" using closed(6) assms(3) by simp
  note ad = serial_adopt_effect [OF assms(1) p closed(4,1,5)]
  have s: "socket_valid s \<and> socket_is_open s" using assms(4,5) by simp
  have via: "via s m m'" using ad(7) s by simp
  have fr: "live_fds m' = live_fds m" by (rule via_frame(1) [OF via])
  have re: "fds_respected m' = fds_respected m" by (rule via_respects [OF via assms(4,6)])
  show "res = Inr True" "serial_is_open p'" "serial_underlying_socket p' = Some s" "serial_cache p' = []"
    "live_fds m' = live_fds m" "same_sdp m m'" using ad s fr via_same_sdp [OF via] by simp_all
  then show "serial_owned p' m'" "cache_sound p' m'"
    using ad s fr re assms(6,7) by (simp_all add: serial_owned_def serial_holds_def cache_sound_def)
qed

lemma serial_attach_effect:
  assumes "serial_owned p m" "serial_pimpl p \<noteq> None" "serial_attach e p ns m = ((res, p'), m')"
    and "pred_option socket_valid ns" "serial_holds p + (case ns of None \<Rightarrow> {#} | Some s \<Rightarrow> socket_holds s) \<subseteq># live_fds m"
  shows "same_sdp m m' \<and> res = Inr (serial_is_open p') \<and> serial_owned p' m' \<and> serial_cache p' = []
    \<and> live_fds m = live_fds m' + serial_holds p
    \<and> serial_underlying_socket p' = (if (\<exists>s. ns = Some s \<and> socket_is_open s) then ns else None)"
proof -
  obtain p1 m1 where c: "serial_close e p m = (p1, m1)" by (metis prod.collapse)
  note closed = serial_close_result [OF c]
  note own = serial_close_owned [OF assms(1) c]
  note sdp = serial_close_same_sdp [OF c]
  show ?thesis
  proof (cases "\<exists>s. ns = Some s \<and> socket_is_open s")
    case False
    then have "res = Inr False \<and> p' = p1 \<and> m' = m1"
      using assms(3) c by (auto simp: serial_attach_def closed_socket_inert(8) split: option.splits if_splits)
    with closed own sdp False show ?thesis by (auto simp: serial_owned_def)
  next
    case True
    then obtain s where s: "ns = Some s" "socket_is_open s" by blast
    have a: "serial_adopt e (Some s) p1 m1 = ((res, p'), m')"
      using assms(3) c s by (simp add: serial_attach_def)
    have "socket_holds s \<subseteq># live_fds m1"
      using assms(5) s serial_close_live(1) [OF c] by (simp add: mset_part_remains)
    from adopted_effect [OF a c assms(2) _ s(2) this own(2)] assms(4) s own(1) sdp show ?thesis
      by (auto dest: same_sdp_trans)
  qed
qed

text \<open>Closing, obtaining a connected socket or none, and adopting it.\<close>

lemma connect_adopt_effect:
  assumes "serial_owned p m" "serial_pimpl p \<noteq> None" "serial_close e p m = (p1, m1)"
    and con: "fds_respected m2 = fds_respected m1 \<and> same_sdp m1 m2 \<and> (case ns of None \<Rightarrow> live_fds m2 = live_fds m1
      | Some s \<Rightarrow> socket_valid s \<and> socket_is_open s \<and> live_fds m2 = live_fds m1 + socket_holds s)"
    and ad: "serial_adopt e ns p1 m2 = ((res, p'), m')"
  shows "same_sdp m m' \<and> res = Inr (serial_is_open p') \<and> serial_owned p' m' \<and> serial_cache p' = []
    \<and> live_fds m' + serial_holds p = live_fds m + serial_holds p' \<and> serial_underlying_socket p' = ns
    \<and> (if serial_is_open p' then cache_sound p' m' else serial_holds p' = {#})"
proof -
  note closed = serial_close_result [OF assms(3)]
  note own = serial_close_owned [OF assms(1,3)]
  have sdp: "same_sdp m m2" using serial_close_same_sdp [OF assms(3)] con by (blast intro: same_sdp_trans)
  show ?thesis
  proof (cases ns)
    case None
    have "serial_pimpl p1 \<noteq> None" using closed(6) assms(2) by simp
    from serial_adopt_effect [OF ad this closed(4,1,5)] None con own sdp
    show ?thesis by (simp add: serial_owned_def serial_holds_def ac_simps)
  next
    case (Some s)
    then have s: "socket_valid s" "socket_is_open s" "live_fds m2 = live_fds m1 + socket_holds s" "fds_respected m2"
      using con own(2) by simp_all
    have "socket_holds s \<subseteq># live_fds m2" using s(3) by simp
    from adopted_effect [OF ad [unfolded Some] assms(3,2) s(1,2) this s(4)] s own(1) sdp Some
    show ?thesis by (auto simp: serial_holds_def ac_simps dest: same_sdp_trans)
  qed
qed

lemma serial_open_effect:
  assumes "serial_owned p m" "serial_pimpl p \<noteq> None" "serial_open e p a c t m = ((res, p'), m')"
  shows "same_sdp m m' \<and> res = Inr (serial_is_open p') \<and> serial_owned p' m' \<and> serial_cache p' = []
    \<and> live_fds m' + serial_holds p = live_fds m + serial_holds p'
    \<and> (if serial_is_open p' then serial_peer_address p' = a \<and> serial_peer_channel p' = c \<and> cache_sound p' m'
       else serial_holds p' = {#})"
proof -
  obtain p1 m1 where cl: "serial_close e p m = (p1, m1)" by (metis prod.collapse)
  obtain ns m2 where k: "client_connect e a c t m1 = (ns, m2)" by (metis prod.collapse)
  note con = client_connect_effect [OF k]
  have "serial_adopt e ns p1 m2 = ((res, p'), m')" using assms(3) cl k by (simp add: serial_open_def)
  from connect_adopt_effect [OF assms(1,2) cl _ this] con show ?thesis
    by (auto simp: serial_peer_address_def serial_peer_channel_def serial_is_open_def
        serial_underlying_socket_def split: option.splits)
qed

lemma serial_open_by_uuid_effect:
  assumes "serial_owned p m" "serial_pimpl p \<noteq> None" "serial_open_by_uuid e p a u t m = ((Inr b, p'), m')"
  shows "same_sdp m m' \<and> b = serial_is_open p' \<and> serial_owned p' m' \<and> serial_cache p' = []
    \<and> live_fds m' + serial_holds p = live_fds m + serial_holds p'
    \<and> (if serial_is_open p' then serial_peer_address p' = a \<and> cache_sound p' m' else serial_holds p' = {#})"
proof -
  obtain p1 m1 where cl: "serial_close e p m = (p1, m1)" by (metis prod.collapse)
  obtain x m2 where k: "client_connect_by_sdp e a u t m1 = (x, m2)" by (metis prod.collapse)
  then obtain ns where x: "x = Inr ns" using assms(3) cl by (cases x) (auto simp: serial_open_by_uuid_def)
  note con = client_connect_by_sdp_effect [OF k [unfolded x]]
  have "serial_adopt e ns p1 m2 = ((Inr b, p'), m')" using assms(3) cl k x by (simp add: serial_open_by_uuid_def)
  from connect_adopt_effect [OF assms(1,2) cl _ this] con show ?thesis
    by (auto simp: serial_peer_address_def serial_is_open_def serial_underlying_socket_def split: option.splits)
qed

section \<open>Properties: ownership\<close>

text \<open>
  \<open>attach\<close> releases the port's previous socket, then takes over an open socket and answers
  \<open>true\<close>, with an empty cache and the same descriptor held; a null or closed socket is refused and
  the port is left closed.
\<close>

theorem serial_attach_correct:
  assumes "serial_owned p m" "serial_pimpl p \<noteq> None" "serial_attach e p ns m = ((res, p'), m')"
    and "pred_option socket_valid ns" "serial_holds p + (case ns of None \<Rightarrow> {#} | Some s \<Rightarrow> socket_holds s) \<subseteq># live_fds m"
  shows "res = Inr (serial_is_open p') \<and> serial_owned p' m' \<and> serial_cache p' = []
    \<and> live_fds m = live_fds m' + serial_holds p
    \<and> serial_underlying_socket p' = (if (\<exists>s. ns = Some s \<and> socket_is_open s) then ns else None)"
  using serial_attach_effect [OF assms] by simp

theorem serial_attach_correct_witness:
  "let ((res, p), m) = serial_attach sim_env serial_new (Some sample_socket)
         (emit (EvSocket 3) sim_start (boot sim_start))
   in res = Inr True \<and> live_fds m = {#3#}"
proof -
  let ?m = "emit (EvSocket 3) sim_start (boot sim_start)"
  have s: "socket_valid sample_socket" "socket_holds sample_socket = {#3#}" "live_fds ?m = {#3#}" "fds_respected ?m"
    by (simp_all add: sample_socket_def socket_valid_def socket_is_open_def socket_fd_def
        socket_holds_def word_sle_eq)
  have o: "serial_owned serial_new ?m" using s by (simp add: serial_owned_def)
  have n: "serial_pimpl serial_new \<noteq> None" by (simp add: serial_new_def)
  obtain res p m where r: "serial_attach sim_env serial_new (Some sample_socket) ?m = ((res, p), m)"
    by (metis prod.collapse)
  have op: "socket_is_open sample_socket" by code_simp
  have "pred_option socket_valid (Some sample_socket)" using s by simp
  from serial_attach_correct [OF o n r this] s op r show ?thesis
    by (auto simp: serial_is_open_def serial_underlying_socket_def split: option.splits)
qed

text \<open>
  \<open>open\<close> releases the port's previous socket and connects; when it answers \<open>true\<close> the port owns
  the one new descriptor, is connected to the requested device and channel and starts with an empty
  cache; when it answers \<open>false\<close> it holds nothing. No descriptor leaks either way.
\<close>

theorem serial_open_correct:
  assumes "serial_owned p m" "serial_pimpl p \<noteq> None" "serial_open e p a c t m = ((res, p'), m')"
  shows "res = Inr (serial_is_open p') \<and> serial_owned p' m' \<and> serial_cache p' = []
    \<and> live_fds m' + serial_holds p = live_fds m + serial_holds p'
    \<and> (if serial_is_open p' then serial_peer_address p' = a \<and> serial_peer_channel p' = c \<and> cache_sound p' m'
       else serial_holds p' = {#})"
  using serial_open_effect [OF assms] by simp

theorem serial_open_correct_witness:
  "let ((res, p), m) = serial_open sim_env serial_new (Address [1, 2, 3, 4, 5, 6]) 9 1500 (boot sim_start)
   in res = Inr True \<and> live_fds m = {#3#} \<and> serial_peer_channel p = 9"
proof -
  let ?r = "serial_open sim_env serial_new (Address [1, 2, 3, 4, 5, 6]) 9 1500 (boot sim_start)"
  have o: "serial_owned serial_new (boot sim_start)" "serial_pimpl serial_new \<noteq> None"
    by (simp_all add: serial_owned_def) (simp add: serial_new_def)
  obtain res p m where r: "?r = ((res, p), m)" by (metis prod.collapse)
  have "serial_is_open (snd (fst ?r))" "serial_holds (snd (fst ?r)) = {#3#}" by code_simp+
  with serial_open_correct [OF o r] r show ?thesis by simp
qed

lemma closed_port_inert:
  assumes "\<not> serial_is_open p"
  shows "serial_read e p buf m = (((0, buf), p), m)" "serial_read_byte e p m = ((None, p), m)"
    "serial_read_line e p d t m = Some (([], p), m)" "serial_write e p data m = (0, m)"
    "serial_write_line e p line eol m = (False, m)" "serial_get_rx_queue_status e p m = (0, m)"
  using assms unfolding serial_parts_closed [symmetric]
  by (simp_all add: serial_read_def serial_read_byte_def serial_read_line_def serial_write_def
      serial_write_line_def serial_get_rx_queue_status_def)

text \<open>
  \<open>close\<close> releases the port's descriptor once and discards the cache; afterwards closing again,
  destroying, reading, writing and asking for the queue status make no call and report nothing.
\<close>

theorem serial_close_final:
  assumes "serial_owned p m" "serial_close e p m = (p', m')"
  shows "live_fds m = live_fds m' + serial_holds p \<and> serial_owned p' m' \<and> \<not> serial_is_open p'
    \<and> serial_cache p' = [] \<and> serial_close e p' m' = (p', m') \<and> serial_destroy e p' m' = m'
    \<and> serial_read e p' buf m' = (((0, buf), p'), m') \<and> serial_read_byte e p' m' = ((None, p'), m')
    \<and> serial_read_line e p' d t m' = Some (([], p'), m') \<and> serial_write e p' data m' = (0, m')
    \<and> serial_write_line e p' line eol m' = (False, m') \<and> serial_get_rx_queue_status e p' m' = (0, m')"
  using serial_close_owned [OF assms] serial_close_result [OF assms(2)]
    serial_closable.close_again [OF _ assms(2), of m'] assms(1)
  by (simp add: serial_owned_def closed_port_inert serial_destroy_close)

theorem serial_close_final_witness:
  "live_fds (snd (serial_close sim_env sample_port (emit (EvSocket 3) sim_start (boot sim_start)))) = {#}"
proof -
  let ?m = "emit (EvSocket 3) sim_start (boot sim_start)"
  have s: "serial_holds sample_port = {#3#}" "live_fds ?m = {#3#}" "fds_respected ?m" "serial_valid sample_port"
    by (simp_all add: sample_socket_def socket_valid_def socket_is_open_def socket_fd_def sample_impl_def
        socket_holds_def word_sle_eq sample_port_def serial_valid_def serial_holds_def INVALID_SOCKET_HANDLE_def)
  then have "serial_owned sample_port ?m" by (simp add: serial_owned_def)
  from serial_close_final [OF this prod.collapse [symmetric], of sim_env] s show ?thesis by simp
qed

section \<open>Properties: writing\<close>

text \<open>
  \<open>write\<close> reports how many bytes it wrote, and those are the first bytes of the data, accepted by
  the kernel in one call; the cache and the received stream are not touched.
\<close>

lemma serial_write_effect:
  assumes "send_bounded e" "serial_write e p data m = (n, m')"
  shows "n \<le> length data \<and> accepted (serial_fd p) m' = accepted (serial_fd p) m @ take n data
    \<and> (serial_is_open p \<or> m' = m)"
proof (cases "serial_parts p")
  case None
  with assms(2) show ?thesis by (auto simp: serial_write_def)
next
  case (Some ims)
  obtain im s where p: "serial_parts p = Some (im, s)" using Some by (cases ims) auto
  then have pe: "p = SerialPort (Some im)" "ser_sock im = Some s" "socket_is_open s"
    by (simp_all add: serial_parts_open)
  obtain r m1 where k: "socket_send e s data m = (r, m1)" by (metis prod.collapse)
  have "data = [] \<and> n = 0 \<and> m' = m \<or> n = nat r \<and> m' = m1"
    using assms(2) p k by (auto simp: serial_write_def split: if_splits)
  with socket_send_effect [OF assms(1) k] pe show ?thesis by auto
qed

text \<open>
  \<open>write_line\<close> answers \<open>true\<close> exactly when the port is open and the whole line followed by the
  end-of-line marker was accepted, in order; otherwise at most a proper prefix of it was.
\<close>

theorem serial_write_line_correct:
  assumes "send_bounded e" "serial_write_line e p line eol m = (ok, m')"
  shows "\<exists>k\<le>length (line @ eol). accepted (serial_fd p) m' =
      accepted (serial_fd p) m @ map byte_of_char (take k (line @ eol))
    \<and> (ok \<longleftrightarrow> serial_is_open p \<and> k = length (line @ eol))"
proof (cases "serial_parts p")
  case None
  with assms(2) show ?thesis by (intro exI [of _ 0]) (auto simp: serial_write_line_def serial_parts_closed)
next
  case (Some ims)
  obtain im s where p: "serial_parts p = Some (im, s)" using Some by (cases ims) auto
  then have pe: "p = SerialPort (Some im)" "ser_sock im = Some s" "socket_is_open s"
    by (simp_all add: serial_parts_open)
  have "socket_send_all e s (map byte_of_char (line @ eol)) m = (ok, m')"
    using assms(2) p by (simp add: serial_write_line_def)
  from socket_send_all_effect [OF assms(1) this] pe show ?thesis
    by (auto simp: take_map)
qed

theorem serial_write_line_correct_witness:
  "fst (serial_write_line sim_env sample_port ''ok'' [CHR 0x0D, CHR 0x0A] (sample_machine []))
   \<and> accepted 3 (snd (serial_write_line sim_env sample_port ''ok'' [CHR 0x0D, CHR 0x0A] (sample_machine [])))
       = [111, 107, 13, 10]"
proof -
  let ?r = "serial_write_line sim_env sample_port ''ok'' [CHR 0x0D, CHR 0x0A] (sample_machine [])"
  have v: "fst ?r" by code_simp
  obtain ok m' where r: "?r = (ok, m')" by (metis prod.collapse)
  have "accepted 3 (sample_machine []) = []" "serial_fd sample_port = 3"
    "map byte_of_char (''ok'' @ [CHR 0x0D, CHR 0x0A]) = [111, 107, 13, 10]" by code_simp+
  with serial_write_line_correct [OF sim_env_bounded(2) r] v r
  show ?thesis by (auto simp flip: take_map)
qed

end
