(* ===== verification/Serial_Purge.thy ===== *)
theory Serial_Purge
  imports Serial_Safety
begin

text \<open>
  The receive queue of \<open>SerialPort\<close> as the FTDI-style methods show it: \<open>get_rx_queue_status\<close> counts
  what is unread, \<open>purge\<close> throws it away.
\<close>

section \<open>The drain loop\<close>

text \<open>The loop reads on as long as something arrives; its last \<open>recv\<close> brought nothing.\<close>

definition drained :: "socket \<Rightarrow> nat \<Rightarrow> 'w machine \<Rightarrow> 'w machine \<Rightarrow> bool" where
  "drained s n m m' \<longleftrightarrow> via s m m' \<and>
     (\<exists>pre r d. trace m' = trace m @ pre @ [EvRecv (socket_fd s) n r d] \<and> r \<le> 0 \<and> list_all (io_event (socket_fd s)) pre)"

lemma socket_recv_open:
  assumes "socket_is_open s" "buf \<noteq> []"
  obtains r d w buf' where "k_recv e (socket_fd s) (length buf) (world m) = ((r, d), w)"
    "socket_recv e s buf m = ((if 0 \<le> r then r else - 1, buf'), emit (EvRecv (socket_fd s) (length buf) r d) w m)"
    "length buf' = length buf"
proof -
  obtain r d w where "k_recv e (socket_fd s) (length buf) (world m) = ((r, d), w)" by (metis prod.collapse)
  with assms that [of r d w "overlay d buf"] show ?thesis
    by (simp add: socket_recv_def sys_recv_def)
qed

lemma drain_turn:
  assumes "socket_is_open s" "buf \<noteq> []"
    and rec: "\<And>buf m m'. buf \<noteq> [] \<Longrightarrow> rec buf m = Some m' \<Longrightarrow> drained s (length buf) m m'"
    and turn: "(let ((r, buf'), m1) = socket_recv e s buf m in if 0 < r then rec buf' m1 else Some m1) = Some m'"
  shows "drained s (length buf) m m'"
proof -
  obtain r d w buf' where k: "k_recv e (socket_fd s) (length buf) (world m) = ((r, d), w)"
    "socket_recv e s buf m = ((if 0 \<le> r then r else - 1, buf'), emit (EvRecv (socket_fd s) (length buf) r d) w m)"
    "length buf' = length buf"
    using socket_recv_open [OF assms(1,2)] by blast
  let ?m1 = "emit (EvRecv (socket_fd s) (length buf) r d) w m"
  have via: "via s m ?m1" using assms(1) by (simp add: via_def)
  show ?thesis
  proof (cases "0 < r")
    case True
    then have "rec buf' ?m1 = Some m'" using turn k(2) by simp
    moreover have "buf' \<noteq> []" using assms(2) k(3) by auto
    ultimately have dr: "drained s (length buf) ?m1 m'" using rec k(3) by metis
    then obtain pre r' d' where t: "trace m' = trace ?m1 @ pre @ [EvRecv (socket_fd s) (length buf) r' d']" "r' \<le> 0"
      "list_all (io_event (socket_fd s)) pre" and v: "via s ?m1 m'" unfolding drained_def by blast
    have "trace m' = trace m @ (EvRecv (socket_fd s) (length buf) r d # pre) @ [EvRecv (socket_fd s) (length buf) r' d']"
      using t(1) by simp
    moreover have "list_all (io_event (socket_fd s)) (EvRecv (socket_fd s) (length buf) r d # pre)" using t(3) by simp
    ultimately show ?thesis unfolding drained_def using via_trans [OF via v] t(2) by blast
  next
    case False
    then have "m' = ?m1" using turn k(2) by (auto split: if_splits)
    with False via show ?thesis unfolding drained_def
      by (intro conjI exI [of _ "[]"] exI [of _ r] exI [of _ d]) simp_all
  qed
qed

lemma drain_loop_drained:
  assumes "drain_loop e s buf m = Some m'" "socket_is_open s" "buf \<noteq> []"
  shows "drained s (length buf) m m'"
proof -
  have "socket_is_open s \<longrightarrow> buf \<noteq> [] \<longrightarrow> drained s (length buf) m m'"
    using assms(1)
  proof (rule drain_loop.raw_induct [where P = "\<lambda>e s buf m m'. socket_is_open s \<longrightarrow> buf \<noteq> [] \<longrightarrow>
      drained s (length buf) m m'", rotated])
    fix rec e s buf and m m' :: "'a machine"
    assume "\<And>e s buf m m'. rec e s buf m = Some m' \<Longrightarrow> socket_is_open s \<longrightarrow> buf \<noteq> [] \<longrightarrow> drained s (length buf) m m'"
      and "(let ((r, buf'), m1) = socket_recv e s buf m in if 0 < r then rec e s buf' m1 else Some m1) = Some m'"
    then show "socket_is_open s \<longrightarrow> buf \<noteq> [] \<longrightarrow> drained s (length buf) m m'"
      using drain_turn [of s buf "rec e s" e m m'] by blast
  qed
  with assms(2,3) show ?thesis by blast
qed

text \<open>It returns when what is pending on the descriptors shrinks with every successful \<open>recv\<close>.\<close>

definition recv_drains :: "'w env \<Rightarrow> ('w \<Rightarrow> nat) \<Rightarrow> bool" where
  "recv_drains e pend \<longleftrightarrow> (\<forall>h n w. 0 < fst (fst (k_recv e h n w)) \<longrightarrow> pend (snd (k_recv e h n w)) < pend w)"

lemma drain_loop_returns:
  assumes "recv_drains e pend"
  shows "\<exists>m'. drain_loop e s buf m = Some m'"
proof (induction "pend (world m)" arbitrary: buf m rule: less_induct)
  case less
  show ?case
  proof (cases "socket_is_open s \<and> buf \<noteq> []")
    case False
    then have "socket_recv e s buf m = ((0, buf), m)" by (auto simp: socket_recv_def)
    then show ?thesis by (subst drain_loop.simps) simp
  next
    case True
    then obtain r d w buf' where k: "k_recv e (socket_fd s) (length buf) (world m) = ((r, d), w)"
      "socket_recv e s buf m = ((if 0 \<le> r then r else - 1, buf'), emit (EvRecv (socket_fd s) (length buf) r d) w m)"
      using socket_recv_open by metis
    show ?thesis
    proof (cases "0 < r")
      case pos: True
      then have "pend w < pend (world m)" using assms k(1) unfolding recv_drains_def by (metis fst_conv snd_conv)
      with less.hyps [of "emit (EvRecv (socket_fd s) (length buf) r d) w m" buf'] pos show ?thesis
        by (subst drain_loop.simps) (simp add: k(2))
    next
      case False
      then show ?thesis by (subst drain_loop.simps) (simp add: k(2))
    qed
  qed
qed

section \<open>The blocking mode around it\<close>

text \<open>The calls of \<open>set_blocking\<close> on an open socket.\<close>

definition blocking_events :: "handle \<Rightarrow> bool \<Rightarrow> event list \<Rightarrow> bool" where
  "blocking_events h blocking evs \<longleftrightarrow>
     (\<exists>f q. evs = EvGetfl h f # (if f <s 0 then [] else
        [EvSetfl h (if blocking then f AND NOT O_NONBLOCK else f OR O_NONBLOCK) q]))"

lemma set_blocking_events:
  assumes "socket_is_open s" "socket_set_blocking e s blocking m = (ok, m')"
  shows "\<exists>evs. trace m' = trace m @ evs \<and> blocking_events (socket_fd s) blocking evs"
proof -
  obtain f w where f: "k_getfl e (socket_fd s) (world m) = (f, w)" by (metis prod.collapse)
  obtain q w' where q: "k_setfl e (socket_fd s) (if blocking then f AND NOT O_NONBLOCK else f OR O_NONBLOCK) w = (q, w')"
    by (metis prod.collapse)
  let ?evs = "EvGetfl (socket_fd s) f # (if f <s 0 then [] else
      [EvSetfl (socket_fd s) (if blocking then f AND NOT O_NONBLOCK else f OR O_NONBLOCK) q])"
  have "trace m' = trace m @ ?evs"
    using assms f q by (auto simp: socket_set_blocking_def sys_getfl_def sys_setfl_def Let_def split: if_splits)
  moreover have "blocking_events (socket_fd s) blocking ?evs" unfolding blocking_events_def by blast
  ultimately show ?thesis by blast
qed

lemma io_events_keep_flags: "blocking_events h b evs \<Longrightarrow> list_all (io_event h) evs"
  by (auto simp: blocking_events_def split: if_splits)

lemma serial_purge_eq:
  assumes "p = SerialPort (Some im)" "ser_sock im = Some s" "purge_has flags PurgeRx"
  shows "serial_purge e p flags m =
    map_option (\<lambda>m2. (SerialPort (Some (clear_rx_cache im)), snd (socket_set_blocking e s True m2)))
      (drain_loop e s chunk_4096 (snd (socket_set_blocking e s False m)))"
  using assms by (simp add: serial_purge_def clear_rx_cache_def split: prod.split option.split)

section \<open>Properties\<close>

lemma serial_purge_effect:
  assumes "serial_owned p m" "serial_is_open p" "purge_has flags PurgeRx" "serial_purge e p flags m = Some (p', m')"
  shows "serial_cache p' = [] \<and> consumed p' m' = arrived (serial_fd p) m' \<and> cache_sound p' m' \<and> serial_owned p' m'
    \<and> serial_underlying_socket p' = serial_underlying_socket p \<and> live_fds m' = live_fds m
    \<and> (\<exists>nb recvs r d bl. trace m' = trace m @ nb @ recvs @ [EvRecv (serial_fd p) 4096 r d] @ bl
         \<and> r \<le> 0 \<and> blocking_events (serial_fd p) False nb \<and> blocking_events (serial_fd p) True bl)"
proof -
  obtain im s where p: "p = SerialPort (Some im)" "ser_sock im = Some s" "socket_is_open s"
    "serial_parts p = Some (im, s)" using assms(2) by (rule serial_open_cases)
  obtain ok1 m1 where b1: "socket_set_blocking e s False m = (ok1, m1)" by (metis prod.collapse)
  obtain m2 where d: "drain_loop e s chunk_4096 m1 = Some m2" "p' = SerialPort (Some (clear_rx_cache im))"
    "m' = snd (socket_set_blocking e s True m2)"
    using assms(4) serial_purge_eq [OF p(1,2) assms(3), of e m] b1 by auto
  obtain ok3 where b3: "socket_set_blocking e s True m2 = (ok3, m')" using d(3) by (metis prod.collapse)
  have ne: "chunk_4096 \<noteq> []" "length chunk_4096 = 4096" by (simp_all add: chunk_4096_def)
  have dr: "drained s 4096 m1 m2" using drain_loop_drained [OF d(1) p(3) ne(1)] ne(2) by simp
  obtain nb where nb: "trace m1 = trace m @ nb" "blocking_events (socket_fd s) False nb"
    using set_blocking_events [OF p(3) b1] by blast
  obtain bl where bl: "trace m' = trace m2 @ bl" "blocking_events (socket_fd s) True bl"
    using set_blocking_events [OF p(3) b3] by blast
  obtain recvs r x where rs: "trace m2 = trace m1 @ recvs @ [EvRecv (socket_fd s) 4096 r x]" "r \<le> 0"
    and v2: "via s m1 m2" using dr unfolding drained_def by blast
  have via: "via s m m'" by (rule via_trans [OF via_trans [OF via_set_blocking [OF b1] v2] via_set_blocking [OF b3]])
  have own: "serial_owned p' m'"
    using assms(1) p d(2) via_frame(1) [OF via] via_respects [OF via]
    by (auto simp: serial_owned_def serial_valid_def serial_holds_def clear_rx_cache_def)
  have sound: "cache_sound p' m' \<and> consumed p' m' = arrived (socket_fd s) m'"
    using p d(2) by (intro consumedI) (simp_all add: clear_rx_cache_def im_cache_def)
  have "\<exists>nb recvs r d bl. trace m' = trace m @ nb @ recvs @ [EvRecv (socket_fd s) 4096 r d] @ bl
      \<and> r \<le> 0 \<and> blocking_events (socket_fd s) False nb \<and> blocking_events (socket_fd s) True bl"
    using nb bl rs by (intro exI [of _ nb] exI [of _ recvs] exI [of _ r] exI [of _ x] exI [of _ bl]) simp
  then show ?thesis
    using own sound p d(2) via_frame(1) [OF via] by (simp add: clear_rx_cache_def im_cache_def)
qed

text \<open>
  C15. When \<open>purge\<close> of the receive queue returns, the cache is empty, every byte that has arrived
  counts as consumed, and the port still owns its open socket. In between it made the descriptor
  non-blocking, received until a call brought nothing, and then made it blocking, whatever its mode
  was before.
\<close>

theorem serial_purge_correct:
  assumes "serial_owned p m" "serial_is_open p" "purge_has flags PurgeRx" "serial_purge e p flags m = Some (p', m')"
  shows "serial_cache p' = [] \<and> consumed p' m' = arrived (serial_fd p) m' \<and> cache_sound p' m' \<and> serial_owned p' m'
    \<and> serial_underlying_socket p' = serial_underlying_socket p \<and> live_fds m' = live_fds m
    \<and> (\<exists>nb recvs r d bl. trace m' = trace m @ nb @ recvs @ [EvRecv (serial_fd p) 4096 r d] @ bl
         \<and> r \<le> 0 \<and> blocking_events (serial_fd p) False nb \<and> blocking_events (serial_fd p) True bl)"
  using serial_purge_effect [OF assms] .

lemma sample_owned: "serial_owned sample_port (emit (EvSocket 3) sim_start (boot sim_start)) \<and> serial_is_open sample_port
    \<and> serial_fd sample_port = 3"
  by (simp add: serial_owned_def sample_port_def sample_impl_def sample_socket_def serial_valid_def
      serial_holds_def socket_valid_def socket_is_open_def socket_fd_def socket_holds_def word_sle_eq
      INVALID_SOCKET_HANDLE_def)

theorem serial_purge_correct_witness:
  "\<exists>p' m'. serial_purge sim_env sample_port PurgeAll (emit (EvSocket 3) sim_start (boot sim_start)) = Some (p', m')
     \<and> serial_cache p' = [] \<and> live_fds m' = {#3#}"
proof -
  let ?m = "emit (EvSocket 3) sim_start (boot sim_start)"
  have fl: "purge_has PurgeAll PurgeRx" by code_simp
  have dr: "recv_drains sim_env (\<lambda>w. length (sim_in w))" by (auto simp: recv_drains_def sim_env_def Let_def)
  have sk: "ser_sock sample_impl = Some sample_socket" by (simp add: sample_impl_def)
  obtain m2 where "drain_loop sim_env sample_socket chunk_4096 (snd (socket_set_blocking sim_env sample_socket False ?m)) = Some m2"
    using drain_loop_returns [OF dr] by blast
  with serial_purge_eq [OF sample_port_def sk fl, of sim_env ?m]
  obtain p' m' where r: "serial_purge sim_env sample_port PurgeAll ?m = Some (p', m')" by simp
  from serial_purge_correct [OF _ _ fl r] sample_owned r show ?thesis by (simp add: word_sle_eq)
qed

text \<open>
  \<open>purge\<close> returns when what is pending shrinks with every successful \<open>recv\<close>, that is, when the
  peer does not outrun the draining.
\<close>

theorem serial_purge_returns:
  assumes "recv_drains e pend"
  shows "\<exists>y. serial_purge e p flags m = Some y"
proof -
  have "\<exists>m2. drain_loop e s chunk_4096 m1 = Some m2" for s m1 by (rule drain_loop_returns [OF assms])
  then show ?thesis
    by (auto simp: serial_purge_def Let_def split: option.splits prod.splits) (metis option.distinct(1))
qed

theorem serial_purge_returns_witness:
  "\<exists>y. serial_purge sim_env sample_port PurgeAll (sample_machine [1, 2, 3]) = Some y"
  by (rule serial_purge_returns [of _ "\<lambda>w. length (sim_in w)"]) (auto simp: recv_drains_def sim_env_def Let_def)

text \<open>
  On an open port the receive-queue status is the number of unread bytes: those in the cache plus
  those the kernel reports, with no wrap-around below the range of \<open>size_t\<close>.
\<close>

theorem serial_queue_status_correct:
  assumes "serial_is_open p" "socket_valid (the (serial_underlying_socket p))"
    and "k_fionread e (serial_fd p) (world m) = (pending, w)" "length (serial_cache p) < 2 ^ 63"
    and "serial_get_rx_queue_status e p m = (n, m')"
  shows "unat n = length (serial_cache p) + (case pending of None \<Rightarrow> 0 | Some k \<Rightarrow> unat k)
    \<and> trace m' = trace m @ [EvFionread (serial_fd p)]"
proof -
  obtain im s where p: "p = SerialPort (Some im)" "ser_sock im = Some s" "socket_is_open s"
    "serial_parts p = Some (im, s)" using assms(1) by (rule serial_open_cases)
  have h: "uintptr_to_handle (socket_native_handle s) = socket_fd s"
    using p(3) by (auto simp: socket_native_handle_def socket_fd_def socket_is_open_def split: option.splits)
  let ?k = "(case pending of None \<Rightarrow> 0 | Some k \<Rightarrow> ucast k) :: u64"
  have n: "n = word_of_nat (length (im_cache im)) + ?k" "trace m' = trace m @ [EvFionread (socket_fd s)]"
    using assms(3,5) p h by (auto simp: serial_get_rx_queue_status_def sys_fionread_def)
  have c: "unat (word_of_nat (length (im_cache im)) :: u64) = length (im_cache im)"
    using assms(4) p(1) by (simp add: unat_of_nat)
  have wide: "unat (ucast k :: u64) = unat k \<and> unat k < 2 ^ 32" for k :: u32
    using unsigned_less [of k, where ?'a = nat] by (simp add: unsigned_ucast_eq take_bit_nat_eq_self)
  have k: "unat ?k = (case pending of None \<Rightarrow> 0 | Some k \<Rightarrow> unat k)" "unat ?k < 2 ^ 32"
    using wide by (auto split: option.splits)
  have "length (im_cache im) + unat ?k < 2 ^ 64" using assms(4) p(1) k(2) by simp
  then have "unat n = length (im_cache im) + unat ?k"
    unfolding n(1) by (subst unat_add_lem [THEN iffD1]) (simp_all add: c)
  with k(1) n(2) p show ?thesis by simp
qed

theorem serial_queue_status_correct_witness:
  "unat (fst (serial_get_rx_queue_status sim_env sample_port (sample_machine [1, 2, 3]))) = 5"
proof -
  let ?m = "sample_machine [1, 2, 3]"
  obtain n m' where r: "serial_get_rx_queue_status sim_env sample_port ?m = (n, m')" by (metis prod.collapse)
  have o: "serial_is_open sample_port" "socket_valid (the (serial_underlying_socket sample_port))"
    using sample_owned serial_open_valid [of sample_port sample_socket]
    by (simp_all add: serial_owned_def) (simp add: sample_port_def sample_impl_def)
  have f: "k_fionread sim_env (serial_fd sample_port) (world ?m) = (Some 3, world ?m)"
    by (simp add: sim_env_def sample_machine_def)
  have c: "length (serial_cache sample_port) = 2" by code_simp
  from serial_queue_status_correct [OF o f _ r] c r show ?thesis by simp
qed

end
