(* ===== verification/Serial_Frame.thy ===== *)
theory Serial_Frame
  imports Serial_Purge
begin

text \<open>
  The input, output and settings methods of \<open>SerialPort\<close> keep the port's socket and only make calls
  on its descriptor, whatever the environment answers.
\<close>

section \<open>What such a method keeps\<close>

definition port_io :: "serial_port \<Rightarrow> 'w machine \<Rightarrow> serial_port \<Rightarrow> 'w machine \<Rightarrow> bool" where
  "port_io p m p' m' \<longleftrightarrow> serial_underlying_socket p' = serial_underlying_socket p \<and>
     (serial_valid p \<longrightarrow> serial_valid p') \<and>
     (case serial_underlying_socket p of None \<Rightarrow> m' = m | Some s \<Rightarrow> via s m m')"

named_theorems port_facts \<open>the methods of a port stay on its socket\<close>

lemma port_io_refl [intro, simp]: "port_io p m p m"
  by (simp add: port_io_def split: option.split)

lemma port_io_trans: "port_io p m p' m' \<Longrightarrow> port_io p' m' p'' m'' \<Longrightarrow> port_io p m p'' m''"
  by (auto simp: port_io_def dest: via_trans split: option.splits)

lemma serial_parts_of:
  "ser_sock im = Some s \<Longrightarrow> socket_is_open s \<Longrightarrow> serial_parts (SerialPort (Some im)) = Some (im, s)"
  by (simp add: serial_parts_open)

text \<open>An open port whose \<open>Impl\<close> has changed, but not its socket.\<close>

lemma port_ioI:
  "ser_sock im = Some s \<Longrightarrow> ser_sock im' = Some s \<Longrightarrow> via s m m' \<Longrightarrow>
     port_io (SerialPort (Some im)) m (SerialPort (Some im')) m'"
  by (simp add: port_io_def serial_valid_def)

lemma port_io_owned:
  assumes "port_io p m p' m'" "serial_owned p m"
  shows "serial_owned p' m' \<and> live_fds m' = live_fds m \<and> serial_holds p' = serial_holds p \<and> same_sdp m m'"
proof (cases "serial_underlying_socket p")
  case None
  with assms show ?thesis by (simp add: port_io_def serial_owned_def serial_holds_def)
next
  case (Some s)
  then have v: "via s m m'" "socket_valid s" "socket_holds s \<subseteq># live_fds m"
    using assms serial_open_valid [of p s] by (auto simp: port_io_def serial_owned_def serial_holds_def)
  show ?thesis
    using Some assms via_frame(1) [OF v(1)] via_respects [OF v] via_same_sdp [OF v(1)]
    by (simp add: port_io_def serial_owned_def serial_holds_def)
qed

section \<open>The methods\<close>

lemma port_map_serial [port_facts]:
  assumes "\<And>im. ser_sock (f im) = ser_sock im \<and> rx_buf (f im) = rx_buf im \<and> rx_head (f im) = rx_head im"
  shows "port_io p m (map_serial f p) m"
  using assms
  by (cases p) (auto simp: port_io_def map_serial_def serial_underlying_socket_def serial_valid_def
      split: option.splits)

lemma via_refill:
  "refill_rx_cache e im m = ((ok, im'), m') \<Longrightarrow> ser_sock im = Some s \<Longrightarrow> ser_sock im' = Some s \<and> via s m m'"
  by (auto simp: refill_rx_cache_def clear_rx_cache_def Let_def dest: via_recv split: if_splits prod.splits)

lemma port_set_timeouts [port_facts]: "serial_set_timeouts e p rt wt m = (p', m') \<Longrightarrow> port_io p m p' m'"
  by (cases p) (auto simp: serial_set_timeouts_def port_io_def serial_underlying_socket_def serial_valid_def Let_def
      dest: via_set_timeouts split: option.splits prod.splits)

lemma port_read [port_facts]: "serial_read e p buf m = (((n, buf'), p'), m') \<Longrightarrow> port_io p m p' m'"
proof (cases "serial_parts p")
  case (Some ims)
  assume r: "serial_read e p buf m = (((n, buf'), p'), m')"
  obtain im s where "ims = (im, s)" by (cases ims)
  with Some r show ?thesis
    by (auto simp: serial_read_def serial_parts_open serial_parts_of Let_def dest: via_recv intro!: port_ioI
        split: if_splits prod.splits)
qed (simp add: serial_read_def)

lemma port_read_exact_loop:
  "serial_read_exact_loop e p buf k m = (((ok, buf'), p'), m') \<Longrightarrow> port_io p m p' m'"
proof (induction e p buf k m rule: serial_read_exact_loop.induct)
  case (1 e p buf k m)
  obtain n sub p1 m1 where r: "serial_read e p (drop k buf) m = (((n, sub), p1), m1)" by (metis prod.collapse)
  show ?case
  proof (cases "k < length buf \<and> n \<noteq> 0")
    case True
    then have "port_io p1 m1 p' m'"
      using "1.prems" r "1.IH" [OF _ r [symmetric] refl refl refl]
      by (simp add: serial_read_exact_loop.simps [of e p buf k m])
    with port_read [OF r] show ?thesis by (rule port_io_trans)
  next
    case False
    with "1.prems" r port_read [OF r] show ?thesis
      by (auto simp: serial_read_exact_loop.simps [of e p buf k m] split: if_splits)
  qed
qed

lemma port_read_exact [port_facts]: "serial_read_exact e p buf m = (((ok, buf'), p'), m') \<Longrightarrow> port_io p m p' m'"
  unfolding serial_read_exact_def by (rule port_read_exact_loop)

lemma port_read_byte [port_facts]: "serial_read_byte e p m = ((res, p'), m') \<Longrightarrow> port_io p m p' m'"
proof (cases "serial_parts p")
  case (Some ims)
  assume r: "serial_read_byte e p m = ((res, p'), m')"
  obtain im s where "ims = (im, s)" by (cases ims)
  with Some r show ?thesis
    by (auto simp: serial_read_byte_def serial_parts_open serial_parts_of Let_def dest: via_refill intro!: port_ioI
        split: if_splits prod.splits)
qed (simp add: serial_read_byte_def)

lemma via_read_line_turn:
  assumes rec: "\<And>im line m y. rec im line m = Some y \<Longrightarrow> ser_sock im = Some s \<Longrightarrow>
      ser_sock (snd (fst y)) = Some s \<and> via s m (snd y)"
    and turn: "(let ((found, line), im) = scan_line d im line
      in if found then Some ((line, im), m)
         else let (expired, m) =
                 (if 0 < t then let (now, m) = sys_now e m in (timed_out start now t, m) else (False, m))
           in if expired then Some ((line, im), m)
              else let ((ok, im), m) = refill_rx_cache e im m
                in if \<not> ok then Some ((line, im), m) else rec im line m) = Some y"
    and s: "ser_sock im = Some s" "socket_is_open s"
  shows "ser_sock (snd (fst y)) = Some s \<and> via s m (snd y)"
proof -
  obtain found l1 im1 where sc: "scan_line d im line = ((found, l1), im1)" by (metis prod.collapse)
  have im1: "ser_sock im1 = Some s" using scan_line_sock [OF sc] s by simp
  obtain expired m1 where ex: "(if 0 < t then let (now, m) = sys_now e m in (timed_out start now t, m)
      else (False, m)) = (expired, m1)" by (metis prod.collapse)
  have v1: "via s m m1"
    using ex s(2) by (auto simp: sys_now_def via_def split: if_splits prod.splits)
  obtain ok im2 m2 where rf: "refill_rx_cache e im1 m1 = ((ok, im2), m2)" by (metis prod.collapse)
  note v2 = via_refill [OF rf im1]
  have v12: "via s m m2" by (rule via_trans [OF v1 conjunct2 [OF v2]])
  show ?thesis
    using turn sc ex rf im1 v1 v2 v12 rec [of im2 l1 m2 y] via_trans [OF v12]
    by (auto split: if_splits)
qed

lemma via_read_line_loop:
  assumes "read_line_loop e d t start im line m = Some y" "ser_sock im = Some s" "socket_is_open s"
  shows "ser_sock (snd (fst y)) = Some s \<and> via s m (snd y)"
proof -
  have "ser_sock im = Some s \<longrightarrow> ser_sock (snd (fst y)) = Some s \<and> via s m (snd y)"
    using assms(1)
  proof (rule read_line_loop.raw_induct [where P = "\<lambda>e d t start im line m y. ser_sock im = Some s \<longrightarrow>
      ser_sock (snd (fst y)) = Some s \<and> via s m (snd y)", rotated])
    fix rec e d t start im line y and m :: "'a machine"
    assume "\<And>e d t start im line m y. rec e d t start im line m = Some y \<Longrightarrow> ser_sock im = Some s \<longrightarrow>
        ser_sock (snd (fst y)) = Some s \<and> via s m (snd y)"
      and "(let ((found, line), im) = scan_line d im line
        in if found then Some ((line, im), m)
           else let (expired, m) =
                   (if 0 < t then let (now, m) = sys_now e m in (timed_out start now t, m) else (False, m))
             in if expired then Some ((line, im), m)
                else let ((ok, im), m) = refill_rx_cache e im m
                  in if \<not> ok then Some ((line, im), m) else rec e d t start im line m) = Some y"
    then show "ser_sock im = Some s \<longrightarrow> ser_sock (snd (fst y)) = Some s \<and> via s m (snd y)"
      using via_read_line_turn [of "rec e d t start" s d im line m t e start y] assms(3) by blast
  qed
  with assms(2) show ?thesis by blast
qed

lemma port_read_line [port_facts]: "serial_read_line e p d t m = Some ((line, p'), m') \<Longrightarrow> port_io p m p' m'"
proof (cases "serial_is_open p")
  case True
  assume r: "serial_read_line e p d t m = Some ((line, p'), m')"
  obtain im s start m1 where p: "p = SerialPort (Some im)" "ser_sock im = Some s" "socket_is_open s"
    "sys_now e m = (start, m1)" "arrived (socket_fd s) m1 = arrived (socket_fd s) m"
    "serial_read_line e p d t m = map_option (\<lambda>((line, im), m). ((line, SerialPort (Some im)), m))
       (read_line_loop e d t start im [] m1)"
    by (rule serial_read_line_parts [OF True, of e m d t])
  then obtain im' where l: "read_line_loop e d t start im [] m1 = Some ((line, im'), m')"
    "p' = SerialPort (Some im')" using r by auto
  have "via s m m1" using p(3,4) by (auto simp: sys_now_def via_def split: prod.splits)
  with via_read_line_loop [OF l(1) p(2,3)] p(1,2) l(2) show ?thesis
    by (auto intro!: port_ioI dest: via_trans)
next
  case False
  assume "serial_read_line e p d t m = Some ((line, p'), m')"
  with False show ?thesis by (simp add: closed_port_inert)
qed

lemma port_write [port_facts]: "serial_write e p data m = (n, m') \<Longrightarrow> port_io p m p m'"
proof (cases "serial_parts p")
  case (Some ims)
  assume r: "serial_write e p data m = (n, m')"
  obtain im s where "ims = (im, s)" by (cases ims)
  with Some r show ?thesis
    by (auto simp: serial_write_def serial_parts_open serial_parts_of Let_def dest: via_send intro!: port_ioI
        split: if_splits prod.splits)
qed (simp add: serial_write_def)

lemma port_write_line [port_facts]: "serial_write_line e p line eol m = (ok, m') \<Longrightarrow> port_io p m p m'"
proof (cases "serial_parts p")
  case (Some ims)
  assume r: "serial_write_line e p line eol m = (ok, m')"
  obtain im s where "ims = (im, s)" by (cases ims)
  with Some r show ?thesis
    by (auto simp: serial_write_line_def serial_parts_open serial_parts_of dest: via_send_all intro!: port_ioI)
qed (simp add: serial_write_line_def)

lemma port_queue_status [port_facts]: "serial_get_rx_queue_status e p m = (n, m') \<Longrightarrow> port_io p m p m'"
proof (cases "serial_parts p")
  case (Some ims)
  assume r: "serial_get_rx_queue_status e p m = (n, m')"
  obtain im s where "ims = (im, s)" by (cases ims)
  then have p: "p = SerialPort (Some im)" "ser_sock im = Some s" "socket_is_open s"
    using Some by (simp_all add: serial_parts_open)
  have h: "uintptr_to_handle (socket_native_handle s) = socket_fd s"
    using p(3) by (auto simp: socket_native_handle_def socket_fd_def socket_is_open_def split: option.splits)
  have "via s m m'"
    using r Some \<open>ims = (im, s)\<close> p(3) h
    by (auto simp: serial_get_rx_queue_status_def sys_fionread_def via_def Let_def split: prod.splits)
  with p show ?thesis by (auto intro!: port_ioI)
qed (simp add: serial_get_rx_queue_status_def)

lemma via_drain_loop:
  assumes "drain_loop e s buf m = Some m'"
  shows "via s m m'"
proof (cases "socket_is_open s \<and> buf \<noteq> []")
  case True
  then show ?thesis using drain_loop_drained [OF assms] by (simp add: drained_def)
next
  case False
  then have "socket_recv e s buf m = ((0, buf), m)" by (auto simp: socket_recv_def)
  with assms show ?thesis by (subst (asm) drain_loop.simps) simp
qed

lemma port_purge [port_facts]: "serial_purge e p flags m = Some (p', m') \<Longrightarrow> port_io p m p' m'"
  by (cases p) (auto simp: serial_purge_def port_io_def serial_underlying_socket_def serial_valid_def
      clear_rx_cache_def Let_def dest!: via_drain_loop via_set_blocking intro: via_trans
      split: option.splits if_splits prod.splits)

end
