(* ===== verification/Api_System.thy ===== *)
theory Api_System
  imports Ownership Server_Facts Serial_Frame
begin

text \<open>
  Programs that use the library, as a transition system: a list of objects (sockets, servers,
  registrations, ports) over one machine, and one step per construction, destruction, move or call of
  the API, with arbitrary arguments and in any order, over an arbitrary environment. The invariant says
  that the objects own every descriptor, every SDP session and every published record. It says nothing of
  the heap: a record that BlueZ has allocated and that was not published, or an SDP response, can be lost
  (\<open>Sdp_Facts\<close>, \<open>Sdp_Resolve\<close>).

  Queries that make no call and change nothing (\<open>is_open\<close>, \<open>channel\<close>, \<open>is_registered\<close> and so on) are not
  steps. Left out are the calls whose behaviour C++ does not define (a method of a moved-from object that
  dereferences its null \<open>pimpl_\<close>, the overflow in \<open>resolve_channel\<close>, after which the session stays open) and
  \<open>Socket::from_native\<close> and \<open>underlying_socket\<close>, by which a caller can break the ownership from outside.
\<close>

section \<open>Objects\<close>

datatype obj = OSock socket | OServ server | OReg registration | OPort serial_port

primrec obj_fds :: "obj \<Rightarrow> handle multiset" where
  "obj_fds (OSock s) = socket_holds s"
| "obj_fds (OServ v) = server_fds v"
| "obj_fds (OReg g) = {#}"
| "obj_fds (OPort p) = serial_holds p"

primrec obj_sessions :: "obj \<Rightarrow> ptr multiset" where
  "obj_sessions (OSock s) = {#}"
| "obj_sessions (OServ v) = registration_sessions (server_reg v)"
| "obj_sessions (OReg g) = registration_sessions g"
| "obj_sessions (OPort p) = {#}"

primrec obj_records :: "obj \<Rightarrow> ptr multiset" where
  "obj_records (OSock s) = {#}"
| "obj_records (OServ v) = registration_records (server_reg v)"
| "obj_records (OReg g) = registration_records g"
| "obj_records (OPort p) = {#}"

primrec obj_valid :: "obj \<Rightarrow> bool" where
  "obj_valid (OSock s) = socket_valid s"
| "obj_valid (OServ v) = server_valid v"
| "obj_valid (OReg g) = registration_valid g"
| "obj_valid (OPort p) = serial_valid p"

text \<open>The destructors, and what moving from an object leaves behind.\<close>

primrec obj_destroy :: "'w env \<Rightarrow> obj \<Rightarrow> 'w machine \<Rightarrow> 'w machine" where
  "obj_destroy e (OSock s) m = socket_destroy e s m"
| "obj_destroy e (OServ v) m = server_destroy e v m"
| "obj_destroy e (OReg g) m = registration_destroy e g m"
| "obj_destroy e (OPort p) m = serial_destroy e p m"

primrec obj_move :: "obj \<Rightarrow> obj \<times> obj" where
  "obj_move (OSock s) = (let (new, old) = socket_move s in (OSock new, OSock old))"
| "obj_move (OServ v) = (let (new, old) = server_move v in (OServ new, OServ old))"
| "obj_move (OReg g) = (let (new, old) = registration_move g in (OReg new, OReg old))"
| "obj_move (OPort p) = (let (new, old) = serial_move p in (OPort new, OPort old))"

definition null_obj :: obj where
  "null_obj = OSock (Socket None)"

lemma null_obj [simp]:
  "obj_fds null_obj = {#}" "obj_sessions null_obj = {#}" "obj_records null_obj = {#}" "obj_valid null_obj"
  by (simp_all add: null_obj_def socket_holds_def socket_valid_def socket_is_open_def)

section \<open>The calls on one object\<close>

inductive api_call :: "'w env \<Rightarrow> obj \<Rightarrow> 'w machine \<Rightarrow> obj \<Rightarrow> 'w machine \<Rightarrow> bool" for e where
  sock_close: "socket_close e s m = (s', m') \<Longrightarrow> api_call e (OSock s) m (OSock s') m'"
| sock_send: "socket_send e s d m = (r, m') \<Longrightarrow> api_call e (OSock s) m (OSock s) m'"
| sock_send_all: "socket_send_all e s d m = (ok, m') \<Longrightarrow> api_call e (OSock s) m (OSock s) m'"
| sock_recv: "socket_recv e s b m = (r, m') \<Longrightarrow> api_call e (OSock s) m (OSock s) m'"
| sock_recv_all: "socket_recv_all e s b m = (r', m') \<Longrightarrow> api_call e (OSock s) m (OSock s) m'"
| sock_recv_some: "socket_recv_some e s n m = (bs, m') \<Longrightarrow> api_call e (OSock s) m (OSock s) m'"
| sock_buffers: "socket_set_buffer_sizes e s i j m = (ok, m') \<Longrightarrow> api_call e (OSock s) m (OSock s) m'"
| sock_timeouts: "socket_set_timeouts e s i j m = (ok, m') \<Longrightarrow> api_call e (OSock s) m (OSock s) m'"
| sock_blocking: "socket_set_blocking e s b m = (ok, m') \<Longrightarrow> api_call e (OSock s) m (OSock s) m'"
| serv_listen: "server_listen e v ch n m = ((Inr ok, v'), m') \<Longrightarrow> api_call e (OServ v) m (OServ v') m'"
| serv_listen_sdp: "server_listen_with_sdp e v u nm ch n m = ((Inr ok, v'), m') \<Longrightarrow> api_call e (OServ v) m (OServ v') m'"
| serv_close: "server_close e v m = (v', m') \<Longrightarrow> api_call e (OServ v) m (OServ v') m'"
| serv_accept_none: "server_accept e v m = (None, m') \<Longrightarrow> api_call e (OServ v) m (OServ v) m'"
| reg_unregister: "registration_unregister e g m = (g', m') \<Longrightarrow> api_call e (OReg g) m (OReg g') m'"
| port_open: "serial_open e p a ch t m = ((Inr ok, p'), m') \<Longrightarrow> api_call e (OPort p) m (OPort p') m'"
| port_open_mac: "serial_open_mac e p mac ch t m = ((Inr ok, p'), m') \<Longrightarrow> api_call e (OPort p) m (OPort p') m'"
| port_open_uuid: "serial_open_by_uuid e p a u t m = ((Inr ok, p'), m') \<Longrightarrow> api_call e (OPort p) m (OPort p') m'"
| port_open_text: "serial_open_by_uuid_text e p mac us t m = ((Inr ok, p'), m') \<Longrightarrow> api_call e (OPort p) m (OPort p') m'"
| port_close: "serial_close e p m = (p', m') \<Longrightarrow> api_call e (OPort p) m (OPort p') m'"
| port_timeouts: "serial_set_timeouts e p rt wt m = (p', m') \<Longrightarrow> api_call e (OPort p) m (OPort p') m'"
| port_baud: "api_call e (OPort p) m (OPort (serial_set_baud_rate b p)) m"
| port_characteristics: "api_call e (OPort p) m (OPort (serial_set_data_characteristics db sb y p)) m"
| port_flow: "api_call e (OPort p) m (OPort (serial_set_flow_control fc p)) m"
| port_dtr: "api_call e (OPort p) m (OPort (serial_set_dtr x p)) m"
| port_rts: "api_call e (OPort p) m (OPort (serial_set_rts x p)) m"
| port_read: "serial_read e p b m = (((k, b'), p'), m') \<Longrightarrow> api_call e (OPort p) m (OPort p') m'"
| port_read_exact: "serial_read_exact e p b m = (((ok, b'), p'), m') \<Longrightarrow> api_call e (OPort p) m (OPort p') m'"
| port_read_byte: "serial_read_byte e p m = ((ob, p'), m') \<Longrightarrow> api_call e (OPort p) m (OPort p') m'"
| port_read_line: "serial_read_line e p d t m = Some ((l, p'), m') \<Longrightarrow> api_call e (OPort p) m (OPort p') m'"
| port_write: "serial_write e p bs m = (n, m') \<Longrightarrow> api_call e (OPort p) m (OPort p) m'"
| port_write_line: "serial_write_line e p l eol m = (ok, m') \<Longrightarrow> api_call e (OPort p) m (OPort p) m'"
| port_queue: "serial_get_rx_queue_status e p m = (q, m') \<Longrightarrow> api_call e (OPort p) m (OPort p) m'"
| port_purge: "serial_purge e p fl m = Some (p', m') \<Longrightarrow> api_call e (OPort p) m (OPort p') m'"

section \<open>Steps of a program\<close>

inductive api_step :: "'w env \<Rightarrow> obj list \<times> 'w machine \<Rightarrow> obj list \<times> 'w machine \<Rightarrow> bool" for e where
  new_socket: "api_step e (os, m) (os @ [OSock socket_new], m)"
| new_server: "api_step e (os, m) (os @ [OServ server_new], m)"
| new_registration: "api_step e (os, m) (os @ [OReg registration_new], m)"
| new_port: "api_step e (os, m) (os @ [OPort serial_new], m)"
| call: "i < length os \<Longrightarrow> api_call e (os ! i) m x m' \<Longrightarrow> api_step e (os, m) (os[i := x], m')"
| destroy: "i < length os \<Longrightarrow>
    api_step e (os, m) (take i os @ drop (Suc i) os, obj_destroy e (os ! i) m)"
| move: "i < length os \<Longrightarrow> obj_move (os ! i) = (new, old) \<Longrightarrow>
    api_step e (os, m) (os[i := old] @ [new], m)"
| move_assign: "i < length os \<Longrightarrow> j < length os \<Longrightarrow> i \<noteq> j \<Longrightarrow> obj_move (os ! j) = (new, old) \<Longrightarrow>
    api_step e (os, m) (os[i := new, j := old], obj_destroy e (os ! i) m)"
| accept: "i < length os \<Longrightarrow> os ! i = OServ v \<Longrightarrow> server_accept e v m = (Some s, m') \<Longrightarrow>
    api_step e (os, m) (os @ [OSock s], m')"
| connect: "client_connect e a ch t m = (r, m') \<Longrightarrow>
    api_step e (os, m) (os @ (case r of None \<Rightarrow> [] | Some s \<Rightarrow> [OSock s]), m')"
| connect_by_sdp: "client_connect_by_sdp e a u t m = (Inr r, m') \<Longrightarrow>
    api_step e (os, m) (os @ (case r of None \<Rightarrow> [] | Some s \<Rightarrow> [OSock s]), m')"
| publish: "registration_create e ch u nm prov m = (r, m') \<Longrightarrow>
    api_step e (os, m) (os @ (case r of None \<Rightarrow> [] | Some g \<Rightarrow> [OReg g]), m')"
| resolve: "resolve_channel e a u m = (Inr c, m') \<Longrightarrow> api_step e (os, m) (os, m')"
| attach: "i < length os \<Longrightarrow> j < length os \<Longrightarrow> i \<noteq> j \<Longrightarrow> os ! i = OPort p \<Longrightarrow> os ! j = OSock s \<Longrightarrow>
    serial_attach e p (Some s) m = ((Inr b, p'), m') \<Longrightarrow>
    api_step e (os, m) (os[i := OPort p', j := null_obj], m')"

section \<open>The invariant\<close>

definition sys_inv :: "obj list \<times> 'w machine \<Rightarrow> bool" where
  "sys_inv = (\<lambda>(os, m). list_all obj_valid os \<and> live_fds m = owned_by obj_fds os \<and>
     live_sessions m = owned_by obj_sessions os \<and> published m = owned_by obj_records os \<and>
     fds_respected m \<and> sessions_respected m)"

text \<open>One object changes and the ledger changes by the difference of what it holds.\<close>

definition obj_owned :: "obj \<Rightarrow> 'w machine \<Rightarrow> bool" where
  "obj_owned x m \<longleftrightarrow> obj_valid x \<and> obj_fds x \<subseteq># live_fds m \<and> obj_sessions x \<subseteq># live_sessions m \<and>
     obj_records x \<subseteq># published m \<and> fds_respected m \<and> sessions_respected m"

definition balanced :: "obj \<Rightarrow> 'w machine \<Rightarrow> obj \<Rightarrow> 'w machine \<Rightarrow> bool" where
  "balanced x m x' m' \<longleftrightarrow> obj_valid x' \<and> live_fds m' + obj_fds x = live_fds m + obj_fds x' \<and>
     live_sessions m' + obj_sessions x = live_sessions m + obj_sessions x' \<and>
     published m' + obj_records x = published m + obj_records x' \<and> fds_respected m' \<and> sessions_respected m'"

lemma sys_inv_owned: "sys_inv (os, m) \<Longrightarrow> i < length os \<Longrightarrow> obj_owned (os ! i) m"
  by (simp add: sys_inv_def obj_owned_def list_all_length owned_by_part)

lemma sys_inv_update:
  assumes "sys_inv (os, m)" "i < length os" "balanced (os ! i) m x m'"
  shows "sys_inv (os[i := x], m')"
proof -
  have "list_all obj_valid (os[i := x])"
    using assms by (auto simp: sys_inv_def balanced_def list_all_length nth_list_update)
  then show ?thesis
    using assms by (auto simp: sys_inv_def balanced_def intro: owned_by_balance [OF assms(2)])
qed

lemma sys_inv_append: "sys_inv (os, m) \<Longrightarrow> balanced null_obj m x m' \<Longrightarrow> sys_inv (os @ [x], m')"
  by (auto simp: sys_inv_def balanced_def)

section \<open>Every call is balanced\<close>

lemma balanced_via: "via s m m' \<Longrightarrow> obj_owned (OSock s) m \<Longrightarrow> balanced (OSock s) m (OSock s) m'"
  using via_frame [of s m m'] via_respects [of s m m'] by (simp add: obj_owned_def balanced_def)

lemma balanced_port_io: "port_io p m p' m' \<Longrightarrow> obj_owned (OPort p) m \<Longrightarrow> balanced (OPort p) m (OPort p') m'"
  using port_io_owned [of p m p' m']
  by (simp add: obj_owned_def balanced_def serial_owned_def same_sdp_def)

lemma balanced_sock_close:
  assumes "socket_close e s m = (s', m')" "obj_owned (OSock s) m"
  shows "balanced (OSock s) m (OSock s') m'"
proof -
  have o: "socket_valid s" "socket_holds s \<subseteq># live_fds m" "fds_respected m" "sessions_respected m"
    using assms(2) by (simp_all add: obj_owned_def)
  show ?thesis
    using socket_closable.close_accounts [OF o(1,2) assms(1)] socket_close_result [OF assms(1)]
      socket_close_respects [OF assms(1) o(2)] socket_close_same_sdp [OF assms(1)] o
    by (simp add: balanced_def same_sdp_def)
qed

lemma balanced_serv_close:
  assumes "server_close e v m = (v', m')" "obj_owned (OServ v) m"
  shows "balanced (OServ v) m (OServ v') m'"
proof -
  have o: "server_owned v m" using assms(2) by (simp add: obj_owned_def server_owned_def)
  then have v: "server_valid v" by (simp add: server_owned_def)
  show ?thesis
    using server_close_owned [OF o assms(1)] server_close_result [OF v assms(1)] by (simp add: balanced_def)
qed

lemma balanced_port_close:
  assumes "serial_close e p m = (p', m')" "obj_owned (OPort p) m"
  shows "balanced (OPort p) m (OPort p') m'"
proof -
  have o: "serial_owned p m" using assms(2) by (simp add: obj_owned_def serial_owned_def)
  show ?thesis
    using serial_close_owned [OF o assms(1)] serial_close_result [OF assms(1)]
      serial_close_same_sdp [OF assms(1)] assms(2) by (simp add: balanced_def same_sdp_def obj_owned_def)
qed

lemma balanced_serv_listen:
  assumes "server_listen e v ch n m = ((Inr ok, v'), m')" "obj_owned (OServ v) m"
  shows "balanced (OServ v) m (OServ v') m'"
proof -
  have o: "server_owned v m" using assms(2) by (simp add: obj_owned_def server_owned_def)
  have p: "server_pimpl v \<noteq> None" using assms(1) by (auto simp: server_listen_def split: option.splits)
  obtain v0 m0 where c: "server_close e v m = (v0, m0)" by (metis prod.collapse)
  have v: "server_valid v" using o by (simp add: server_owned_def)
  show ?thesis
    using server_listen_owned [OF o p assms(1)] server_listen_effect(3) [OF v c p assms(1)]
    by (simp add: balanced_def server_owned_def)
qed

lemma balanced_serv_listen_sdp:
  assumes "server_listen_with_sdp e v u nm ch n m = ((Inr ok, v'), m')" "obj_owned (OServ v) m"
  shows "balanced (OServ v) m (OServ v') m'"
proof -
  have o: "server_owned v m" using assms(2) by (simp add: obj_owned_def server_owned_def)
  have p: "server_pimpl v \<noteq> None"
    using assms(1) by (auto simp: server_listen_with_sdp_def server_listen_def split: option.splits)
  show ?thesis
    using server_listen_with_sdp_effect [OF o p assms(1)] by (simp add: balanced_def server_owned_def)
qed

lemma balanced_unregister:
  assumes "registration_unregister e g m = (g', m')" "obj_owned (OReg g) m"
  shows "balanced (OReg g) m (OReg g') m'"
proof -
  have o: "registration_valid g" "registration_sessions g \<subseteq># live_sessions m"
    "registration_records g \<subseteq># published m" "fds_respected m" "sessions_respected m"
    using assms(2) by (simp_all add: obj_owned_def)
  show ?thesis
    using registration_session.close_accounts [OF o(1,2) assms(1)] registration_record.close_accounts [OF o(1,3) assms(1)]
      registration_unregister_result [OF o(1) assms(1)] registration_unregister_ledger [OF o(1) assms(1)] o
    by (simp add: balanced_def)
qed

text \<open>A port that is opened anew.\<close>

lemma balanced_reopened:
  assumes "same_sdp m m'" "serial_owned p' m'" "live_fds m' + serial_holds p = live_fds m + serial_holds p'"
    and "obj_owned (OPort p) m"
  shows "balanced (OPort p) m (OPort p') m'"
  using assms by (simp add: balanced_def obj_owned_def serial_owned_def same_sdp_def)

lemma balanced_port_open:
  assumes "serial_open e p a ch t m = ((Inr ok, p'), m')" "obj_owned (OPort p) m"
  shows "balanced (OPort p) m (OPort p') m'"
proof -
  have o: "serial_owned p m" using assms(2) by (simp add: obj_owned_def serial_owned_def)
  have "serial_pimpl p \<noteq> None"
    using assms(1) by (cases "serial_pimpl p") (auto simp: serial_open_def serial_close_def serial_adopt_def
        split: prod.splits)
  from serial_open_effect [OF o this assms(1)] assms(2) show ?thesis by (blast intro: balanced_reopened)
qed

lemma balanced_port_open_uuid:
  assumes "serial_open_by_uuid e p a u t m = ((Inr ok, p'), m')" "obj_owned (OPort p) m"
  shows "balanced (OPort p) m (OPort p') m'"
proof -
  have o: "serial_owned p m" using assms(2) by (simp add: obj_owned_def serial_owned_def)
  have "serial_pimpl p \<noteq> None"
    using assms(1) by (cases "serial_pimpl p") (auto simp: serial_open_by_uuid_def serial_close_def
        serial_adopt_def split: prod.splits sum.splits)
  from serial_open_by_uuid_effect [OF o this assms(1)] assms(2) show ?thesis by (blast intro: balanced_reopened)
qed

lemma balanced_refl: "obj_owned x m \<Longrightarrow> balanced x m x m"
  by (simp add: obj_owned_def balanced_def)

lemma balanced_serv_accept_none:
  assumes "server_accept e v m = (None, m')" "obj_owned (OServ v) m"
  shows "balanced (OServ v) m (OServ v) m'"
  using server_accept_effect [OF _ assms(1)] assms(2) by (simp add: obj_owned_def balanced_def same_sdp_def)

lemmas balanced_objects = balanced_unregister balanced_sock_close balanced_serv_close balanced_port_close balanced_serv_listen
  balanced_serv_listen_sdp balanced_port_open balanced_port_open_uuid balanced_serv_accept_none balanced_refl

lemma api_call_balanced: "api_call e x m x' m' \<Longrightarrow> obj_owned x m \<Longrightarrow> balanced x m x' m'"
proof (induction rule: api_call.induct)
  case (port_open_mac p mac ch t m ok p' m')
  then show ?case by (auto simp: serial_open_mac_def intro: balanced_objects split: option.splits)
next
  case (port_open_text p mac us t m ok p' m')
  then show ?case by (auto simp: serial_open_by_uuid_text_def intro: balanced_objects split: option.splits)
qed (auto intro: balanced_objects via_facts [THEN balanced_via] port_facts [THEN balanced_port_io]
    simp: serial_set_baud_rate_def serial_set_data_characteristics_def serial_set_flow_control_def
      serial_set_dtr_def serial_set_rts_def)

section \<open>Every step keeps the invariant\<close>

lemma sys_inv_pair:
  assumes "sys_inv (os, m)" "i < length os" "j < length os" "i \<noteq> j" "obj_valid x" "obj_valid y"
    and "live_fds m' + (obj_fds (os ! i) + obj_fds (os ! j)) = live_fds m + (obj_fds x + obj_fds y)"
    and "live_sessions m' + (obj_sessions (os ! i) + obj_sessions (os ! j)) = live_sessions m + (obj_sessions x + obj_sessions y)"
    and "published m' + (obj_records (os ! i) + obj_records (os ! j)) = published m + (obj_records x + obj_records y)"
    and "fds_respected m'" "sessions_respected m'"
  shows "sys_inv (os[i := x, j := y], m')"
proof -
  have "list_all obj_valid (os[i := x, j := y])"
    using assms(1-6) by (auto simp: sys_inv_def list_all_length nth_list_update)
  then show ?thesis
    using assms by (auto simp: sys_inv_def intro: owned_by_balance2 [OF assms(2-4)])
qed

lemma sys_inv_drop:
  assumes "sys_inv (os[i := null_obj], m)" "i < length os"
  shows "sys_inv (take i os @ drop (Suc i) os, m)"
  using assms by (simp add: upd_conv_take_nth_drop sys_inv_def)

lemma obj_destroy_balanced:
  assumes "obj_owned x m"
  shows "balanced x m null_obj (obj_destroy e x m)"
proof (cases x)
  case (OSock s)
  obtain s' m' where c: "socket_close e s m = (s', m')" by (metis prod.collapse)
  from balanced_sock_close [OF c] assms OSock c socket_close_result [OF c] show ?thesis
    by (simp add: balanced_def socket_destroy_close)
next
  case (OServ v)
  obtain v' m' where c: "server_close e v m = (v', m')" by (metis prod.collapse)
  have "server_valid v" using assms OServ by (simp add: obj_owned_def)
  from balanced_serv_close [OF c] assms OServ c server_close_result [OF this c] show ?thesis
    by (simp add: balanced_def server_destroy_close)
next
  case (OReg g)
  obtain g' m' where c: "registration_unregister e g m = (g', m')" by (metis prod.collapse)
  have "registration_valid g" using assms OReg by (simp add: obj_owned_def)
  from balanced_unregister [OF c] assms OReg c registration_unregister_result [OF this c] show ?thesis
    by (simp add: balanced_def registration_destroy_unregister)
next
  case (OPort p)
  obtain p' m' where c: "serial_close e p m = (p', m')" by (metis prod.collapse)
  from balanced_port_close [OF c] assms OPort c serial_close_result [OF c] show ?thesis
    by (simp add: balanced_def serial_destroy_close)
qed

lemma obj_move_transfers:
  assumes "obj_move x = (new, old)" "obj_valid x"
  shows "obj_valid new \<and> obj_valid old \<and> obj_fds new = obj_fds x \<and> obj_fds old = {#}
    \<and> obj_sessions new = obj_sessions x \<and> obj_sessions old = {#}
    \<and> obj_records new = obj_records x \<and> obj_records old = {#}"
  using assms
  by (cases x) (auto simp: socket_move_def server_move_def serial_move_def socket_valid_def socket_is_open_def
      socket_fd_def socket_holds_def server_defs registration_move_def registration_defs serial_valid_def
      serial_holds_def serial_underlying_socket_def)

lemma sys_inv_null: "sys_inv (os, m) \<Longrightarrow> sys_inv (os @ [null_obj], m)"
  by (simp add: sys_inv_def)

lemma new_objects [simp]:
  "socket_valid socket_new" "socket_holds socket_new = {#}"
  "registration_valid registration_new" "registration_sessions registration_new = {#}"
  "registration_records registration_new = {#}"
  by (simp_all add: registration_new_def registration_valid_def registration_sessions_def
      registration_records_def socket_new_def socket_impl_default_def socket_valid_def socket_is_open_def
      socket_holds_def)

lemma api_step_inv: "api_step e c c' \<Longrightarrow> sys_inv c \<Longrightarrow> sys_inv c'"
proof (induction rule: api_step.induct)
  case (new_socket os m)
  then show ?case by (simp add: sys_inv_def)
next
  case (new_server os m)
  then show ?case by (simp add: sys_inv_def)
next
  case (new_registration os m)
  then show ?case by (simp add: sys_inv_def)
next
  case (new_port os m)
  then show ?case by (simp add: sys_inv_def)
next
  case (call i os m x m')
  then show ?case by (meson api_call_balanced sys_inv_owned sys_inv_update)
next
  case (destroy i os m)
  then show ?case by (meson obj_destroy_balanced sys_inv_owned sys_inv_update sys_inv_drop)
next
  case (move i os new old m)
  have v: "obj_valid (os ! i)" using sys_inv_owned [OF move(3,1)] by (simp add: obj_owned_def)
  have r: "fds_respected m" "sessions_respected m" using move(3) by (simp_all add: sys_inv_def)
  have "sys_inv ((os @ [null_obj])[i := old, length os := new], m)"
    by (rule sys_inv_pair [OF sys_inv_null [OF move(3)]])
      (use move(1) obj_move_transfers [OF move(2) v] r in \<open>simp_all add: nth_append\<close>)
  with move(1) show ?case by (simp add: list_update_append)
next
  case (move_assign i os j new old m)
  have o: "obj_owned (os ! i) m" "obj_valid (os ! j)"
    using sys_inv_owned [OF move_assign(5)] move_assign(1,2) by (auto simp: obj_owned_def)
  note b = obj_destroy_balanced [OF o(1), of e]
  show ?case
    by (rule sys_inv_pair [OF move_assign(5,1,2,3)])
      (use b obj_move_transfers [OF move_assign(4) o(2)] in \<open>simp_all add: balanced_def flip: add.assoc\<close>)
next
  case (accept i os v m s m')
  have o: "server_valid v" "server_fds v \<subseteq># live_fds m"
    using sys_inv_owned [OF accept(4,1)] accept(2) by (simp_all add: obj_owned_def)
  show ?case
    using server_accept_effect [OF o(1) accept(3)] o(2) accept(4)
    by (simp add: sys_inv_def same_sdp_def)
next
  case (connect a ch t m r m' os)
  show ?case
    using client_connect_effect [OF connect(1)] connect(2)
    by (cases r) (auto simp: sys_inv_def same_sdp_def)
next
  case (connect_by_sdp a u t m r m' os)
  show ?case
    using client_connect_by_sdp_effect [OF connect_by_sdp(1)] connect_by_sdp(2)
    by (cases r) (auto simp: sys_inv_def same_sdp_def)
next
  case (publish ch u nm prov m r m' os)
  show ?case
    using registration_create_paths [where e = e and channel = ch and u = u and nm = nm and pr = prov and m = m]
      registration_create_respects [OF publish(1)] publish
    by (cases r) (auto simp: sys_inv_def)
next
  case (resolve a u m c m' os)
  then show ?case using resolve_channel_ledger [OF resolve(1)] by (simp add: sys_inv_def same_sdp_def)
next
  case (attach i os j p s m b p' m')
  have pair: "serial_holds p + socket_holds s \<subseteq># live_fds m"
    using owned_by_pair [OF attach(1,2,3), of obj_fds null_obj] attach(4,5,7) by (simp add: sys_inv_def)
  have o: "serial_owned p m" "socket_valid s"
    using sys_inv_owned [OF attach(7,1)] sys_inv_owned [OF attach(7,2)] attach(4,5)
    by (simp_all add: obj_owned_def serial_owned_def)
  have eff: "same_sdp m m' \<and> serial_owned p' m' \<and> live_fds m' + (serial_holds p + socket_holds s) = live_fds m + serial_holds p'"
  proof (cases "serial_pimpl p")
    case None
    then have "\<not> socket_is_open s \<and> p' = p \<and> m' = m"
      using attach(6) by (auto simp: serial_attach_def serial_close_def serial_adopt_def closed_socket_inert(8)
          split: if_splits)
    with o(1) show ?thesis by (simp add: socket_holds_closed)
  next
    case (Some im)
    have "serial_pimpl p \<noteq> None" "pred_option socket_valid (Some s)" using Some o(2) by simp_all
    from serial_attach_effect [OF o(1) this(1) attach(6) this(2)] pair
    have "same_sdp m m'" "serial_owned p' m'" "live_fds m = live_fds m' + serial_holds p"
      "serial_underlying_socket p' = (if socket_is_open s then Some s else None)" by auto
    then show ?thesis by (simp add: serial_holds_def socket_holds_closed ac_simps)
  qed
  show ?case
    by (rule sys_inv_pair [OF attach(7,1,2,3)])
      (use eff attach(4,5,7) in \<open>simp_all add: serial_owned_def same_sdp_def sys_inv_def\<close>)
qed

text \<open>The invariant holds from the empty program on.\<close>

lemma api_reachable_inv:
  assumes "(api_step e)\<^sup>*\<^sup>* ([], boot w) c"
  shows "sys_inv c"
  using assms
proof (induction rule: rtranclp_induct)
  case base
  then show ?case by (simp add: sys_inv_def)
next
  case (step c c')
  then show ?case by (blast intro: api_step_inv)
qed

end
