(* ===== verification/Win_Env.thy ===== *)
theory Win_Env
  imports Ledger
begin

text \<open>
  What the Windows build calls but does not contain: Winsock, its Bluetooth name space and the
  start-up of the library. As for Linux, the calls are the fields of a record \<open>wenv\<close> over an arbitrary
  type of states of the outside world, every call appends an event to a trace, and the ledgers of
  what is held are balances of that trace.
\<close>

section \<open>Types of the calls\<close>

text \<open>\<open>SOCKET\<close> is an unsigned integer of pointer width; \<open>INVALID_SOCKET\<close> is all ones.\<close>

type_synonym win_socket = u64

definition INVALID_SOCKET :: win_socket where
  "INVALID_SOCKET = - 1"

text \<open>
  \<open>SOCKADDR_BTH\<close> without the member \<open>serviceClassId\<close>, which the code leaves zero and never reads. The
  port is a \<open>ULONG\<close>.
\<close>

datatype win_family = WIN_UNSPEC | AF_BTH

record sockaddr_bth =
  bth_family :: win_family
  bth_addr :: u64
  bth_port :: u32

definition sockaddr_bth_zero :: sockaddr_bth where
  "sockaddr_bth_zero = \<lparr>bth_family = WIN_UNSPEC, bth_addr = 0, bth_port = 0\<rparr>"

definition BT_PORT_ANY :: u32 where "BT_PORT_ANY = - 1"

datatype win_optval = WinInt int | WinDword u32

text \<open>
  \<open>CSADDR_INFO\<close> and \<open>WSAQUERYSETW\<close>, as far as the code sets or reads them. A wide string is a list of
  16-bit units, a null pointer is \<open>None\<close>, and the address buffer is the element it points at with the
  number of elements beside it.
\<close>

record csaddr =
  local_sa :: "sockaddr_bth option"
  remote_sa :: "sockaddr_bth option"

record query_set =
  instance_name :: "u16 list option"
  class_id :: "guid option"
  lookup_context :: "u16 list option"
  csa_count :: u32
  csa_buffer :: "csaddr option"

definition query_zero :: query_set where
  "query_zero = \<lparr>instance_name = None, class_id = None, lookup_context = None, csa_count = 0, csa_buffer = None\<rparr>"

datatype set_service_op = RNRSERVICE_REGISTER | RNRSERVICE_DELETE

definition LUP_FLUSHCACHE :: u32 where "LUP_FLUSHCACHE = 0x1000"
definition LUP_RETURN_ADDR :: u32 where "LUP_RETURN_ADDR = 0x0100"
definition WSAEFAULT :: int where "WSAEFAULT = 10014"

section \<open>The environment\<close>

record 'w wenv =
  w_startup :: "'w \<Rightarrow> 'w"
  w_socket :: "'w \<Rightarrow> win_socket \<times> 'w"
  w_setsockopt :: "win_socket \<Rightarrow> sockopt \<Rightarrow> win_optval \<Rightarrow> 'w \<Rightarrow> int \<times> 'w"
  w_bind :: "win_socket \<Rightarrow> sockaddr_bth \<Rightarrow> 'w \<Rightarrow> int \<times> 'w"
  w_listen :: "win_socket \<Rightarrow> int \<Rightarrow> 'w \<Rightarrow> int \<times> 'w"
  w_accept :: "win_socket \<Rightarrow> 'w \<Rightarrow> (win_socket \<times> sockaddr_bth) \<times> 'w"
  w_connect :: "win_socket \<Rightarrow> sockaddr_bth \<Rightarrow> 'w \<Rightarrow> int \<times> 'w"
  w_getsockname :: "win_socket \<Rightarrow> 'w \<Rightarrow> (int \<times> sockaddr_bth) \<times> 'w"
  w_send :: "win_socket \<Rightarrow> u8 list \<Rightarrow> u32 \<Rightarrow> 'w \<Rightarrow> int \<times> 'w"
  w_recv :: "win_socket \<Rightarrow> u32 \<Rightarrow> 'w \<Rightarrow> (int \<times> u8 list) \<times> 'w"
  w_fionbio :: "win_socket \<Rightarrow> u32 \<Rightarrow> 'w \<Rightarrow> int \<times> 'w"
  w_fionread :: "win_socket \<Rightarrow> 'w \<Rightarrow> u32 option \<times> 'w"
  w_close :: "win_socket \<Rightarrow> 'w \<Rightarrow> 'w"
  w_set_service :: "query_set \<Rightarrow> set_service_op \<Rightarrow> 'w \<Rightarrow> int \<times> 'w"
  w_lookup_begin :: "query_set \<Rightarrow> u32 \<Rightarrow> 'w \<Rightarrow> (int \<times> u64) \<times> 'w"
  w_lookup_next :: "u64 \<Rightarrow> u32 \<Rightarrow> u32 \<Rightarrow> 'w \<Rightarrow> (int \<times> u32 \<times> query_set) \<times> 'w"
  w_last_error :: "'w \<Rightarrow> int \<times> 'w"
  w_lookup_end :: "u64 \<Rightarrow> 'w \<Rightarrow> 'w"
  w_now :: "'w \<Rightarrow> int \<times> 'w"

text \<open>
  Conventions of the fields. \<open>w_send h d n\<close> is given the bytes at the pointer and the \<open>int\<close> length, as a
  32-bit word; \<open>w_recv h n\<close> the \<open>int\<close> length, and returns the bytes stored; \<open>w_getsockname\<close> and \<open>w_accept\<close>
  return the address they store; \<open>w_fionbio\<close> and \<open>w_fionread\<close> are \<open>ioctlsocket\<close> with \<open>FIONBIO\<close> and with \<open>FIONREAD\<close>
  (\<open>None\<close> when it fails and stores nothing); \<open>w_now\<close> is \<open>steady_clock::now()\<close> in nanoseconds;
  \<open>w_lookup_next h flags n\<close> returns the result, the updated length and
  what the buffer holds as a \<open>WSAQUERYSETW\<close>.
\<close>

section \<open>Events and the machine\<close>

datatype wevent =
    WStartup
  | WSocket win_socket
  | WSetsockopt win_socket sockopt win_optval int
  | WBind win_socket sockaddr_bth int
  | WListen win_socket int int
  | WAccept win_socket win_socket
  | WConnect win_socket sockaddr_bth int
  | WGetsockname win_socket int
  | WSend win_socket "u8 list" u32 int
  | WRecv win_socket u32 int "u8 list"
  | WFionbio win_socket u32 int
  | WFionread win_socket
  | WClose win_socket
  | WSetService query_set set_service_op int
  | WLookupBegin query_set u32 int u64
  | WLookupNext u64 u32 u32 int u32 query_set
  | WLastError int
  | WLookupEnd u64
  | WNow int

record 'w wmachine =
  wworld :: 'w
  wtrace :: "wevent list"
  wsa_up :: bool

definition wemit :: "wevent \<Rightarrow> 'w \<Rightarrow> 'w wmachine \<Rightarrow> 'w wmachine" where
  "wemit ev w m = m\<lparr>wworld := w, wtrace := wtrace m @ [ev]\<rparr>"

lemma wemit_simps [simp]:
  "wtrace (wemit ev w m) = wtrace m @ [ev]" "wworld (wemit ev w m) = w" "wsa_up (wemit ev w m) = wsa_up m"
  by (simp_all add: wemit_def)

text \<open>
  \<open>WinsockInit::ensure\<close> constructs a function-local static object, whose constructor starts Winsock: it
  acts on the first call only.
\<close>

definition winsock_ensure :: "'w wenv \<Rightarrow> 'w wmachine \<Rightarrow> 'w wmachine" where
  "winsock_ensure e m =
     (if wsa_up m then m else (wemit WStartup (w_startup e (wworld m)) m)\<lparr>wsa_up := True\<rparr>)"

section \<open>The wrappers\<close>

named_theorems win_defs \<open>definitions of the Windows call wrappers\<close>

definition win_socket_call :: "'w wenv \<Rightarrow> 'w wmachine \<Rightarrow> win_socket \<times> 'w wmachine" where [win_defs]:
  "win_socket_call e m = (let (h, w) = w_socket e (wworld m) in (h, wemit (WSocket h) w m))"

definition win_setsockopt ::
  "'w wenv \<Rightarrow> win_socket \<Rightarrow> sockopt \<Rightarrow> win_optval \<Rightarrow> 'w wmachine \<Rightarrow> int \<times> 'w wmachine" where [win_defs]:
  "win_setsockopt e h opt v m =
     (let (r, w) = w_setsockopt e h opt v (wworld m) in (r, wemit (WSetsockopt h opt v r) w m))"

definition win_bind :: "'w wenv \<Rightarrow> win_socket \<Rightarrow> sockaddr_bth \<Rightarrow> 'w wmachine \<Rightarrow> int \<times> 'w wmachine" where [win_defs]:
  "win_bind e h a m = (let (r, w) = w_bind e h a (wworld m) in (r, wemit (WBind h a r) w m))"

definition win_listen :: "'w wenv \<Rightarrow> win_socket \<Rightarrow> int \<Rightarrow> 'w wmachine \<Rightarrow> int \<times> 'w wmachine" where [win_defs]:
  "win_listen e h n m = (let (r, w) = w_listen e h n (wworld m) in (r, wemit (WListen h n r) w m))"

definition win_accept :: "'w wenv \<Rightarrow> win_socket \<Rightarrow> 'w wmachine \<Rightarrow> (win_socket \<times> sockaddr_bth) \<times> 'w wmachine" where [win_defs]:
  "win_accept e h m =
     (let ((c, a), w) = w_accept e h (wworld m) in ((c, a), wemit (WAccept h c) w m))"

definition win_connect :: "'w wenv \<Rightarrow> win_socket \<Rightarrow> sockaddr_bth \<Rightarrow> 'w wmachine \<Rightarrow> int \<times> 'w wmachine" where [win_defs]:
  "win_connect e h a m = (let (r, w) = w_connect e h a (wworld m) in (r, wemit (WConnect h a r) w m))"

definition win_getsockname :: "'w wenv \<Rightarrow> win_socket \<Rightarrow> 'w wmachine \<Rightarrow> (int \<times> sockaddr_bth) \<times> 'w wmachine" where [win_defs]:
  "win_getsockname e h m =
     (let ((r, a), w) = w_getsockname e h (wworld m) in ((r, a), wemit (WGetsockname h r) w m))"

definition win_send :: "'w wenv \<Rightarrow> win_socket \<Rightarrow> u8 list \<Rightarrow> u32 \<Rightarrow> 'w wmachine \<Rightarrow> int \<times> 'w wmachine" where [win_defs]:
  "win_send e h d n m = (let (r, w) = w_send e h d n (wworld m) in (r, wemit (WSend h d n r) w m))"

definition win_recv :: "'w wenv \<Rightarrow> win_socket \<Rightarrow> u32 \<Rightarrow> 'w wmachine \<Rightarrow> (int \<times> u8 list) \<times> 'w wmachine" where [win_defs]:
  "win_recv e h n m =
     (let ((r, d), w) = w_recv e h n (wworld m) in ((r, d), wemit (WRecv h n r d) w m))"

definition win_fionbio :: "'w wenv \<Rightarrow> win_socket \<Rightarrow> u32 \<Rightarrow> 'w wmachine \<Rightarrow> int \<times> 'w wmachine" where [win_defs]:
  "win_fionbio e h md m = (let (r, w) = w_fionbio e h md (wworld m) in (r, wemit (WFionbio h md r) w m))"

definition win_fionread :: "'w wenv \<Rightarrow> win_socket \<Rightarrow> 'w wmachine \<Rightarrow> u32 option \<times> 'w wmachine" where [win_defs]:
  "win_fionread e h m = (let (n, w) = w_fionread e h (wworld m) in (n, wemit (WFionread h) w m))"

definition win_now :: "'w wenv \<Rightarrow> 'w wmachine \<Rightarrow> int \<times> 'w wmachine" where [win_defs]:
  "win_now e m = (let (t, w) = w_now e (wworld m) in (t, wemit (WNow t) w m))"

definition win_close :: "'w wenv \<Rightarrow> win_socket \<Rightarrow> 'w wmachine \<Rightarrow> 'w wmachine" where [win_defs]:
  "win_close e h m = wemit (WClose h) (w_close e h (wworld m)) m"

definition wsa_set_service :: "'w wenv \<Rightarrow> query_set \<Rightarrow> set_service_op \<Rightarrow> 'w wmachine \<Rightarrow> int \<times> 'w wmachine" where [win_defs]:
  "wsa_set_service e q op m =
     (let (r, w) = w_set_service e q op (wworld m) in (r, wemit (WSetService q op r) w m))"

definition wsa_lookup_begin :: "'w wenv \<Rightarrow> query_set \<Rightarrow> u32 \<Rightarrow> 'w wmachine \<Rightarrow> (int \<times> u64) \<times> 'w wmachine" where [win_defs]:
  "wsa_lookup_begin e q fl m =
     (let ((r, h), w) = w_lookup_begin e q fl (wworld m) in ((r, h), wemit (WLookupBegin q fl r h) w m))"

definition wsa_lookup_next ::
  "'w wenv \<Rightarrow> u64 \<Rightarrow> u32 \<Rightarrow> u32 \<Rightarrow> 'w wmachine \<Rightarrow> (int \<times> u32 \<times> query_set) \<times> 'w wmachine" where [win_defs]:
  "wsa_lookup_next e h fl n m =
     (let ((r, n', q), w) = w_lookup_next e h fl n (wworld m) in ((r, n', q), wemit (WLookupNext h fl n r n' q) w m))"

definition wsa_last_error :: "'w wenv \<Rightarrow> 'w wmachine \<Rightarrow> int \<times> 'w wmachine" where [win_defs]:
  "wsa_last_error e m = (let (r, w) = w_last_error e (wworld m) in (r, wemit (WLastError r) w m))"

definition wsa_lookup_end :: "'w wenv \<Rightarrow> u64 \<Rightarrow> 'w wmachine \<Rightarrow> 'w wmachine" where [win_defs]:
  "wsa_lookup_end e h m = wemit (WLookupEnd h) (w_lookup_end e h (wworld m)) m"

text \<open>Each wrapper appends one event.\<close>

lemma win_socket_call_shape: "\<exists>h w. win_socket_call e m = (h, wemit (WSocket h) w m)"
  by (auto simp: win_socket_call_def split: prod.split)

lemma win_bind_shape: "\<exists>r w. win_bind e h a m = (r, wemit (WBind h a r) w m)"
  by (auto simp: win_bind_def split: prod.split)

lemma win_accept_shape: "\<exists>c a w. win_accept e h m = ((c, a), wemit (WAccept h c) w m)"
  by (auto simp: win_accept_def split: prod.split)

lemma win_connect_shape: "\<exists>r w. win_connect e h a m = (r, wemit (WConnect h a r) w m)"
  by (auto simp: win_connect_def split: prod.split)

section \<open>Ledgers\<close>

text \<open>Sockets, lookup handles and published services, and calls on something not held.\<close>

fun wsock_acquired :: "wevent \<Rightarrow> win_socket multiset" where
  "wsock_acquired (WSocket h) = (if h = INVALID_SOCKET then {#} else {#h#})"
| "wsock_acquired (WAccept _ h) = (if h = INVALID_SOCKET then {#} else {#h#})"
| "wsock_acquired _ = {#}"

fun wsock_released :: "wevent \<Rightarrow> win_socket multiset" where
  "wsock_released (WClose h) = {#h#}"
| "wsock_released _ = {#}"

fun wsock_used :: "wevent \<Rightarrow> win_socket multiset" where
  "wsock_used (WSetsockopt h _ _ _) = {#h#}"
| "wsock_used (WBind h _ _) = {#h#}"
| "wsock_used (WListen h _ _) = {#h#}"
| "wsock_used (WAccept h _) = {#h#}"
| "wsock_used (WConnect h _ _) = {#h#}"
| "wsock_used (WGetsockname h _) = {#h#}"
| "wsock_used (WSend h _ _ _) = {#h#}"
| "wsock_used (WRecv h _ _ _) = {#h#}"
| "wsock_used (WFionbio h _ _) = {#h#}"
| "wsock_used (WFionread h) = {#h#}"
| "wsock_used (WClose h) = {#h#}"
| "wsock_used _ = {#}"

definition live_socks :: "'w wmachine \<Rightarrow> win_socket multiset" where
  "live_socks m = balance wsock_acquired wsock_released (wtrace m)"

definition socks_respected :: "'w wmachine \<Rightarrow> bool" where
  "socks_respected m \<longleftrightarrow> well_used wsock_acquired wsock_released wsock_used (wtrace m)"

fun lookup_acquired :: "wevent \<Rightarrow> u64 multiset" where
  "lookup_acquired (WLookupBegin _ _ r h) = (if r = 0 then {#h#} else {#})"
| "lookup_acquired _ = {#}"

fun lookup_released :: "wevent \<Rightarrow> u64 multiset" where
  "lookup_released (WLookupEnd h) = {#h#}"
| "lookup_released _ = {#}"

fun lookup_used :: "wevent \<Rightarrow> u64 multiset" where
  "lookup_used (WLookupNext h _ _ _ _ _) = {#h#}"
| "lookup_used (WLookupEnd h) = {#h#}"
| "lookup_used _ = {#}"

definition live_lookups :: "'w wmachine \<Rightarrow> u64 multiset" where
  "live_lookups m = balance lookup_acquired lookup_released (wtrace m)"

definition lookups_respected :: "'w wmachine \<Rightarrow> bool" where
  "lookups_respected m \<longleftrightarrow> well_used lookup_acquired lookup_released lookup_used (wtrace m)"

fun service_acquired :: "wevent \<Rightarrow> query_set multiset" where
  "service_acquired (WSetService q RNRSERVICE_REGISTER r) = (if r = 0 then {#q#} else {#})"
| "service_acquired _ = {#}"

fun service_released :: "wevent \<Rightarrow> query_set multiset" where
  "service_released (WSetService q RNRSERVICE_DELETE _) = {#q#}"
| "service_released _ = {#}"

definition live_services :: "'w wmachine \<Rightarrow> query_set multiset" where
  "live_services m = balance service_acquired service_released (wtrace m)"

lemmas win_ledger_defs = live_socks_def socks_respected_def live_lookups_def lookups_respected_def live_services_def

lemma win_ledger_emit [simp]:
  "live_socks (wemit ev w m) = live_socks m + wsock_acquired ev - wsock_released ev"
  "socks_respected (wemit ev w m) \<longleftrightarrow> socks_respected m \<and> wsock_used ev \<subseteq># live_socks m"
  "live_lookups (wemit ev w m) = live_lookups m + lookup_acquired ev - lookup_released ev"
  "lookups_respected (wemit ev w m) \<longleftrightarrow> lookups_respected m \<and> lookup_used ev \<subseteq># live_lookups m"
  "live_services (wemit ev w m) = live_services m + service_acquired ev - service_released ev"
  by (simp_all add: win_ledger_defs)

text \<open>Winsock has been started, once, before any other call.\<close>

definition started_first :: "'w wmachine \<Rightarrow> bool" where
  "started_first m \<longleftrightarrow>
     (if wsa_up m then \<exists>evs. wtrace m = WStartup # evs \<and> WStartup \<notin> set evs else wtrace m = [])"

definition wboot :: "'w \<Rightarrow> 'w wmachine" where
  "wboot w = \<lparr>wworld = w, wtrace = [], wsa_up = False\<rparr>"

lemma wboot_ledger [simp]:
  "live_socks (wboot w) = {#}" "socks_respected (wboot w)" "live_lookups (wboot w) = {#}"
  "lookups_respected (wboot w)" "live_services (wboot w) = {#}" "started_first (wboot w)"
  by (simp_all add: wboot_def live_socks_def socks_respected_def live_lookups_def lookups_respected_def
      live_services_def started_first_def)

lemma wsa_up_ensure [simp]: "wsa_up (winsock_ensure e m)"
  by (simp add: winsock_ensure_def)

lemma started_ensure [simp]: "started_first m \<Longrightarrow> started_first (winsock_ensure e m)"
  by (auto simp: started_first_def winsock_ensure_def)

lemma started_emit: "started_first m \<Longrightarrow> wsa_up m \<Longrightarrow> ev \<noteq> WStartup \<Longrightarrow> started_first (wemit ev w m)"
  by (auto simp: started_first_def)

lemma wsa_up_update [simp]:
  "live_socks (m\<lparr>wsa_up := b\<rparr>) = live_socks m" "socks_respected (m\<lparr>wsa_up := b\<rparr>) = socks_respected m"
  "live_lookups (m\<lparr>wsa_up := b\<rparr>) = live_lookups m" "lookups_respected (m\<lparr>wsa_up := b\<rparr>) = lookups_respected m"
  "live_services (m\<lparr>wsa_up := b\<rparr>) = live_services m"
  by (simp_all add: win_ledger_defs)

lemma ensure_ledger [simp]:
  "live_socks (winsock_ensure e m) = live_socks m" "socks_respected (winsock_ensure e m) = socks_respected m"
  "live_lookups (winsock_ensure e m) = live_lookups m" "lookups_respected (winsock_ensure e m) = lookups_respected m"
  "live_services (winsock_ensure e m) = live_services m"
  by (simp_all add: winsock_ensure_def)

end
