(* ===== verification/Win_Sim.thy ===== *)
theory Win_Sim
  imports Win_Env
begin

text \<open>
  A small concrete Windows: handles in order, one inbound byte stream, a port that binding sets and
  one answer to a service lookup, of a size that may exceed the first buffer.
\<close>

record wsim =
  ws_next :: u64
  ws_in :: "u8 list"
  ws_chunk :: nat
  ws_port :: u32
  ws_up :: bool
  ws_answer :: query_set
  ws_answer_size :: u32
  ws_clock :: int

definition wsim_start :: wsim where
  "wsim_start = \<lparr>ws_next = 8, ws_in = [], ws_chunk = 2, ws_port = 5, ws_up = True,
     ws_answer = query_zero, ws_answer_size = 200, ws_clock = 0\<rparr>"

definition wsim_peer :: sockaddr_bth where
  "wsim_peer = \<lparr>bth_family = AF_BTH, bth_addr = 0x010203040506, bth_port = 9\<rparr>"

definition wsim_offer :: "u32 \<Rightarrow> query_set" where
  "wsim_offer port = query_zero\<lparr>csa_count := 1,
     csa_buffer := Some \<lparr>local_sa = None, remote_sa = Some (wsim_peer\<lparr>bth_port := port\<rparr>)\<rparr>\<rparr>"

definition win_sim :: "wsim wenv" where
  "win_sim = \<lparr>
     w_startup = (\<lambda>w. w),
     w_socket = (\<lambda>w. (ws_next w, w\<lparr>ws_next := ws_next w + 4\<rparr>)),
     w_setsockopt = (\<lambda>h opt v w. (0, w)),
     w_bind = (\<lambda>h a w. (0, w\<lparr>ws_port := if bth_port a = BT_PORT_ANY then 5 else bth_port a\<rparr>)),
     w_listen = (\<lambda>h n w. (0, w)),
     w_accept = (\<lambda>h w. if ws_up w then ((ws_next w, wsim_peer), w\<lparr>ws_next := ws_next w + 4\<rparr>)
                        else ((INVALID_SOCKET, sockaddr_bth_zero), w)),
     w_connect = (\<lambda>h a w. (if ws_up w then 0 else - 1, w)),
     w_getsockname = (\<lambda>h w. ((0, wsim_peer\<lparr>bth_port := ws_port w\<rparr>), w)),
     w_send = (\<lambda>h d n w. (if n \<le>s 0 then 0 else int (min (unat n) (ws_chunk w)), w)),
     w_recv = (\<lambda>h n w. let d = take (min (unat n) (ws_chunk w)) (ws_in w)
                         in ((int (length d), d), w\<lparr>ws_in := drop (length d) (ws_in w)\<rparr>)),
     w_fionbio = (\<lambda>h md w. (0, w)),
     w_fionread = (\<lambda>h w. (Some (word_of_nat (length (ws_in w))), w)),
     w_close = (\<lambda>h w. w),
     w_set_service = (\<lambda>q op w. (if ws_up w then 0 else - 1, w)),
     w_lookup_begin = (\<lambda>q fl w. ((if ws_up w then 0 else - 1, 1000), w)),
     w_lookup_next = (\<lambda>h fl n w. ((if n < ws_answer_size w then - 1 else 0, ws_answer_size w, ws_answer w), w)),
     w_last_error = (\<lambda>w. (WSAEFAULT, w)),
     w_lookup_end = (\<lambda>h w. w),
     w_now = (\<lambda>w. (ws_clock w, w\<lparr>ws_clock := ws_clock w + 1000000\<rparr>))\<rparr>"

end
