(* ===== verification/Socket_Win.thy ===== *)
theory Socket_Win
  imports Win_Sim Transfer_Loops Stream_Socket
begin

text \<open>
  \<open>class Socket\<close> of \<open>src/socket.cpp\<close>, Windows branches. The classes of the two builds have the same
  shape; the handle is a \<open>SOCKET\<close>, the lengths passed to the kernel are cast to \<open>int\<close>, timeouts to
  \<open>DWORD\<close>, and the blocking mode is set by \<open>ioctlsocket\<close>.
\<close>

section \<open>State\<close>

record wsocket_impl =
  wsock_handle :: win_socket
  wpeer_addr :: address
  wpeer_ch :: u8
  wlocal_ch :: u8

datatype wsocket = WSocketObj (wsocket_pimpl: "wsocket_impl option")

definition wsocket_impl_default :: wsocket_impl where
  "wsocket_impl_default =
     \<lparr>wsock_handle = INVALID_SOCKET, wpeer_addr = address_any, wpeer_ch = 0, wlocal_ch = 0\<rparr>"

definition win_close_socket_handle :: "'w wenv \<Rightarrow> win_socket \<Rightarrow> 'w wmachine \<Rightarrow> 'w wmachine" where
  "win_close_socket_handle e s m = (if s \<noteq> INVALID_SOCKET then win_close e s m else m)"

definition wsocket_new :: "'w wenv \<Rightarrow> 'w wmachine \<Rightarrow> wsocket \<times> 'w wmachine" where
  "wsocket_new e m = (WSocketObj (Some wsocket_impl_default), winsock_ensure e m)"

definition wsocket_destroy :: "'w wenv \<Rightarrow> wsocket \<Rightarrow> 'w wmachine \<Rightarrow> 'w wmachine" where
  "wsocket_destroy e s m =
     (case wsocket_pimpl s of None \<Rightarrow> m
      | Some im \<Rightarrow> if wsock_handle im \<noteq> INVALID_SOCKET then win_close_socket_handle e (wsock_handle im) m else m)"

text \<open>The move constructor: the new object and what is left of the source.\<close>

definition wsocket_move :: "wsocket \<Rightarrow> wsocket \<times> wsocket" where
  "wsocket_move other = (WSocketObj (wsocket_pimpl other), WSocketObj None)"

definition wsocket_move_assign ::
  "'w wenv \<Rightarrow> wsocket \<Rightarrow> wsocket \<Rightarrow> 'w wmachine \<Rightarrow> (wsocket \<times> wsocket) \<times> 'w wmachine" where
  "wsocket_move_assign e dst other m =
     ((WSocketObj (wsocket_pimpl other), WSocketObj None), wsocket_destroy e dst m)"

definition wsocket_peer_address :: "wsocket \<Rightarrow> address" where
  "wsocket_peer_address s = (case wsocket_pimpl s of None \<Rightarrow> address_any | Some im \<Rightarrow> wpeer_addr im)"

definition wsocket_peer_channel :: "wsocket \<Rightarrow> u8" where
  "wsocket_peer_channel s = (case wsocket_pimpl s of None \<Rightarrow> 0 | Some im \<Rightarrow> wpeer_ch im)"

definition wsocket_local_channel :: "wsocket \<Rightarrow> u8" where
  "wsocket_local_channel s = (case wsocket_pimpl s of None \<Rightarrow> 0 | Some im \<Rightarrow> wlocal_ch im)"

definition wsocket_native_handle :: "wsocket \<Rightarrow> u64" where
  "wsocket_native_handle s = (case wsocket_pimpl s of None \<Rightarrow> 0 | Some im \<Rightarrow> wsock_handle im)"

definition wsocket_is_open :: "wsocket \<Rightarrow> bool" where
  "wsocket_is_open s =
     (case wsocket_pimpl s of None \<Rightarrow> False | Some im \<Rightarrow> wsock_handle im \<noteq> INVALID_SOCKET)"

definition wsocket_fd :: "wsocket \<Rightarrow> win_socket" where
  "wsocket_fd s = (case wsocket_pimpl s of None \<Rightarrow> INVALID_SOCKET | Some im \<Rightarrow> wsock_handle im)"

definition wsocket_close :: "'w wenv \<Rightarrow> wsocket \<Rightarrow> 'w wmachine \<Rightarrow> wsocket \<times> 'w wmachine" where
  "wsocket_close e s m =
     (case wsocket_pimpl s of
        None \<Rightarrow> (s, m)
      | Some im \<Rightarrow>
          if wsock_handle im \<noteq> INVALID_SOCKET then
            (WSocketObj (Some (im\<lparr>wsock_handle := INVALID_SOCKET\<rparr>)),
             win_close_socket_handle e (wsock_handle im) m)
          else (s, m))"

section \<open>Sending and receiving\<close>

text \<open>\<open>static_cast<int>(data.size())\<close>: the low 32 bits of the size, read as a signed number.\<close>

definition int_length :: "u8 list \<Rightarrow> u32" where
  "int_length data = word_of_nat (length data)"

definition wsocket_send :: "'w wenv \<Rightarrow> wsocket \<Rightarrow> u8 list \<Rightarrow> 'w wmachine \<Rightarrow> int \<times> 'w wmachine" where
  "wsocket_send e s data m =
     (if \<not> wsocket_is_open s \<or> data = [] then (0, m)
      else let (sent, m) = win_send e (wsocket_fd s) data (int_length data) m
           in (if 0 \<le> sent then sent else - 1, m))"

definition wsocket_send_str :: "'w wenv \<Rightarrow> wsocket \<Rightarrow> string \<Rightarrow> 'w wmachine \<Rightarrow> int \<times> 'w wmachine" where
  "wsocket_send_str e s str m = wsocket_send e s (map byte_of_char str) m"

function wsocket_send_all_loop ::
  "'w wenv \<Rightarrow> wsocket \<Rightarrow> u8 list \<Rightarrow> nat \<Rightarrow> 'w wmachine \<Rightarrow> bool \<times> 'w wmachine" where
  "wsocket_send_all_loop e s data total_sent m =
     (if total_sent < length data then
        let (sent, m) = wsocket_send e s (drop total_sent data) m
        in if sent \<le> 0 then (False, m)
           else wsocket_send_all_loop e s data (total_sent + nat sent) m
      else (True, m))"
  by pat_completeness auto
termination
  by (relation "measure (\<lambda>(e, s, data, total_sent, m). length data - total_sent)") auto

declare wsocket_send_all_loop.simps [simp del]

definition wsocket_send_all :: "'w wenv \<Rightarrow> wsocket \<Rightarrow> u8 list \<Rightarrow> 'w wmachine \<Rightarrow> bool \<times> 'w wmachine" where
  "wsocket_send_all e s data m = wsocket_send_all_loop e s data 0 m"

definition wsocket_recv ::
  "'w wenv \<Rightarrow> wsocket \<Rightarrow> u8 list \<Rightarrow> 'w wmachine \<Rightarrow> (int \<times> u8 list) \<times> 'w wmachine" where
  "wsocket_recv e s buffer m =
     (if \<not> wsocket_is_open s \<or> buffer = [] then ((0, buffer), m)
      else let ((r, data), m) = win_recv e (wsocket_fd s) (int_length buffer) m
           in ((if 0 \<le> r then r else - 1, overlay data buffer), m))"

lemma length_wsocket_recv [shape_facts]:
  "wsocket_recv e s buf m = ((r, buf'), m') \<Longrightarrow> length buf' = length buf"
  by (auto simp: wsocket_recv_def split: if_splits prod.splits)

function wsocket_recv_all_loop ::
  "'w wenv \<Rightarrow> wsocket \<Rightarrow> u8 list \<Rightarrow> nat \<Rightarrow> 'w wmachine \<Rightarrow> (bool \<times> u8 list) \<times> 'w wmachine" where
  "wsocket_recv_all_loop e s buffer total_recvd m =
     (if total_recvd < length buffer then
        let ((r, chunk), m) = wsocket_recv e s (drop total_recvd buffer) m;
            buffer' = write_tail total_recvd chunk buffer
        in if r \<le> 0 then ((False, buffer'), m)
           else wsocket_recv_all_loop e s buffer' (total_recvd + nat r) m
      else ((True, buffer), m))"
  by pat_completeness auto

termination
  by (relation "measure (\<lambda>(e, s, buffer, total_recvd, m). length buffer - total_recvd)")
    (auto simp: write_tail_def dest!: sym [of "((_, _), _)"] length_wsocket_recv)

declare wsocket_recv_all_loop.simps [simp del]

definition wsocket_recv_all ::
  "'w wenv \<Rightarrow> wsocket \<Rightarrow> u8 list \<Rightarrow> 'w wmachine \<Rightarrow> (bool \<times> u8 list) \<times> 'w wmachine" where
  "wsocket_recv_all e s buffer m = wsocket_recv_all_loop e s buffer 0 m"

definition wsocket_recv_some :: "'w wenv \<Rightarrow> wsocket \<Rightarrow> nat \<Rightarrow> 'w wmachine \<Rightarrow> u8 list \<times> 'w wmachine" where
  "wsocket_recv_some e s max_bytes m =
     (let ((r, buf), m) = wsocket_recv e s (replicate max_bytes 0) m
      in if 0 < r then (vector_resize (nat r) buf, m) else ([], m))"

section \<open>Options\<close>

definition wsocket_set_buffer_sizes ::
  "'w wenv \<Rightarrow> wsocket \<Rightarrow> int \<Rightarrow> int \<Rightarrow> 'w wmachine \<Rightarrow> bool \<times> 'w wmachine" where
  "wsocket_set_buffer_sizes e s sndbuf_bytes rcvbuf_bytes m =
     (if \<not> wsocket_is_open s then (False, m)
      else
        let (ok1, m) =
              (if 0 < sndbuf_bytes then
                 let (r, m) = win_setsockopt e (wsocket_fd s) SO_SNDBUF (WinInt sndbuf_bytes) m
                 in (r = 0, m)
               else (True, m));
            (ok2, m) =
              (if 0 < rcvbuf_bytes then
                 let (r, m) = win_setsockopt e (wsocket_fd s) SO_RCVBUF (WinInt rcvbuf_bytes) m
                 in (r = 0, m)
               else (True, m))
        in (ok1 \<and> ok2, m))"

text \<open>A timeout in milliseconds is cast to a \<open>DWORD\<close>: its value modulo \<open>2 ^ 32\<close>.\<close>

definition dword_of_ms :: "int \<Rightarrow> win_optval" where
  "dword_of_ms ms = WinDword (word_of_int ms)"

definition wsocket_set_timeouts ::
  "'w wenv \<Rightarrow> wsocket \<Rightarrow> int \<Rightarrow> int \<Rightarrow> 'w wmachine \<Rightarrow> bool \<times> 'w wmachine" where
  "wsocket_set_timeouts e s send_timeout recv_timeout m =
     (if \<not> wsocket_is_open s then (False, m)
      else
        let (r1, m) = win_setsockopt e (wsocket_fd s) SO_SNDTIMEO (dword_of_ms send_timeout) m;
            (r2, m) = win_setsockopt e (wsocket_fd s) SO_RCVTIMEO (dword_of_ms recv_timeout) m
        in (r1 = 0 \<and> r2 = 0, m))"

definition wsocket_set_blocking :: "'w wenv \<Rightarrow> wsocket \<Rightarrow> bool \<Rightarrow> 'w wmachine \<Rightarrow> bool \<times> 'w wmachine" where
  "wsocket_set_blocking e s blocking m =
     (if \<not> wsocket_is_open s then (False, m)
      else let (r, m) = win_fionbio e (wsocket_fd s) (if blocking then 0 else 1) m in (r = 0, m))"

section \<open>From a native handle\<close>

definition wsocket_from_native ::
  "'w wenv \<Rightarrow> u64 \<Rightarrow> address \<Rightarrow> u8 \<Rightarrow> 'w wmachine \<Rightarrow> wsocket \<times> 'w wmachine" where
  "wsocket_from_native e handle p_addr p_ch m =
     (let (_, m) = wsocket_new e m;
          im = wsocket_impl_default\<lparr>wsock_handle := handle, wpeer_addr := p_addr, wpeer_ch := p_ch\<rparr>;
          (_, m) = wsocket_set_buffer_sizes e (WSocketObj (Some im)) DEFAULT_BUFFER_SIZE DEFAULT_BUFFER_SIZE m;
          ((r, sa), m) = win_getsockname e (wsock_handle im) m
      in (WSocketObj (Some (if r = 0 then im\<lparr>wlocal_ch := ucast (bth_port sa)\<rparr> else im)), m))"

section \<open>Ownership\<close>

definition wsocket_holds :: "wsocket \<Rightarrow> win_socket multiset" where
  "wsocket_holds s = (if wsocket_is_open s then {#wsocket_fd s#} else {#})"

lemmas wsocket_defs = wsocket_is_open_def wsocket_fd_def wsocket_holds_def

interpretation wsocket_closable: closable wsocket_close wsocket_is_open wsocket_holds live_socks "\<lambda>_. True"
proof
  fix e :: "'a wenv" and s s' :: wsocket and m m' :: "'a wmachine"
  show "wsocket_close e s m = (s', m') \<Longrightarrow> True \<and> \<not> wsocket_is_open s' \<and> wsocket_holds s' = {#}"
    by (auto simp: wsocket_close_def wsocket_defs split: option.splits if_splits)
  show "wsocket_close e s m = (s', m') \<Longrightarrow> live_socks m' = live_socks m - wsocket_holds s"
    by (auto simp: wsocket_close_def win_close_socket_handle_def wsocket_defs win_defs
        split: option.splits if_splits)
  show "\<not> wsocket_is_open s \<Longrightarrow> wsocket_close e s m = (s, m)"
    by (auto simp: wsocket_close_def wsocket_defs split: option.splits)
qed

lemma wsocket_destroy_close: "wsocket_destroy e s m = snd (wsocket_close e s m)"
  by (auto simp: wsocket_destroy_def wsocket_close_def split: option.splits)

end
