(* ===== verification/Socket_Win_Facts.thy ===== *)
theory Socket_Win_Facts
  imports Socket_Win
begin

text \<open>
  Transfers of the Windows socket: the same loops as on Linux, as instances of the same interfaces, for
  spans below 2 GiB; what the cast of the size does to \<open>send_all\<close> beyond 4 GiB; and the ledger of its
  methods.
\<close>

section \<open>Promises of Winsock\<close>

text \<open>
  For a length that is not negative: \<open>send\<close> accepts at most that many bytes (so a length of zero sends
  nothing), and a positive result of \<open>recv\<close> is the number of bytes stored, at most the length.
\<close>

definition win_send_bounded :: "'w wenv \<Rightarrow> bool" where
  "win_send_bounded e \<longleftrightarrow>
     (\<forall>h d n w r w'. w_send e h d n w = (r, w') \<longrightarrow> 0 \<le>s n \<longrightarrow> r \<le> int (unat n))"

definition win_recv_bounded :: "'w wenv \<Rightarrow> bool" where
  "win_recv_bounded e \<longleftrightarrow>
     (\<forall>h n w r d w'. w_recv e h n w = ((r, d), w') \<longrightarrow> 0 \<le>s n \<longrightarrow>
        (if 0 < r then r = int (length d) \<and> length d \<le> unat n else d = []))"

lemma win_sim_bounded [simp]: "win_send_bounded win_sim" "win_recv_bounded win_sim"
proof -
  show "win_send_bounded win_sim"
    by (auto simp: win_send_bounded_def win_sim_def Let_def of_nat_min split: if_splits)
  have fit: "length (take (min a b) xs) \<le> a" for a b and xs :: "u8 list" by (simp add: min_def)
  have "if 0 < r then r = int (length d) \<and> length d \<le> unat n else d = []"
    if "w_recv win_sim h n w = ((r, d), w')" for h n w r d w'
  proof -
    have d: "d = take (min (unat n) (ws_chunk w)) (ws_in w)" "r = int (length d)"
      using that by (auto simp: win_sim_def Let_def)
    have "length d \<le> unat n" unfolding d(1) by (rule fit)
    with d(2) show ?thesis by simp
  qed
  then show "win_recv_bounded win_sim" unfolding win_recv_bounded_def by blast
qed

section \<open>Bytes in a trace\<close>

fun wbytes_in :: "win_socket \<Rightarrow> wevent \<Rightarrow> u8 list" where
  "wbytes_in h (WRecv h' _ r d) = (if h' = h \<and> 0 < r then d else [])"
| "wbytes_in h _ = []"

fun wbytes_out :: "win_socket \<Rightarrow> wevent \<Rightarrow> u8 list" where
  "wbytes_out h (WSend h' d _ r) = (if h' = h \<and> 0 < r then take (nat r) d else [])"
| "wbytes_out h _ = []"

definition warrived :: "win_socket \<Rightarrow> 'w wmachine \<Rightarrow> u8 list" where
  "warrived h m = concat (map (wbytes_in h) (wtrace m))"

definition waccepted :: "win_socket \<Rightarrow> 'w wmachine \<Rightarrow> u8 list" where
  "waccepted h m = concat (map (wbytes_out h) (wtrace m))"

lemma wbytes_emit [simp]:
  "warrived h (wemit ev w m) = warrived h m @ wbytes_in h ev"
  "waccepted h (wemit ev w m) = waccepted h m @ wbytes_out h ev"
  by (simp_all add: warrived_def waccepted_def)

section \<open>The cast of the size\<close>

text \<open>\<open>int\<close> holds sizes below 2 GiB.\<close>

definition fits_int :: "nat \<Rightarrow> bool" where
  "fits_int n \<longleftrightarrow> n < 2 ^ 31"

lemma int_length_value: "unat (int_length data) = length data mod 2 ^ 32"
  by (simp add: int_length_def unat_of_nat)

lemma int_nonneg:
  assumes "unat (n :: u32) < 2 ^ 31"
  shows "0 \<le>s n"
proof -
  have "int (unat n) < int (2 ^ 31)" using assms by (simp only: of_nat_less_iff)
  then have "uint n < 2 ^ 31" by simp
  then have "signed_take_bit 31 (uint n) = uint n" 
    by (intro signed_take_bit_int_eq_self order_trans [OF _ uint_ge_0]) simp_all
  then have "sint n = uint n" unfolding sint_uint by simp
  then show ?thesis by (simp add: word_sle_eq)
qed

lemma int_length_small:
  assumes "fits_int (length data)"
  shows "0 \<le>s int_length data" "unat (int_length data) = length data"
proof -
  show "unat (int_length data) = length data" using assms by (simp add: int_length_value fits_int_def)
  then show "0 \<le>s int_length data" using assms by (intro int_nonneg) (simp add: fits_int_def)
qed

lemma wsocket_send_effect:
  assumes "win_send_bounded e" "length data mod 2 ^ 32 < 2 ^ 31" "wsocket_send e s data m = (r, m')"
  shows "nat r \<le> length data mod 2 ^ 32 \<and> waccepted (wsocket_fd s) m' = waccepted (wsocket_fd s) m @ take (nat r) data"
proof (cases "\<not> wsocket_is_open s \<or> data = []")
  case True
  with assms show ?thesis by (auto simp: wsocket_send_def)
next
  case False
  obtain q w where k: "w_send e (wsocket_fd s) data (int_length data) (wworld m) = (q, w)" by (metis prod.collapse)
  have "0 \<le>s int_length data" using assms(2) by (intro int_nonneg) (simp add: int_length_value)
  then have "q \<le> int (length data mod 2 ^ 32)"
    using assms(1) k int_length_value [of data] unfolding win_send_bounded_def by metis
  moreover have "r = (if 0 \<le> q then q else - 1)" "m' = wemit (WSend (wsocket_fd s) data (int_length data) q) w m"
    using assms(3) False k by (auto simp: wsocket_send_def win_defs)
  ultimately show ?thesis by auto
qed

lemma wsocket_recv_effect:
  assumes "win_recv_bounded e" "fits_int (length buf)" "wsocket_recv e s buf m = ((r, buf'), m')"
  shows "nat r \<le> length buf \<and> length buf' = length buf \<and> drop (nat r) buf' = drop (nat r) buf
    \<and> warrived (wsocket_fd s) m' = warrived (wsocket_fd s) m @ take (nat r) buf'"
proof (cases "\<not> wsocket_is_open s \<or> buf = []")
  case True
  with assms show ?thesis by (auto simp: wsocket_recv_def)
next
  case False
  obtain q d w where k: "w_recv e (wsocket_fd s) (int_length buf) (wworld m) = ((q, d), w)" by (metis prod.collapse)
  have "if 0 < q then q = int (length d) \<and> length d \<le> length buf else d = []"
    using assms(1) k int_length_small [OF assms(2)] unfolding win_recv_bounded_def by metis
  moreover have "r = (if 0 \<le> q then q else - 1)" "buf' = overlay d buf"
    "m' = wemit (WRecv (wsocket_fd s) (int_length buf) q d) w m"
    using assms(3) False k by (auto simp: wsocket_recv_def win_defs)
  ultimately show ?thesis by (auto simp: take_overlay drop_overlay split: if_splits)
qed

section \<open>The sender\<close>

type_synonym 'w wlink = "'w wenv \<times> wsocket \<times> 'w wmachine"

definition wlink_send :: "'w wlink \<Rightarrow> u8 list \<Rightarrow> int \<times> 'w wlink" where
  "wlink_send = (\<lambda>(e, s, m) data. case wsocket_send e s data m of (r, m') \<Rightarrow> (r, (e, s, m')))"

definition wlink_sent :: "'w wlink \<Rightarrow> u8 list" where
  "wlink_sent = (\<lambda>(e, s, m). waccepted (wsocket_fd s) m)"

definition wlink_ok :: "'w wlink \<Rightarrow> bool" where
  "wlink_ok = (\<lambda>(e, s, m). win_send_bounded e)"

definition wlink_drain :: "'w wlink \<Rightarrow> u8 list \<Rightarrow> nat \<Rightarrow> bool \<times> 'w wlink" where
  "wlink_drain = (\<lambda>(e, s, m) data off.
     case wsocket_send_all_loop e s data off m of (ok, m') \<Rightarrow> (ok, (e, s, m')))"

interpretation wsocket_drain: send_loop wlink_send wlink_sent wlink_ok fits_int wlink_drain
proof
  fix c c' :: "'w wlink" and data r
  obtain e s m where c: "c = (e, s, m)" by (cases c)
  assume ok: "wlink_ok c" and sd: "wlink_send c data = (r, c')"
  then obtain m' where r: "wsocket_send e s data m = (r, m')" "c' = (e, s, m')"
    by (auto simp: wlink_send_def c split: prod.splits)
  have e: "win_send_bounded e" using ok by (simp add: wlink_ok_def c)
  show "wlink_ok c'" using ok r by (simp add: wlink_ok_def c)
  assume "fits_int (length data)"
  then have "length data mod 2 ^ 32 = length data" "length data mod 2 ^ 32 < 2 ^ 31" by (simp_all add: fits_int_def)
  with wsocket_send_effect [OF e _ r(1)]
  have "nat r \<le> length data" "waccepted (wsocket_fd s) m' = waccepted (wsocket_fd s) m @ take (nat r) data"
    by simp_all
  then show "nat r \<le> length data" "wlink_sent c' = wlink_sent c @ take (nat r) data"
    using r by (simp_all add: wlink_sent_def c)
next
  fix c :: "'w wlink" and data off
  obtain e s m where c: "c = (e, s, m)" by (cases c)
  show "wlink_drain c data off =
    (if off < length data then
       let (r, c') = wlink_send c (drop off data)
       in if r \<le> 0 then (False, c') else wlink_drain c' data (off + nat r)
     else (True, c))"
    by (auto simp: c wlink_drain_def wlink_send_def Let_def wsocket_send_all_loop.simps [of e s data off m]
        split: prod.splits)
qed (simp add: fits_int_def)

text \<open>
  C40. For spans below 2 GiB \<open>send_all\<close> does on Windows what it does on Linux: Winsock has accepted
  exactly the first \<open>k\<close> bytes, in order and without repetition, all of them exactly when it answers
  \<open>true\<close>.
\<close>

theorem wsocket_send_all_correct:
  assumes "win_send_bounded e" "fits_int (length data)" "wsocket_send_all e s data m = (ok, m')"
  shows "\<exists>k\<le>length data. (ok \<longleftrightarrow> k = length data) \<and>
    waccepted (wsocket_fd s) m' = waccepted (wsocket_fd s) m @ take k data"
proof -
  have "wlink_drain (e, s, m) data 0 = (ok, (e, s, m'))"
    using assms(3) by (simp add: wlink_drain_def wsocket_send_all_def)
  from wsocket_drain.send_from_start [OF _ assms(2) this] show ?thesis
    using assms(1) by (auto simp: wlink_ok_def wlink_sent_def)
qed

definition sample_wsocket :: wsocket where
  "sample_wsocket = WSocketObj (Some (wsocket_impl_default\<lparr>wsock_handle := 8\<rparr>))"

theorem wsocket_send_all_correct_witness:
  "fst (wsocket_send_all win_sim sample_wsocket [1, 2, 3, 4, 5] (wboot wsim_start))
   \<and> waccepted 8 (snd (wsocket_send_all win_sim sample_wsocket [1, 2, 3, 4, 5] (wboot wsim_start))) = [1, 2, 3, 4, 5]"
proof -
  let ?r = "wsocket_send_all win_sim sample_wsocket [1, 2, 3, 4, 5] (wboot wsim_start)"
  obtain ok m' where r: "?r = (ok, m')" by (metis prod.collapse)
  have "fst ?r" "waccepted 8 (wboot wsim_start) = []" "wsocket_fd sample_wsocket = 8" by code_simp+
  with wsocket_send_all_correct [OF win_sim_bounded(1) _ r] r show ?thesis by (auto simp: fits_int_def)
qed

text \<open>Sending what is left of a span beyond 4 GiB.\<close>

lemma oversize_drop:
  assumes "length (data :: u8 list) = q * 2 ^ 32 + r" "0 < q" "r < (2 :: nat) ^ 31" "n \<le> r"
  shows "n < length data" "length (drop n data) mod 2 ^ 32 = r - n"
proof -
  show "n < length data" using assms by simp
  have "length (drop n data) = q * 2 ^ 32 + (r - n)" using assms by simp
  moreover have "r - n < 2 ^ 32" using assms(3) by simp
  ultimately show "length (drop n data) mod 2 ^ 32 = r - n" by (simp only: mod_mult_self3 mod_less)
qed

lemma oversize_loop:
  assumes "win_send_bounded e" "length data = q * 2 ^ 32 + r" "0 < q" "r < 2 ^ 31" "n \<le> r"
    and "wsocket_send_all_loop e s data n m = (ok, m')"
  shows "\<not> ok \<and> (\<exists>k\<le>r. n \<le> k \<and>
    waccepted (wsocket_fd s) m' = waccepted (wsocket_fd s) m @ take (k - n) (drop n data))"
  using assms(5,6)
proof (induction "r - n" arbitrary: n m rule: less_induct)
  case less
  note fit = oversize_drop [OF assms(2-4) less.prems(1)]
  have mod_small: "length (drop n data) mod 2 ^ 32 < 2 ^ 31"
    unfolding fit(2) using assms(4) by simp
  obtain x m1 where x: "wsocket_send e s (drop n data) m = (x, m1)" by (metis prod.collapse)
  note eff = wsocket_send_effect [OF assms(1) mod_small x, unfolded fit(2)]
  show ?case
  proof (cases "x \<le> 0")
    case True
    then have "\<not> ok \<and> m' = m1"
      using less.prems(2) x fit(1) by (simp add: wsocket_send_all_loop.simps [of e s data n m])
    with True eff less.prems(1) show ?thesis by (intro conjI exI [of _ n]) auto
  next
    case False
    then have step: "wsocket_send_all_loop e s data (n + nat x) m1 = (ok, m')"
      using less.prems(2) x fit(1) by (simp add: wsocket_send_all_loop.simps [of e s data n m])
    have le: "n + nat x \<le> r" "r - (n + nat x) < r - n" using eff less.prems(1) False by auto
    from less.hyps [OF le(2,1) step] obtain k where k: "\<not> ok" "k \<le> r" "n + nat x \<le> k"
      "waccepted (wsocket_fd s) m' =
         waccepted (wsocket_fd s) m1 @ take (k - (n + nat x)) (drop (n + nat x) data)" by auto
    have "k - n = nat x + (k - (n + nat x))" using k(3) by simp
    then have "take (k - n) (drop n data) =
        take (nat x) (drop n data) @ take (k - (n + nat x)) (drop (n + nat x) data)"
      by (simp only: take_add drop_drop add.commute)
    with k eff show ?thesis by (intro conjI exI [of _ k]) simp_all
  qed
qed

text \<open>
  Beyond 4 GiB the cast of the size keeps only its remainder modulo \<open>2 ^ 32\<close>. Where that is a
  non-negative \<open>int\<close>, \<open>send_all\<close> always fails: it sends at most the remainder and then offers Winsock
  a length of zero, although a whole multiple of 4 GiB is still to be sent.
\<close>

theorem wsocket_send_all_oversize:
  assumes "win_send_bounded e" "length data = q * 2 ^ 32 + r" "0 < q" "r < 2 ^ 31"
    and "wsocket_send_all e s data m = (ok, m')"
  shows "\<not> ok \<and> (\<exists>k\<le>r. waccepted (wsocket_fd s) m' = waccepted (wsocket_fd s) m @ take k data)"
  using oversize_loop [OF assms(1-4) _ assms(5) [unfolded wsocket_send_all_def]] by simp

theorem wsocket_send_all_oversize_witness:
  "\<not> fst (wsocket_send_all win_sim sample_wsocket (replicate (2 ^ 32) 0) (wboot wsim_start))"
proof -
  obtain ok m' where r: "wsocket_send_all win_sim sample_wsocket (replicate (2 ^ 32) 0) (wboot wsim_start) = (ok, m')"
    by (metis prod.collapse)
  have "length (replicate (2 ^ 32) (0 :: u8)) = 1 * 2 ^ 32 + 0" by (simp only: length_replicate)
  from wsocket_send_all_oversize [OF win_sim_bounded(1) this _ _ r] r show ?thesis by simp
qed

section \<open>The receiver\<close>

definition wlink_read :: "'w wlink \<Rightarrow> u8 list \<Rightarrow> (nat \<times> u8 list) \<times> 'w wlink" where
  "wlink_read = (\<lambda>(e, s, m) buf. case wsocket_recv e s buf m of ((r, b), m') \<Rightarrow> ((nat r, b), (e, s, m')))"

definition wlink_log :: "'w wlink \<Rightarrow> u8 list" where
  "wlink_log = (\<lambda>(e, s, m). warrived (wsocket_fd s) m)"

definition wlink_in_ok :: "'w wlink \<Rightarrow> bool" where
  "wlink_in_ok = (\<lambda>(e, s, m). win_recv_bounded e)"

definition wlink_fill :: "'w wlink \<Rightarrow> u8 list \<Rightarrow> nat \<Rightarrow> (bool \<times> u8 list) \<times> 'w wlink" where
  "wlink_fill = (\<lambda>(e, s, m) buf done.
     case wsocket_recv_all_loop e s buf done m of ((ok, b), m') \<Rightarrow> ((ok, b), (e, s, m')))"

interpretation wsocket_fill: fill_loop wlink_read wlink_log wlink_in_ok fits_int wlink_fill
proof
  fix c c' :: "'w wlink" and buf buf' n
  obtain e s m where c: "c = (e, s, m)" by (cases c)
  assume ok: "wlink_in_ok c" and rd: "wlink_read c buf = ((n, buf'), c')"
  then obtain r m' where r: "wsocket_recv e s buf m = ((r, buf'), m')" "n = nat r" "c' = (e, s, m')"
    by (auto simp: wlink_read_def c split: prod.splits)
  have e: "win_recv_bounded e" using ok by (simp add: wlink_in_ok_def c)
  show "wlink_in_ok c'" using ok r by (simp add: wlink_in_ok_def c)
  assume "fits_int (length buf)"
  note eff = wsocket_recv_effect [OF e this r(1)]
  show "n \<le> length buf \<and> length buf' = length buf \<and> drop n buf' = drop n buf" using eff r by simp
  show "wlink_log c' = wlink_log c @ take n buf'" using eff r by (simp add: wlink_log_def c)
next
  fix c :: "'w wlink" and buf "done"
  obtain e s m where c: "c = (e, s, m)" by (cases c)
  show "wlink_fill c buf done =
    (if done < length buf then
       let ((n, chunk), c') = wlink_read c (drop done buf); buf' = write_tail done chunk buf
       in if n = 0 then ((False, buf'), c') else wlink_fill c' buf' (done + n)
     else ((True, buf), c))"
    by (auto simp: c wlink_fill_def wlink_read_def Let_def wsocket_recv_all_loop.simps [of e s buf "done" m]
        split: prod.splits)
qed (simp add: fits_int_def)

lemma wsocket_recv_all_effect:
  assumes "win_recv_bounded e" "fits_int (length buf)" "wsocket_recv_all e s buf m = ((ok, buf'), m')"
  shows "\<exists>k\<le>length buf. (ok \<longleftrightarrow> k = length buf) \<and> length buf' = length buf \<and>
    drop k buf' = drop k buf \<and> warrived (wsocket_fd s) m' = warrived (wsocket_fd s) m @ take k buf'"
proof -
  have "wlink_fill (e, s, m) buf 0 = ((ok, buf'), (e, s, m'))"
    using assms(3) by (simp add: wlink_fill_def wsocket_recv_all_def)
  from wsocket_fill.fill_from_start [OF _ assms(2) this] show ?thesis
    using assms(1) by (auto simp: wlink_in_ok_def wlink_log_def)
qed

end
