(* ===== verification/Sdp_Win.thy ===== *)
theory Sdp_Win
  imports Win_Env
begin

text \<open>
  \<open>src/sdp_win.cpp\<close>: publication of a service through \<open>WSASetServiceW\<close>, withdrawn by the guard that
  \<open>create\<close> returns, and the resolution of a service UUID to a channel through the lookup calls of the
  Bluetooth name space.
\<close>

section \<open>State\<close>

text \<open>
  \<open>qs\<close> points at the other members of the same heap object, which do not change after \<open>create\<close>; the
  model stores what it points at.
\<close>

record win_registration_impl =
  wr_qs :: query_set
  wr_name :: "u16 list"
  wr_guid :: guid
  wr_cs_addr :: csaddr
  wr_sa :: sockaddr_bth
  wr_registered :: bool

datatype win_registration = WinRegistration (wr_pimpl: "win_registration_impl option")

definition guid_zero :: guid where
  "guid_zero = \<lparr>Data1 = 0, Data2 = 0, Data3 = 0, Data4 = replicate 8 0\<rparr>"

definition win_registration_impl_default :: win_registration_impl where
  "win_registration_impl_default =
     \<lparr>wr_qs = query_zero, wr_name = [], wr_guid = guid_zero,
      wr_cs_addr = \<lparr>local_sa = None, remote_sa = None\<rparr>, wr_sa = sockaddr_bth_zero, wr_registered = False\<rparr>"

definition win_registration_new :: "'w wenv \<Rightarrow> 'w wmachine \<Rightarrow> win_registration \<times> 'w wmachine" where
  "win_registration_new e m = (WinRegistration (Some win_registration_impl_default), winsock_ensure e m)"

section \<open>Unregistering\<close>

definition win_registration_impl_unregister ::
  "'w wenv \<Rightarrow> win_registration_impl \<Rightarrow> 'w wmachine \<Rightarrow> win_registration_impl \<times> 'w wmachine" where
  "win_registration_impl_unregister e im m =
     (if wr_registered im then
        let (_, m) = wsa_set_service e (wr_qs im) RNRSERVICE_DELETE m
        in (im\<lparr>wr_registered := False\<rparr>, m)
      else (im, m))"

definition win_registration_unregister ::
  "'w wenv \<Rightarrow> win_registration \<Rightarrow> 'w wmachine \<Rightarrow> win_registration \<times> 'w wmachine" where
  "win_registration_unregister e g m =
     (case wr_pimpl g of None \<Rightarrow> (g, m)
      | Some im \<Rightarrow> let (im, m) = win_registration_impl_unregister e im m in (WinRegistration (Some im), m))"

definition win_registration_destroy :: "'w wenv \<Rightarrow> win_registration \<Rightarrow> 'w wmachine \<Rightarrow> 'w wmachine" where
  "win_registration_destroy e g m =
     (case wr_pimpl g of None \<Rightarrow> m | Some im \<Rightarrow> snd (win_registration_impl_unregister e im m))"

definition win_registration_is_registered :: "win_registration \<Rightarrow> bool" where
  "win_registration_is_registered g = (case wr_pimpl g of None \<Rightarrow> False | Some im \<Rightarrow> wr_registered im)"

definition win_registration_move :: "win_registration \<Rightarrow> win_registration \<times> win_registration" where
  "win_registration_move other = (WinRegistration (wr_pimpl other), WinRegistration None)"

definition win_registration_move_assign ::
  "'w wenv \<Rightarrow> win_registration \<Rightarrow> win_registration \<Rightarrow> 'w wmachine \<Rightarrow>
     (win_registration \<times> win_registration) \<times> 'w wmachine" where
  "win_registration_move_assign e dst other m =
     ((WinRegistration (wr_pimpl other), WinRegistration None), win_registration_destroy e dst m)"

section \<open>Publishing\<close>

text \<open>
  \<open>std::wstring(s.begin(), s.end())\<close> converts every \<open>char\<close> by itself. \<open>char\<close> is signed on Windows, so the
  conversion to the 16-bit \<open>wchar_t\<close> extends the sign.
\<close>

definition widen :: "string \<Rightarrow> u16 list" where
  "widen s = map (\<lambda>c. scast (byte_of_char c)) s"

definition service_query :: "u8 \<Rightarrow> uuid \<Rightarrow> string \<Rightarrow> query_set" where
  "service_query channel u service_name =
     query_zero\<lparr>instance_name := Some (widen service_name), class_id := Some (uuid_to_guid u), csa_count := 1,
       csa_buffer := Some \<lparr>local_sa = Some (sockaddr_bth_zero\<lparr>bth_family := AF_BTH, bth_port := ucast channel\<rparr>),
                           remote_sa = None\<rparr>\<rparr>"

definition win_registration_create ::
  "'w wenv \<Rightarrow> u8 \<Rightarrow> uuid \<Rightarrow> string \<Rightarrow> string \<Rightarrow> 'w wmachine \<Rightarrow> win_registration option \<times> 'w wmachine" where
  "win_registration_create e channel u service_name provider m =
     (let (_, m) = win_registration_new e m;
          sa = sockaddr_bth_zero\<lparr>bth_family := AF_BTH, bth_port := ucast channel\<rparr>;
          cs_addr = \<lparr>local_sa = Some sa, remote_sa = None\<rparr>;
          qs = service_query channel u service_name;
          im = \<lparr>wr_qs = qs, wr_name = widen service_name, wr_guid = uuid_to_guid u,
                wr_cs_addr = cs_addr, wr_sa = sa, wr_registered = False\<rparr>;
          (ret, m) = wsa_set_service e qs RNRSERVICE_REGISTER m
      in if ret \<noteq> 0 then (None, win_registration_destroy e (WinRegistration (Some im)) m)
         else (Some (WinRegistration (Some (im\<lparr>wr_registered := True\<rparr>))), m))"

section \<open>Resolving a channel\<close>

definition lookup_query :: "address \<Rightarrow> uuid \<Rightarrow> query_set" where
  "lookup_query target u =
     query_zero\<lparr>class_id := Some (uuid_to_guid u),
       lookup_context := Some (widen (''('' @ address_to_string target @ '')''))\<rparr>"

text \<open>The channel that the answer offers: the low byte of the port of its first remote address.\<close>

definition answer_channel :: "query_set \<Rightarrow> u8 option" where
  "answer_channel q =
     (if 0 < csa_count q then
        case csa_buffer q of None \<Rightarrow> None
        | Some c \<Rightarrow> (case remote_sa c of None \<Rightarrow> None | Some sa \<Rightarrow> Some (ucast (bth_port sa)))
      else None)"

definition win_resolve_channel ::
  "'w wenv \<Rightarrow> address \<Rightarrow> uuid \<Rightarrow> 'w wmachine \<Rightarrow> u8 option \<times> 'w wmachine" where
  "win_resolve_channel e target u m =
     (let m = winsock_ensure e m;
          flags = LUP_FLUSHCACHE OR LUP_RETURN_ADDR;
          ((r, hLookup), m) = wsa_lookup_begin e (lookup_query target u) flags m
      in if r \<noteq> 0 then (None, m)
         else
           let ((res, buffer_len, results), m) = wsa_lookup_next e hLookup flags 4096 m;
               ((res, results), m) =
                 (if res \<noteq> 0 then
                    let (err, m) = wsa_last_error e m
                    in if err = WSAEFAULT \<and> 4096 < buffer_len then
                         let ((res, _, results), m) = wsa_lookup_next e hLookup flags buffer_len m
                         in ((res, results), m)
                       else ((res, results), m)
                  else ((res, results), m));
               found_channel = (if res = 0 then answer_channel results else None)
           in (found_channel, wsa_lookup_end e hLookup m))"

section \<open>What a registration holds\<close>

definition win_services :: "win_registration \<Rightarrow> query_set multiset" where
  "win_services g =
     (case wr_pimpl g of None \<Rightarrow> {#} | Some im \<Rightarrow> if wr_registered im then {#wr_qs im#} else {#})"

lemmas win_registration_defs = win_registration_unregister_def win_registration_impl_unregister_def
  win_registration_is_registered_def win_services_def win_registration_destroy_def win_defs

interpretation win_service: closable win_registration_unregister win_registration_is_registered
  win_services live_services "\<lambda>_. True"
proof
  fix e :: "'a wenv" and g g' :: win_registration and m m' :: "'a wmachine"
  show "win_registration_unregister e g m = (g', m') \<Longrightarrow>
      True \<and> \<not> win_registration_is_registered g' \<and> win_services g' = {#}"
    by (auto simp: win_registration_defs split: option.splits prod.splits if_splits)
  show "win_registration_unregister e g m = (g', m') \<Longrightarrow> live_services m' = live_services m - win_services g"
    by (auto simp: win_registration_defs split: option.splits prod.splits if_splits)
  show "\<not> win_registration_is_registered g \<Longrightarrow> win_registration_unregister e g m = (g, m)"
    by (cases g) (auto simp: win_registration_defs split: option.splits)
qed

lemma win_registration_destroy_unregister:
  "win_registration_destroy e g m = snd (win_registration_unregister e g m)"
  by (auto simp: win_registration_destroy_def win_registration_unregister_def split: option.splits prod.splits)

text \<open>Withdrawing a service touches neither sockets nor lookups.\<close>

definition same_win_io :: "'w wmachine \<Rightarrow> 'w wmachine \<Rightarrow> bool" where
  "same_win_io m m' \<longleftrightarrow> live_socks m' = live_socks m \<and> socks_respected m' = socks_respected m
     \<and> live_lookups m' = live_lookups m \<and> lookups_respected m' = lookups_respected m"

lemma same_win_io_refl [simp]: "same_win_io m m"
  by (simp add: same_win_io_def)

lemma win_unregister_io: "win_registration_unregister e g m = (g', m') \<Longrightarrow> same_win_io m m'"
  by (auto simp: win_registration_defs same_win_io_def split: option.splits prod.splits if_splits)

lemma win_create_cases:
  assumes "win_registration_create e ch u name prov m = (res, m')"
  obtains (published) g w where "res = Some g" "win_registration_is_registered g"
      "win_services g = {#service_query ch u name#}"
      "m' = wemit (WSetService (service_query ch u name) RNRSERVICE_REGISTER 0) w (winsock_ensure e m)"
  | (refused) r w where "res = None" "r \<noteq> 0"
      "m' = wemit (WSetService (service_query ch u name) RNRSERVICE_REGISTER r) w (winsock_ensure e m)"
  using assms
  by (auto simp: win_registration_create_def win_registration_new_def win_registration_defs Let_def
      split: prod.splits if_splits)

end
