(* ===== verification/Sdp_Win_Facts.thy ===== *)
theory Sdp_Win_Facts
  imports Sdp_Win Win_Sim
begin

text \<open>
  Properties of the Windows SDP code: a published service is withdrawn exactly once, what the name of a
  service becomes, and what a lookup returns on every path.
\<close>

section \<open>Publication\<close>

text \<open>
  \<open>create\<close> either publishes one service, whose query carries the channel as its port, the UUID as a
  GUID and the name, and returns the guard that holds it; or it returns nothing and publishes nothing.
  Withdrawing the guard deletes exactly that service, and a second withdrawal or the destructor
  afterwards makes no call.
\<close>

theorem win_registration_lifecycle:
  assumes "win_registration_create e ch u name prov m = (res, m1)"
  shows "same_win_io m m1 \<and>
    (case res of
       None \<Rightarrow> live_services m1 = live_services m
     | Some g \<Rightarrow>
         live_services m1 = live_services m + {#service_query ch u name#}
         \<and> win_registration_is_registered g
         \<and> (case win_registration_unregister e g m1 of
              (g', m2) \<Rightarrow> live_services m2 = live_services m \<and> same_win_io m m2
                \<and> \<not> win_registration_is_registered g'
                \<and> win_registration_unregister e g' m2 = (g', m2)
                \<and> win_registration_destroy e g' m2 = m2))"
  using assms
proof (cases rule: win_create_cases)
  case (published g w)
  obtain g' m2 where u: "win_registration_unregister e g m1 = (g', m2)" by (metis prod.collapse)
  have "win_registration_unregister e g' m2 = (g', m2)" by (rule win_service.close_again [OF _ u]) simp
  moreover have "live_services m2 = live_services m1 - win_services g"
    by (rule win_service.close_releases [OF _ u]) simp
  moreover have "\<not> win_registration_is_registered g'" using win_service.close_shuts [OF _ u] by simp
  moreover have "same_win_io m1 m2" using u by (rule win_unregister_io)
  ultimately show ?thesis
    using published u by (simp add: same_win_io_def win_registration_destroy_unregister)
next
  case (refused r w)
  then show ?thesis by (simp add: same_win_io_def)
qed

theorem win_registration_lifecycle_witness:
  "case win_registration_create win_sim 5 uuid_serial_port ''A'' ''B'' (wboot wsim_start) of
     (None, _) \<Rightarrow> False
   | (Some g, m) \<Rightarrow> live_services m = {#service_query 5 uuid_serial_port ''A''#} \<and>
       live_services (snd (win_registration_unregister win_sim g m)) = {#}"
proof -
  let ?r = "win_registration_create win_sim 5 uuid_serial_port ''A'' ''B'' (wboot wsim_start)"
  obtain res m where r: "?r = (res, m)" by (metis prod.collapse)
  have "fst ?r \<noteq> None" by code_simp
  with r obtain g where "res = Some g" by auto
  with win_registration_lifecycle [OF r] r show ?thesis by (auto split: prod.splits)
qed

section \<open>Names\<close>

text \<open>The name that a lookup would have to show: the bytes of the text as they are.\<close>

definition plain_units :: "string \<Rightarrow> u16 list" where
  "plain_units s = map (\<lambda>c. ucast (byte_of_char c)) s"

text \<open>
  The conversion of a service name keeps exactly the texts of 7-bit characters. Every other byte,
  such as those of a UTF-8 sequence, becomes a unit from 0xFF80 up.
\<close>

theorem widen_ascii_only:
  "widen s = plain_units s \<longleftrightarrow> list_all (\<lambda>c. of_char c < (128 :: nat)) s"
proof -
  have "(scast b :: u16) = ucast b \<longleftrightarrow> unat b < 128" for b :: u8
  proof
    assume "unat b < 128"
    then have "\<not> bit b 7" by (auto simp: bit_iff_odd_drop_bit drop_bit_eq_div word_arith_nat_div)
    then have "n < 7" if "bit b n" for n
      using that bit_imp_le_length [OF that] by (cases "n = 7") auto
    with \<open>\<not> bit b 7\<close> show "(scast b :: u16) = ucast b"
      by (intro bit_word_eqI) (force simp: bit_simps min_def)
  next
    assume eq: "(scast b :: u16) = ucast b"
    have "bit (scast b :: u16) 8 = bit (ucast b :: u16) 8" by (simp only: eq)
    then have "\<not> bit b 7" by (auto simp: bit_simps dest: bit_imp_le_length)
    show "unat b < 128"
    proof (rule ccontr)
      assume "\<not> unat b < 128"
      then have "unat b div 128 = 1" using unat_less_256 [of b] by (intro div_nat_eqI) simp_all
      then have "bit (unat b) 7" by (simp add: bit_iff_odd)
      then have "bit b 7" by (simp add: bit_unsigned_iff)
      with \<open>\<not> bit b 7\<close> show False by simp
    qed
  qed
  moreover have "unat (byte_of_char c) = of_char c" for c
    by (simp add: byte_of_char_def unat_of_nat)
  ultimately show ?thesis by (simp add: widen_def plain_units_def list_all_iff)
qed

section \<open>Lookup\<close>

text \<open>
  The calls of a lookup once it has begun, with the channel it finds: the first answer is taken or given
  up, or it was refused as too large for the buffer of 4096 bytes and the second one decides.
\<close>

inductive lookup_run :: "u64 \<Rightarrow> wevent list \<Rightarrow> u8 option \<Rightarrow> bool" for h where
  answered: "lookup_run h [WLookupNext h 0x1100 4096 0 n q, WLookupEnd h] (answer_channel q)"
| given_up: "res \<noteq> 0 \<Longrightarrow> err \<noteq> WSAEFAULT \<or> n \<le> 4096 \<Longrightarrow>
    lookup_run h [WLookupNext h 0x1100 4096 res n q, WLastError err, WLookupEnd h] None"
| retried: "res \<noteq> 0 \<Longrightarrow> 4096 < n \<Longrightarrow>
    lookup_run h [WLookupNext h 0x1100 4096 res n q, WLastError WSAEFAULT,
      WLookupNext h 0x1100 n res' n' q', WLookupEnd h] (if res' = 0 then answer_channel q' else None)"

lemma win_resolve_channel_paths:
  assumes "win_resolve_channel e a u m = (found, m')"
  obtains (refused) r h w where "r \<noteq> 0" "found = None"
      "m' = wemit (WLookupBegin (lookup_query a u) 0x1100 r h) w (winsock_ensure e m)"
  | (begun) h evs where "lookup_run h evs found" "wsa_up m'"
      "wtrace m' = wtrace (winsock_ensure e m) @ WLookupBegin (lookup_query a u) 0x1100 0 h # evs"
proof -
  have flags: "LUP_FLUSHCACHE OR LUP_RETURN_ADDR = 0x1100"
    by (simp add: LUP_FLUSHCACHE_def LUP_RETURN_ADDR_def)
  let ?m0 = "winsock_ensure e m" and ?q = "lookup_query a u"
  obtain r h w where b: "w_lookup_begin e ?q 0x1100 (wworld ?m0) = ((r, h), w)" by (metis prod.collapse)
  obtain res n q w1 where n1: "w_lookup_next e h 0x1100 4096 w = ((res, n, q), w1)" by (metis prod.collapse)
  obtain err w2 where er: "w_last_error e w1 = (err, w2)" by (metis prod.collapse)
  obtain res' n' q' w3 where n2: "w_lookup_next e h 0x1100 n w2 = ((res', n', q'), w3)" by (metis prod.collapse)
  note run = assms [unfolded win_resolve_channel_def flags win_defs Let_def, simplified b n1 er n2 prod.case wemit_simps]
  consider "r \<noteq> 0" | "r = 0" "res = 0" | "r = 0" "res \<noteq> 0" "\<not> (err = WSAEFAULT \<and> 4096 < n)"
    | "r = 0" "res \<noteq> 0" "err = WSAEFAULT" "4096 < n" by fastforce
  then show thesis
  proof cases
    case 1
    with run refused [of r h w] show ?thesis by auto
  next
    case 2
    with run have "found = answer_channel q" by auto
    with run 2 show ?thesis
      by (intro begun [of h "[WLookupNext h 0x1100 4096 0 n q, WLookupEnd h]"]) (auto intro: answered)
  next
    case 3
    with run have "found = None" by (auto simp: if_not_P)
    with run 3 show ?thesis
      by (intro begun [of h "[WLookupNext h 0x1100 4096 res n q, WLastError err, WLookupEnd h]"])
        (auto simp: if_not_P intro: given_up)
  next
    case 4
    with run have f: "found = (if res' = 0 then answer_channel q' else None)" by auto
    show ?thesis
    proof (rule begun)
      show "lookup_run h [WLookupNext h 0x1100 4096 res n q, WLastError WSAEFAULT,
          WLookupNext h 0x1100 n res' n' q', WLookupEnd h] found"
        unfolding f using 4(2,4) by (rule retried)
    qed (use run 4 in auto)
  qed
qed

lemma win_resolve_ledger:
  assumes "win_resolve_channel e a u m = (found, m')"
  shows "live_lookups m' = live_lookups m" "lookups_respected m' = lookups_respected m"
    "live_socks m' = live_socks m" "socks_respected m' = socks_respected m" "live_services m' = live_services m"
proof -
  have "live_lookups m' = live_lookups m \<and> lookups_respected m' = lookups_respected m
    \<and> live_socks m' = live_socks m \<and> socks_respected m' = socks_respected m
    \<and> live_services m' = live_services m"
    using assms
  proof (cases rule: win_resolve_channel_paths)
    case (refused r h w)
    then show ?thesis by auto
  next
    case (begun h evs)
    let ?tr = "wtrace (winsock_ensure e m) @ [WLookupBegin (lookup_query a u) 0x1100 0 h]"
    have "balance lookup_acquired lookup_released (?tr @ evs) = live_lookups m
      \<and> well_used lookup_acquired lookup_released lookup_used (?tr @ evs) = lookups_respected m
      \<and> balance wsock_acquired wsock_released (?tr @ evs) = live_socks m
      \<and> well_used wsock_acquired wsock_released wsock_used (?tr @ evs) = socks_respected m
      \<and> balance service_acquired service_released (?tr @ evs) = live_services m"
      using begun(1)
      by cases (simp_all add: balance_append well_used_append win_ledger_defs [symmetric])
    with begun show ?thesis by (auto simp: win_ledger_defs)
  qed
  then show "live_lookups m' = live_lookups m" "lookups_respected m' = lookups_respected m"
    "live_socks m' = live_socks m" "socks_respected m' = socks_respected m" "live_services m' = live_services m"
    by blast+
qed

text \<open>
  C34. \<open>resolve_channel\<close> ends every lookup that it begins and makes no call on one that it does not
  hold. It asks a second time, with the size the first answer named, exactly when the first answer was
  refused as too large for the 4096 bytes. The result is the low byte of the port in the answer of the
  last attempt if that succeeded and carries a remote address, and nothing otherwise.
\<close>

theorem win_resolve_channel_correct:
  assumes "win_resolve_channel e a u m = (found, m')"
  shows "live_lookups m' = live_lookups m \<and> lookups_respected m' = lookups_respected m
    \<and> (\<exists>r h evs. wtrace m' = wtrace (winsock_ensure e m) @ WLookupBegin (lookup_query a u) 0x1100 r h # evs
       \<and> (if r \<noteq> 0 then evs = [] \<and> found = None else lookup_run h evs found))"
  using assms win_resolve_ledger [OF assms]
  by (cases rule: win_resolve_channel_paths) auto

theorem win_resolve_channel_correct_witness:
  "case win_resolve_channel win_sim address_any uuid_serial_port
       (wboot (wsim_start\<lparr>ws_answer := wsim_offer 9, ws_answer_size := 5000\<rparr>)) of
     (found, m) \<Rightarrow> found = Some 9 \<and> live_lookups m = {#}"
proof -
  let ?r = "win_resolve_channel win_sim address_any uuid_serial_port
       (wboot (wsim_start\<lparr>ws_answer := wsim_offer 9, ws_answer_size := 5000\<rparr>))"
  obtain f m where r: "?r = (f, m)" by (metis prod.collapse)
  have "fst ?r = Some 9" by code_simp
  with win_resolve_channel_correct [OF r] r show ?thesis by simp
qed

text \<open>
  The port of the answer is cut to eight bits without a check, so a lookup can succeed with channel 0,
  which no RFCOMM service has.
\<close>

lemma win_resolve_channel_zero:
  "fst (win_resolve_channel win_sim address_any uuid_serial_port (wboot (wsim_start\<lparr>ws_answer := wsim_offer 256\<rparr>)))
     = Some 0"
  by code_simp

end
