(* ===== verification/Server_Win.thy ===== *)
theory Server_Win
  imports Socket_Win_Facts Sdp_Win_Facts Server_Model
begin

text \<open>
  \<open>class Server\<close> and \<open>class Client\<close> of \<open>src/server.cpp\<close> and \<open>src/client.cpp\<close>, Windows branches. Unlike the
  Linux branch, \<open>listen\<close> lets Winsock choose the port and asks for it with \<open>getsockname\<close>.
\<close>

section \<open>State\<close>

record wserver_impl =
  wlisten_fd :: win_socket
  wsrv_channel :: u8
  wsdp_reg :: "win_registration option"

datatype wserver = WServer (wserver_pimpl: "wserver_impl option")

definition wserver_new :: "'w wenv \<Rightarrow> 'w wmachine \<Rightarrow> wserver \<times> 'w wmachine" where
  "wserver_new e m =
     (WServer (Some \<lparr>wlisten_fd = INVALID_SOCKET, wsrv_channel = 0, wsdp_reg = None\<rparr>), winsock_ensure e m)"

definition wserver_impl_close :: "'w wenv \<Rightarrow> wserver_impl \<Rightarrow> 'w wmachine \<Rightarrow> wserver_impl \<times> 'w wmachine" where
  "wserver_impl_close e im m =
     (let (im, m) =
            (case wsdp_reg im of
               Some g \<Rightarrow>
                 let (g, m) = win_registration_unregister e g m
                 in (im\<lparr>wsdp_reg := None\<rparr>, win_registration_destroy e g m)
             | None \<Rightarrow> (im, m));
          (im, m) =
            (if wlisten_fd im \<noteq> INVALID_SOCKET then
               (im\<lparr>wlisten_fd := INVALID_SOCKET\<rparr>, win_close_socket_handle e (wlisten_fd im) m)
             else (im, m))
      in (im\<lparr>wsrv_channel := 0\<rparr>, m))"

definition wserver_close :: "'w wenv \<Rightarrow> wserver \<Rightarrow> 'w wmachine \<Rightarrow> wserver \<times> 'w wmachine" where
  "wserver_close e s m =
     (case wserver_pimpl s of
        None \<Rightarrow> (s, m)
      | Some im \<Rightarrow> let (im, m) = wserver_impl_close e im m in (WServer (Some im), m))"

definition wserver_destroy :: "'w wenv \<Rightarrow> wserver \<Rightarrow> 'w wmachine \<Rightarrow> 'w wmachine" where
  "wserver_destroy e s m =
     (case wserver_pimpl s of None \<Rightarrow> m | Some im \<Rightarrow> snd (wserver_impl_close e im m))"

definition wserver_move :: "wserver \<Rightarrow> wserver \<times> wserver" where
  "wserver_move other = (WServer (wserver_pimpl other), WServer None)"

definition wserver_move_assign ::
  "'w wenv \<Rightarrow> wserver \<Rightarrow> wserver \<Rightarrow> 'w wmachine \<Rightarrow> (wserver \<times> wserver) \<times> 'w wmachine" where
  "wserver_move_assign e dst other m =
     ((WServer (wserver_pimpl other), WServer None), wserver_destroy e dst m)"

definition wserver_is_listening :: "wserver \<Rightarrow> bool" where
  "wserver_is_listening s =
     (case wserver_pimpl s of None \<Rightarrow> False | Some im \<Rightarrow> wlisten_fd im \<noteq> INVALID_SOCKET)"

definition wserver_channel :: "wserver \<Rightarrow> u8" where
  "wserver_channel s = (case wserver_pimpl s of None \<Rightarrow> 0 | Some im \<Rightarrow> wsrv_channel im)"

section \<open>Listening and accepting\<close>

text \<open>The local address of the bind: the channel asked for, or any port.\<close>

definition bound_address :: "u8 \<Rightarrow> sockaddr_bth" where
  "bound_address channel = sockaddr_bth_zero\<lparr>bth_family := AF_BTH,
     bth_port := (if channel = 0 then BT_PORT_ANY else ucast channel)\<rparr>"

definition wserver_listen ::
  "'w wenv \<Rightarrow> wserver \<Rightarrow> u8 \<Rightarrow> int \<Rightarrow> 'w wmachine \<Rightarrow> ((ub + bool) \<times> wserver) \<times> 'w wmachine" where
  "wserver_listen e srv channel backlog m =
     (case wserver_pimpl srv of
        None \<Rightarrow> ((Inl NullDereference, srv), m)
      | Some im \<Rightarrow>
          let (im, m) = wserver_impl_close e im m;
              (s, m) = win_socket_call e m
          in if s = INVALID_SOCKET then ((Inr False, WServer (Some im)), m)
             else
               let (_, m) = win_setsockopt e s SO_SNDBUF (WinInt DEFAULT_BUFFER_SIZE) m;
                   (_, m) = win_setsockopt e s SO_RCVBUF (WinInt DEFAULT_BUFFER_SIZE) m;
                   (r, m) = win_bind e s (bound_address channel) m
               in if r \<noteq> 0 then ((Inr False, WServer (Some im)), win_close_socket_handle e s m)
                  else
                    let ((r, sa), m) = win_getsockname e s m
                    in if r \<noteq> 0 then ((Inr False, WServer (Some im)), win_close_socket_handle e s m)
                       else
                         let (r, m) = win_listen e s backlog m
                         in if r \<noteq> 0 then ((Inr False, WServer (Some im)), win_close_socket_handle e s m)
                            else ((Inr True, WServer (Some (im\<lparr>wlisten_fd := s, wsrv_channel := ucast (bth_port sa)\<rparr>))), m))"

definition wserver_listen_with_sdp ::
  "'w wenv \<Rightarrow> wserver \<Rightarrow> uuid \<Rightarrow> string \<Rightarrow> u8 \<Rightarrow> int \<Rightarrow> 'w wmachine \<Rightarrow>
     ((ub + bool) \<times> wserver) \<times> 'w wmachine" where
  "wserver_listen_with_sdp e srv u service_name channel backlog m =
     (let ((res, srv), m) = wserver_listen e srv channel backlog m in
      case res of
        Inl b \<Rightarrow> ((Inl b, srv), m)
      | Inr False \<Rightarrow> ((Inr False, srv), m)
      | Inr True \<Rightarrow>
          (case wserver_pimpl srv of
             None \<Rightarrow> ((Inl NullDereference, srv), m)
           | Some im \<Rightarrow>
               let (reg, m) = win_registration_create e (wsrv_channel im) u service_name default_provider m;
                   im = im\<lparr>wsdp_reg := reg\<rparr>
               in if reg = None then
                    let (im, m) = wserver_impl_close e im m in ((Inr False, WServer (Some im)), m)
                  else ((Inr True, WServer (Some im)), m)))"

definition wserver_accept :: "'w wenv \<Rightarrow> wserver \<Rightarrow> 'w wmachine \<Rightarrow> wsocket option \<times> 'w wmachine" where
  "wserver_accept e srv m =
     (case wserver_pimpl srv of
        None \<Rightarrow> (None, m)
      | Some im \<Rightarrow>
          if \<not> wserver_is_listening srv then (None, m)
          else
            let ((client_s, rem), m) = win_accept e (wlisten_fd im) m
            in if client_s = INVALID_SOCKET then (None, m)
               else
                 let (sock, m) = wsocket_from_native e client_s (bth_to_address (bth_addr rem)) (ucast (bth_port rem)) m
                 in (Some sock, m))"

section \<open>Connecting\<close>

definition win_client_connect ::
  "'w wenv \<Rightarrow> address \<Rightarrow> u8 \<Rightarrow> int \<Rightarrow> 'w wmachine \<Rightarrow> wsocket option \<times> 'w wmachine" where
  "win_client_connect e addr channel timeout m =
     (let m = winsock_ensure e m;
          (s, m) = win_socket_call e m
      in if s = INVALID_SOCKET then (None, m)
         else
           let (_, m) = win_setsockopt e s SO_SNDBUF (WinInt DEFAULT_BUFFER_SIZE) m;
               (_, m) = win_setsockopt e s SO_RCVBUF (WinInt DEFAULT_BUFFER_SIZE) m;
               m = (if 0 < timeout then
                      let (_, m) = win_setsockopt e s SO_SNDTIMEO (dword_of_ms timeout) m;
                          (_, m) = win_setsockopt e s SO_RCVTIMEO (dword_of_ms timeout) m
                      in m
                    else m);
               sa = sockaddr_bth_zero\<lparr>bth_family := AF_BTH, bth_addr := address_to_bth addr,
                      bth_port := ucast channel\<rparr>;
               (r, m) = win_connect e s sa m
           in if r \<noteq> 0 then (None, win_close_socket_handle e s m)
              else let (sock, m) = wsocket_from_native e s addr channel m in (Some sock, m))"

definition win_client_connect_by_sdp ::
  "'w wenv \<Rightarrow> address \<Rightarrow> uuid \<Rightarrow> int \<Rightarrow> 'w wmachine \<Rightarrow> wsocket option \<times> 'w wmachine" where
  "win_client_connect_by_sdp e addr u timeout m =
     (let (channel, m) = win_resolve_channel e addr u m in
      case channel of
        None \<Rightarrow> (None, m)
      | Some ch \<Rightarrow> win_client_connect e addr ch timeout m)"

section \<open>What a server holds\<close>

definition wserver_fds :: "wserver \<Rightarrow> win_socket multiset" where
  "wserver_fds s =
     (case wserver_pimpl s of None \<Rightarrow> {#}
      | Some im \<Rightarrow> if wlisten_fd im \<noteq> INVALID_SOCKET then {#wlisten_fd im#} else {#})"

definition wserver_services :: "wserver \<Rightarrow> query_set multiset" where
  "wserver_services s =
     (case wserver_pimpl s of None \<Rightarrow> {#}
      | Some im \<Rightarrow> (case wsdp_reg im of None \<Rightarrow> {#} | Some g \<Rightarrow> win_services g))"

text \<open>The invariant: only a listening server has a channel or a registration.\<close>

definition wserver_valid :: "wserver \<Rightarrow> bool" where
  "wserver_valid s =
     (case wserver_pimpl s of None \<Rightarrow> True
      | Some im \<Rightarrow> wlisten_fd im = INVALID_SOCKET \<longrightarrow> wsrv_channel im = 0 \<and> wsdp_reg im = None)"

lemmas wserver_defs = wserver_fds_def wserver_services_def wserver_valid_def wserver_is_listening_def
  wserver_close_def wserver_impl_close_def wserver_channel_def

lemma wserver_close_effect:
  assumes "wserver_close e s m = (s', m')"
  shows "wserver_valid s'" "\<not> wserver_is_listening s'" "wserver_fds s' = {#}" "wserver_services s' = {#}"
    "wserver_channel s' = 0" "wserver_pimpl s' = None \<longleftrightarrow> wserver_pimpl s = None"
    "live_socks m' = live_socks m - wserver_fds s" "live_services m' = live_services m - wserver_services s"
    "live_lookups m' = live_lookups m" "lookups_respected m' = lookups_respected m"
    "socks_respected m' \<longleftrightarrow> socks_respected m \<and> wserver_fds s \<subseteq># live_socks m"
proof -
  have "wserver_valid s' \<and> \<not> wserver_is_listening s' \<and> wserver_fds s' = {#} \<and> wserver_services s' = {#}
    \<and> wserver_channel s' = 0 \<and> (wserver_pimpl s' = None \<longleftrightarrow> wserver_pimpl s = None)
    \<and> live_socks m' = live_socks m - wserver_fds s \<and> live_services m' = live_services m - wserver_services s
    \<and> live_lookups m' = live_lookups m \<and> lookups_respected m' = lookups_respected m
    \<and> (socks_respected m' \<longleftrightarrow> socks_respected m \<and> wserver_fds s \<subseteq># live_socks m)"
  proof (cases "wserver_pimpl s")
    case None
    with assms show ?thesis by (auto simp: wserver_defs)
  next
    case (Some im)
    show ?thesis
    proof (cases "wsdp_reg im")
      case None
      with Some assms show ?thesis
        by (auto simp: wserver_defs win_close_socket_handle_def win_close_def split: if_splits)
    next
      case reg: (Some g)
      obtain g' m1 where u: "win_registration_unregister e g m = (g', m1)" by (metis prod.collapse)
      have "win_registration_unregister e g' m1 = (g', m1)"
        by (rule win_service.close_again [OF _ u]) simp
      then have d: "win_registration_destroy e g' m1 = m1" by (simp add: win_registration_destroy_unregister)
      have "live_services m1 = live_services m - win_services g"
        by (rule win_service.close_releases [OF _ u]) simp
      with Some reg u d win_unregister_io [OF u] assms show ?thesis
        by (auto simp: wserver_defs win_close_socket_handle_def win_close_def same_win_io_def split: if_splits)
    qed
  qed
  then show "wserver_valid s'" "\<not> wserver_is_listening s'" "wserver_fds s' = {#}" "wserver_services s' = {#}"
    "wserver_channel s' = 0" "wserver_pimpl s' = None \<longleftrightarrow> wserver_pimpl s = None"
    "live_socks m' = live_socks m - wserver_fds s" "live_services m' = live_services m - wserver_services s"
    "live_lookups m' = live_lookups m" "lookups_respected m' = lookups_respected m"
    "socks_respected m' \<longleftrightarrow> socks_respected m \<and> wserver_fds s \<subseteq># live_socks m"
    by blast+
qed

lemma wserver_close_idle: "wserver_valid s \<Longrightarrow> \<not> wserver_is_listening s \<Longrightarrow> wserver_close e s m = (s, m)"
  by (cases s) (auto simp: wserver_defs split: option.splits)

interpretation wserver_closable: closable wserver_close wserver_is_listening wserver_fds live_socks wserver_valid
  using wserver_close_effect wserver_close_idle by unfold_locales blast+

interpretation wserver_service_closable: closable wserver_close wserver_is_listening wserver_services
  live_services wserver_valid
  using wserver_close_effect wserver_close_idle by unfold_locales blast+

end
