(* ===== verification/Server_Win_Facts.thy ===== *)
theory Server_Win_Facts
  imports Server_Win "HOL-Library.Sublist"
begin

text \<open>
  Properties of the Windows server and client: what each of their paths leaves held, which port the
  server ends on, and the address a client connects to.
\<close>

section \<open>Calls on one socket\<close>

text \<open>Calls on the socket \<open>h\<close> that neither open nor close anything.\<close>

definition win_io :: "win_socket \<Rightarrow> 'w wmachine \<Rightarrow> 'w wmachine \<Rightarrow> bool" where
  "win_io h m m' \<longleftrightarrow> live_socks m' = live_socks m \<and> live_services m' = live_services m
     \<and> live_lookups m' = live_lookups m \<and> lookups_respected m' = lookups_respected m
     \<and> (h \<in># live_socks m \<longrightarrow> socks_respected m' = socks_respected m)"

lemma win_io_refl [simp]: "win_io h m m"
  by (simp add: win_io_def)

lemma win_io_trans: "win_io h m m' \<Longrightarrow> win_io h m' m'' \<Longrightarrow> win_io h m m''"
  by (simp add: win_io_def)

lemma win_io_calls:
  "win_setsockopt e h opt v m = (r, m') \<Longrightarrow> win_io h m m'"
  "win_bind e h a m = (r, m') \<Longrightarrow> win_io h m m'"
  "win_listen e h n m = (r, m') \<Longrightarrow> win_io h m m'"
  "win_connect e h a m = (r, m') \<Longrightarrow> win_io h m m'"
  "win_getsockname e h m = (x, m') \<Longrightarrow> win_io h m m'"
  by (auto simp: win_io_def win_defs split: prod.splits)

lemma win_io_ensure: "win_io h m (winsock_ensure e m)"
  by (simp add: win_io_def)

lemma win_io_set_buffer_sizes:
  "wsocket_set_buffer_sizes e s i j m = (r, m') \<Longrightarrow> win_io (wsocket_fd s) m m'"
  by (auto simp: wsocket_set_buffer_sizes_def Let_def split: if_splits prod.splits
      intro: win_io_calls(1) win_io_trans)

lemma wsocket_from_native_effect:
  assumes "wsocket_from_native e h a c m = (s, m')" "h \<noteq> INVALID_SOCKET"
  shows "win_io h m m' \<and> wsocket_is_open s \<and> wsocket_fd s = h \<and> wsocket_holds s = {#h#}
    \<and> (\<exists>im. wsocket_pimpl s = Some im \<and> wpeer_addr im = a \<and> wpeer_ch im = c)"
proof -
  let ?im = "wsocket_impl_default\<lparr>wsock_handle := h, wpeer_addr := a, wpeer_ch := c\<rparr>"
  obtain b m1 where b: "wsocket_set_buffer_sizes e (WSocketObj (Some ?im)) DEFAULT_BUFFER_SIZE DEFAULT_BUFFER_SIZE
      (winsock_ensure e m) = (b, m1)" by (metis prod.collapse)
  obtain r sa m2 where g: "win_getsockname e h m1 = ((r, sa), m2)" by (metis prod.collapse)
  have "win_io h (winsock_ensure e m) m1"
    using win_io_set_buffer_sizes [OF b] by (simp add: wsocket_fd_def)
  then have "win_io h m m2"
    using win_io_trans [OF win_io_trans [OF win_io_ensure] win_io_calls(5) [OF g]] by blast
  moreover have "m' = m2" "s = WSocketObj (Some (if r = 0 then ?im\<lparr>wlocal_ch := ucast (bth_port sa)\<rparr> else ?im))"
    using assms(1) b g by (auto simp: wsocket_from_native_def wsocket_new_def Let_def)
  ultimately show ?thesis using assms(2) by (auto simp: wsocket_defs)
qed

section \<open>Listening\<close>

text \<open>The calls of \<open>listen\<close> once the server is closed and a socket has been made.\<close>

lemma wemit_world_eq [simp]: "wemit ev w m = wemit ev w' m \<longleftrightarrow> w = w'"
  by (metis wemit_simps(2))

text \<open>
  \<open>bound_on e h ch c\<close>: after a bind of \<open>h\<close> to the channel asked for, \<open>getsockname\<close> reported a port whose
  low byte is \<open>c\<close>.
\<close>

definition bound_on :: "'w wenv \<Rightarrow> win_socket \<Rightarrow> u8 \<Rightarrow> u8 \<Rightarrow> bool" where
  "bound_on e h ch c \<longleftrightarrow> (\<exists>w w' sa w''. w_bind e h (bound_address ch) w = (0, w')
     \<and> w_getsockname e h w' = ((0, sa), w'') \<and> c = ucast (bth_port sa))"

text \<open>The same with the calls that were made in between, \<open>listen\<close> last.\<close>

definition listened_at :: "'w wenv \<Rightarrow> win_socket \<Rightarrow> u8 \<Rightarrow> int \<Rightarrow> u8 \<Rightarrow> wevent list \<Rightarrow> bool" where
  "listened_at e h ch n c tr \<longleftrightarrow> (\<exists>(mb :: 'w wmachine) w sa w'. w_bind e h (bound_address ch) (wworld mb) = (0, w)
     \<and> w_getsockname e h w = ((0, sa), w') \<and> c = ucast (bth_port sa)
     \<and> tr = wtrace mb @ [WBind h (bound_address ch) 0, WGetsockname h 0, WListen h n 0])"

lemma listened_at_bound: "listened_at e h ch n c tr \<Longrightarrow> bound_on e h ch c"
  by (auto simp: listened_at_def bound_on_def)

lemma wserver_listen_paths:
  assumes "wserver_close e srv m = (WServer (Some im), m0)" "wserver_pimpl srv \<noteq> None"
  obtains (no_socket) w where
      "wserver_listen e srv ch n m = ((Inr False, WServer (Some im)), wemit (WSocket INVALID_SOCKET) w m0)"
  | (failed) h w m1 where "h \<noteq> INVALID_SOCKET" "win_io h (wemit (WSocket h) w m0) m1"
      "wserver_listen e srv ch n m = ((Inr False, WServer (Some im)), win_close e h m1)"
  | (listens) h w c m3 where "h \<noteq> INVALID_SOCKET" "win_io h (wemit (WSocket h) w m0) m3"
      "listened_at e h ch n c (wtrace m3)"
      "wserver_listen e srv ch n m = ((Inr True, WServer (Some (im\<lparr>wlisten_fd := h, wsrv_channel := c\<rparr>))), m3)"
proof -
  obtain im' where im': "wserver_pimpl srv = Some im'" "wserver_impl_close e im' m = (im, m0)"
    using assms by (auto simp: wserver_close_def split: prod.splits)
  obtain h w where s: "win_socket_call e m0 = (h, wemit (WSocket h) w m0)"
    using win_socket_call_shape [of e m0] by blast
  let ?m1 = "wemit (WSocket h) w m0"
  obtain r1 ma where o1: "win_setsockopt e h SO_SNDBUF (WinInt DEFAULT_BUFFER_SIZE) ?m1 = (r1, ma)"
    by (metis prod.collapse)
  obtain r2 mb where o2: "win_setsockopt e h SO_RCVBUF (WinInt DEFAULT_BUFFER_SIZE) ma = (r2, mb)"
    by (metis prod.collapse)
  obtain r3 w3 where b: "win_bind e h (bound_address ch) mb = (r3, wemit (WBind h (bound_address ch) r3) w3 mb)"
    using win_bind_shape [of e h "bound_address ch" mb] by blast
  let ?mc = "wemit (WBind h (bound_address ch) r3) w3 mb"
  obtain r4 sa md where g: "win_getsockname e h ?mc = ((r4, sa), md)" by (metis prod.collapse)
  obtain r5 me where l: "win_listen e h n md = (r5, me)" by (metis prod.collapse)
  have io: "win_io h ?m1 mb"
    using win_io_trans [OF win_io_calls(1) [OF o1] win_io_calls(1) [OF o2]] .
  have io_c: "win_io h ?m1 ?mc" using win_io_trans [OF io win_io_calls(2) [OF b]] .
  have io_d: "win_io h ?m1 md" using win_io_trans [OF io_c win_io_calls(5) [OF g]] .
  have io_e: "win_io h ?m1 me" using win_io_trans [OF io_d win_io_calls(3) [OF l]] .
  note eval = wserver_listen_def im' s o1 o2 b
    win_close_socket_handle_def Let_def
  consider "h = INVALID_SOCKET" | "h \<noteq> INVALID_SOCKET" "r3 \<noteq> 0" | "h \<noteq> INVALID_SOCKET" "r3 = 0" "r4 \<noteq> 0"
    | "h \<noteq> INVALID_SOCKET" "r3 = 0" "r4 = 0" "r5 \<noteq> 0" | "h \<noteq> INVALID_SOCKET" "r3 = 0" "r4 = 0" "r5 = 0" by blast
  then show ?thesis
  proof cases
    case 1
    with no_socket show ?thesis by (auto simp: eval)
  next
    case 2
    with failed [OF _ io_c] show ?thesis by (auto simp: eval)
  next
    case 3
    with failed [OF _ io_d] show ?thesis by (auto simp: eval g [unfolded 3(2)])
  next
    case 4
    with failed [OF _ io_e] show ?thesis by (auto simp: eval g [unfolded 4(2)] l)
  next
    case 5
    have "listened_at e h ch n (ucast (bth_port sa)) (wtrace me)"
      unfolding listened_at_def
      by (rule exI [of _ mb], rule exI [of _ w3], rule exI [of _ sa], rule exI [of _ "wworld md"])
        (use 5 b g l in \<open>auto simp: win_bind_def win_getsockname_def win_listen_def split: prod.splits\<close>)
    then show ?thesis
      by (rule listens [of h w me "ucast (bth_port sa)", rotated 2])
        (use 5 io_e b g l in \<open>auto simp: eval g [unfolded 5(2)]\<close>)
  qed
qed

lemma wserver_listen_effect:
  assumes "wserver_close e srv m = (srv0, m0)" "wserver_pimpl srv \<noteq> None"
    and "wserver_listen e srv ch n m = ((res, srv'), m')"
  shows "wserver_valid srv' \<and> res = Inr (wserver_is_listening srv') \<and> wserver_services srv' = {#}
    \<and> wserver_pimpl srv' \<noteq> None
    \<and> live_socks m' = live_socks m0 + wserver_fds srv' \<and> live_services m' = live_services m0
    \<and> live_lookups m' = live_lookups m0 \<and> lookups_respected m' = lookups_respected m0
    \<and> socks_respected m' = socks_respected m0
    \<and> (wserver_is_listening srv' \<longrightarrow>
        (\<exists>h. wserver_fds srv' = {#h#} \<and> listened_at e h ch n (wserver_channel srv') (wtrace m')))"
proof -
  note c = wserver_close_effect [OF assms(1)]
  obtain im where im: "srv0 = WServer (Some im)" using c(6) assms(2) by (cases srv0) auto
  have closed: "wlisten_fd im = INVALID_SOCKET" "wsrv_channel im = 0" "wsdp_reg im = None"
    using c(1,2) im by (auto simp: wserver_defs)
  show ?thesis
    using assms(1) [unfolded im] assms(2)
  proof (cases rule: wserver_listen_paths [where ch = ch and n = n, case_names no_socket failed listens])
    case (no_socket w)
    with assms(3) closed show ?thesis by (auto simp: wserver_defs)
  next
    case (failed h w m1)
    then have "live_socks m1 = live_socks m0 + {#h#}" "socks_respected m1 = socks_respected m0"
      "live_services m1 = live_services m0" "live_lookups m1 = live_lookups m0"
      "lookups_respected m1 = lookups_respected m0"
      by (simp_all add: win_io_def)
    with failed(3) assms(3) closed show ?thesis by (auto simp: wserver_defs win_close_def)
  next
    case (listens h w c m3)
    then have "live_socks m3 = live_socks m0 + {#h#}" "socks_respected m3 = socks_respected m0"
      "live_services m3 = live_services m0" "live_lookups m3 = live_lookups m0"
      "lookups_respected m3 = lookups_respected m0"
      by (simp_all add: win_io_def)
    moreover have "srv' = WServer (Some (im\<lparr>wlisten_fd := h, wsrv_channel := c\<rparr>))" "res = Inr True" "m' = m3"
      using listens(4) assms(3) by simp_all
    ultimately show ?thesis using listens(1,3) closed by (auto simp: wserver_defs)
  qed
qed

text \<open>What a server may assume of the machine: that it owns what it holds.\<close>

definition wserver_owned :: "wserver \<Rightarrow> 'w wmachine \<Rightarrow> bool" where
  "wserver_owned s m \<longleftrightarrow> wserver_valid s \<and> socks_respected m \<and> wserver_fds s \<subseteq># live_socks m
     \<and> wserver_services s \<subseteq># live_services m"

lemma wserver_close_accounts:
  assumes "wserver_owned s m" "wserver_close e s m = (s', m')"
  shows "live_socks m = live_socks m' + wserver_fds s" "live_services m = live_services m' + wserver_services s"
    "socks_respected m'"
  using assms wserver_closable.close_accounts [OF _ _ assms(2)] wserver_service_closable.close_accounts [OF _ _ assms(2)]
    wserver_close_effect(11) [OF assms(2)]
  by (auto simp: wserver_owned_def)

text \<open>
  On Windows \<open>listen\<close> releases what the server held before and then either owns one new listening
  socket, with the low byte of the port that \<open>getsockname\<close> reported after the bind as its channel, or
  holds nothing: whichever of the calls failed, the new socket has been closed.
\<close>

theorem wserver_listen_correct:
  assumes "wserver_owned srv m" "wserver_pimpl srv \<noteq> None"
    and "wserver_listen e srv ch n m = ((res, srv'), m')"
  shows "res = Inr (wserver_is_listening srv') \<and> wserver_owned srv' m' \<and> wserver_services srv' = {#}
    \<and> live_socks m' + wserver_fds srv = live_socks m + wserver_fds srv'
    \<and> live_services m' + wserver_services srv = live_services m
    \<and> (wserver_is_listening srv' \<longrightarrow>
        (\<exists>h. wserver_fds srv' = {#h#} \<and> bound_on e h ch (wserver_channel srv')))"
proof -
  obtain srv0 m0 where c: "wserver_close e srv m = (srv0, m0)" by (metis prod.collapse)
  from wserver_listen_effect [OF c assms(2,3)] wserver_close_accounts [OF assms(1) c]
  show ?thesis by (auto simp: wserver_owned_def ac_simps dest: listened_at_bound)
qed

theorem wserver_listen_correct_witness:
  "let ((res, s), m) = wserver_listen win_sim (fst (wserver_new win_sim (wboot wsim_start))) 7 4
         (snd (wserver_new win_sim (wboot wsim_start)))
   in res = Inr True \<and> live_socks m = {#8#} \<and> wserver_channel s = 7"
proof -
  let ?n = "wserver_new win_sim (wboot wsim_start)"
  let ?r = "wserver_listen win_sim (fst ?n) 7 4 (snd ?n)"
  obtain res s m where r: "?r = ((res, s), m)" by (metis prod.collapse)
  have o: "wserver_owned (fst ?n) (snd ?n)" "wserver_pimpl (fst ?n) \<noteq> None" "wserver_fds (fst ?n) = {#}"
    "live_socks (snd ?n) = {#}"
    by (simp_all add: wserver_owned_def wserver_new_def wserver_defs)
  have v: "wserver_channel (snd (fst ?r)) = 7" "map_option wlisten_fd (wserver_pimpl (snd (fst ?r))) = Some 8"
    by code_simp+
  then have "wserver_is_listening s" "wserver_fds s = {#8#}"
    using r by (auto simp: wserver_is_listening_def wserver_fds_def INVALID_SOCKET_def)
  with wserver_listen_correct [OF o(1,2) r] r o v show ?thesis by simp
qed

section \<open>Publishing\<close>

text \<open>The call that publishes comes last, but for Winsock being started if it was not.\<close>

definition wpublished_at :: "'w wenv \<Rightarrow> win_socket \<Rightarrow> u8 \<Rightarrow> int \<Rightarrow> u8 \<Rightarrow> query_set \<Rightarrow> wevent list \<Rightarrow> bool" where
  "wpublished_at e h ch n c q tr \<longleftrightarrow> (\<exists>tr1 st. listened_at e h ch n c tr1 \<and> set st \<subseteq> {WStartup}
     \<and> tr = tr1 @ st @ [WSetService q RNRSERVICE_REGISTER 0])"

lemma wpublished_at_bound: "wpublished_at e h ch n c q tr \<Longrightarrow> bound_on e h ch c"
  by (auto simp: wpublished_at_def dest: listened_at_bound)

lemma ensure_trace: "\<exists>st. set st \<subseteq> {WStartup} \<and> wtrace (winsock_ensure e m) = wtrace m @ st"
  by (cases "wsa_up m") (auto simp: winsock_ensure_def)

lemma wserver_publish_effect:
  assumes "wserver_owned srv m" "wserver_pimpl srv \<noteq> None" "wserver_close e srv m = (srv0, m0)"
    and "wserver_listen_with_sdp e srv u name ch n m = ((res, srv'), m')"
  shows "res = Inr (wserver_is_listening srv') \<and> wserver_owned srv' m' \<and> wserver_pimpl srv' \<noteq> None
    \<and> live_socks m' + wserver_fds srv = live_socks m + wserver_fds srv'
    \<and> live_services m' + wserver_services srv = live_services m + wserver_services srv'
    \<and> wserver_services srv' =
        (if wserver_is_listening srv' then {#service_query (wserver_channel srv') u name#} else {#})
    \<and> (wserver_is_listening srv' \<longrightarrow> (\<exists>h. wserver_fds srv' = {#h#} \<and>
         wpublished_at e h ch n (wserver_channel srv') (service_query (wserver_channel srv') u name) (wtrace m')))"
proof -
  obtain r1 srv1 m1 where l: "wserver_listen e srv ch n m = ((r1, srv1), m1)" by (metis prod.collapse)
  note acc = wserver_close_accounts [OF assms(1,3)] and eff = wserver_listen_effect [OF assms(3,2) l]
  show ?thesis
  proof (cases "wserver_is_listening srv1")
    case False
    then have "res = Inr False" "srv' = srv1" "m' = m1"
      using assms(4) l eff by (auto simp: wserver_listen_with_sdp_def)
    with False acc eff show ?thesis by (auto simp: wserver_owned_def ac_simps)
  next
    case True
    obtain im where im: "srv1 = WServer (Some im)" using eff by (cases srv1) auto
    have fd: "wlisten_fd im \<noteq> INVALID_SOCKET" using True im by (simp add: wserver_is_listening_def)
    obtain g m2 where g: "win_registration_create e (wsrv_channel im) u name default_provider m1 = (g, m2)"
      by (metis prod.collapse)
    show ?thesis
      using g
    proof (cases rule: win_create_cases)
      case (published r w)
      then have "srv' = WServer (Some (im\<lparr>wsdp_reg := Some r\<rparr>))" "res = Inr True" "m' = m2"
        using assms(4) l eff True im g by (auto simp: wserver_listen_with_sdp_def)
      moreover have "wpublished_at e (wlisten_fd im) ch n (wsrv_channel im) (service_query (wsrv_channel im) u name) (wtrace m2)"
      proof -
        have "listened_at e (wlisten_fd im) ch n (wsrv_channel im) (wtrace m1)"
          using eff True im fd by (auto simp: wserver_fds_def wserver_channel_def)
        moreover obtain st where "set st \<subseteq> {WStartup}" "wtrace (winsock_ensure e m1) = wtrace m1 @ st"
          using ensure_trace by blast
        ultimately show ?thesis using published(4) by (auto simp: wpublished_at_def)
      qed
      ultimately show ?thesis
        using published fd acc eff im by (auto simp: wserver_owned_def wserver_defs ac_simps)
    next
      case (refused x w)
      then have r: "res = Inr False" "wserver_close e (WServer (Some (im\<lparr>wsdp_reg := None\<rparr>))) m2 = (srv', m')"
        using assms(4) l eff True im g
        by (auto simp: wserver_listen_with_sdp_def wserver_close_def split: prod.splits)
      have h: "wserver_fds (WServer (Some (im\<lparr>wsdp_reg := None\<rparr>))) = wserver_fds srv1"
        "wserver_services (WServer (Some (im\<lparr>wsdp_reg := None\<rparr>))) = {#}"
        using im by (simp_all add: wserver_defs)
      note led = wserver_close_effect [OF r(2), unfolded h]
      show ?thesis using led refused r acc eff by (auto simp: wserver_owned_def ac_simps)
    qed
  qed
qed

text \<open>
  C38. On Windows \<open>listen_with_sdp\<close> is all or nothing. When it answers \<open>true\<close>, the one socket the server owns was bound to
  the channel asked for, or to any port when none was asked for, the channel is the low byte of the port that
  \<open>getsockname\<close> then reported, the socket was put to listen, and last one service was published under that
  channel, with the name and the UUID; when it answers \<open>false\<close> nothing is held.
\<close>

theorem wserver_listen_with_sdp_correct:
  fixes m :: "'w wmachine"
  assumes "wserver_owned srv m" "wserver_pimpl srv \<noteq> None"
    and "wserver_listen_with_sdp e srv u name ch n m = ((res, srv'), m')"
  shows "res = Inr (wserver_is_listening srv') \<and> wserver_owned srv' m'
    \<and> live_socks m' + wserver_fds srv = live_socks m + wserver_fds srv'
    \<and> live_services m' + wserver_services srv = live_services m + wserver_services srv'
    \<and> (if wserver_is_listening srv' then \<exists>(mb :: 'w wmachine) h w sa w' st q.
         let bound = \<lparr>bth_family = AF_BTH, bth_addr = 0, bth_port = if ch = 0 then 0xFFFFFFFF else ucast ch\<rparr>
         in wserver_fds srv' = {#h#} \<and> w_bind e h bound (wworld mb) = (0, w) \<and> w_getsockname e h w = ((0, sa), w')
           \<and> wserver_channel srv' = ucast (bth_port sa)
           \<and> set st \<subseteq> {WStartup} \<and> wtrace m' = wtrace mb @ [WBind h bound 0, WGetsockname h 0, WListen h n 0] @ st @
               [WSetService q RNRSERVICE_REGISTER 0]
           \<and> wserver_services srv' = {#q#} \<and> instance_name q = Some (widen name) \<and> class_id q = Some (uuid_to_guid u)
           \<and> csa_count q = 1 \<and> csa_buffer q = Some \<lparr>local_sa = Some \<lparr>bth_family = AF_BTH, bth_addr = 0,
               bth_port = ucast (wserver_channel srv')\<rparr>, remote_sa = None\<rparr>
       else wserver_fds srv' = {#} \<and> wserver_services srv' = {#})"
proof -
  obtain srv0 m0 where c: "wserver_close e srv m = (srv0, m0)" by (metis prod.collapse)
  note eff = wserver_publish_effect [OF assms(1,2) c assms(3)]
  show ?thesis
  proof (cases "wserver_is_listening srv'")
    case False
    with eff show ?thesis by (auto simp: wserver_fds_def wserver_is_listening_def split: option.splits)
  next
    case True
    then obtain h tr1 st where h: "wserver_fds srv' = {#h#}" "listened_at e h ch n (wserver_channel srv') tr1"
      "set st \<subseteq> {WStartup}"
      "wtrace m' = tr1 @ st @ [WSetService (service_query (wserver_channel srv') u name) RNRSERVICE_REGISTER 0]"
      using eff by (auto simp: wpublished_at_def)
    let ?b = "\<lparr>bth_family = AF_BTH, bth_addr = 0, bth_port = if ch = 0 then 0xFFFFFFFF else ucast ch\<rparr>"
    have bound: "bound_address ch = ?b" by (simp add: bound_address_def sockaddr_bth_zero_def BT_PORT_ANY_def)
    obtain mb :: "'w wmachine" and w sa w' where b: "w_bind e h ?b (wworld mb) = (0, w)"
      "tr1 = wtrace mb @ [WBind h ?b 0, WGetsockname h 0, WListen h n 0]"
      "w_getsockname e h w = ((0, sa), w')" "wserver_channel srv' = ucast (bth_port sa)"
      using h(2) unfolding listened_at_def bound by blast
    let ?q = "service_query (wserver_channel srv') u name"
    have "instance_name ?q = Some (widen name)" "class_id ?q = Some (uuid_to_guid u)" "csa_count ?q = 1"
      "csa_buffer ?q = Some \<lparr>local_sa = Some \<lparr>bth_family = AF_BTH, bth_addr = 0,
         bth_port = ucast (wserver_channel srv')\<rparr>, remote_sa = None\<rparr>"
      by (simp_all add: service_query_def query_zero_def sockaddr_bth_zero_def)
    with True eff h b show ?thesis
      unfolding if_P [OF True] Let_def
      by (intro conjI exI [of _ mb] exI [of _ h] exI [of _ w] exI [of _ sa] exI [of _ w'] exI [of _ st] exI [of _ ?q]) simp_all
  qed
qed

theorem wserver_listen_with_sdp_correct_witness:
  "let ((res, s), m) = wserver_listen_with_sdp win_sim (fst (wserver_new win_sim (wboot wsim_start)))
         uuid_serial_port ''A'' 0 4 (snd (wserver_new win_sim (wboot wsim_start)))
   in res = Inr True \<and> wserver_channel s = 5 \<and> (\<exists>q. live_services m = {#q#} \<and> instance_name q = Some [65]
     \<and> csa_buffer q = Some \<lparr>local_sa = Some \<lparr>bth_family = AF_BTH, bth_addr = 0, bth_port = 5\<rparr>, remote_sa = None\<rparr>)"
proof -
  let ?n = "wserver_new win_sim (wboot wsim_start)"
  let ?r = "wserver_listen_with_sdp win_sim (fst ?n) uuid_serial_port ''A'' 0 4 (snd ?n)"
  obtain res s m where r: "?r = ((res, s), m)" by (metis prod.collapse)
  have o: "wserver_owned (fst ?n) (snd ?n)" "wserver_pimpl (fst ?n) \<noteq> None" "wserver_services (fst ?n) = {#}"
    "live_services (snd ?n) = {#}"
    by (simp_all add: wserver_owned_def wserver_new_def wserver_defs)
  have "wserver_channel (snd (fst ?r)) = 5" "wserver_is_listening (snd (fst ?r))" "widen ''A'' = [65]" by code_simp+
  with wserver_listen_with_sdp_correct [OF o(1,2) r] r o show ?thesis by (auto simp: Let_def)
qed

section \<open>Accepting and connecting\<close>

lemma wserver_accept_effect:
  assumes "wserver_owned srv m" "wserver_accept e srv m = (res, m')"
  shows "live_services m' = live_services m \<and> socks_respected m'
    \<and> (case res of None \<Rightarrow> live_socks m' = live_socks m
       | Some s \<Rightarrow> wsocket_is_open s \<and> live_socks m' = live_socks m + wsocket_holds s)"
proof (cases "wserver_is_listening srv")
  case False
  with assms show ?thesis
    by (auto simp: wserver_accept_def wserver_owned_def split: option.splits)
next
  case True
  then obtain im where im: "srv = WServer (Some im)" "wlisten_fd im \<noteq> INVALID_SOCKET"
    by (cases srv) (auto simp: wserver_is_listening_def split: option.splits)
  obtain h a w where k: "win_accept e (wlisten_fd im) m = ((h, a), wemit (WAccept (wlisten_fd im) h) w m)"
    using win_accept_shape [of e "wlisten_fd im" m] by blast
  let ?m = "wemit (WAccept (wlisten_fd im) h) w m"
  have held: "wlisten_fd im \<in># live_socks m" "socks_respected m"
    using assms(1) im by (auto simp: wserver_owned_def wserver_defs single_subset_iff)
  show ?thesis
  proof (cases "h = INVALID_SOCKET")
    case inv: True
    with assms(2) True im k held show ?thesis
      by (auto simp: wserver_accept_def single_subset_iff)
  next
    case False
    obtain s m1 where f: "wsocket_from_native e h (bth_to_address (bth_addr a)) (ucast (bth_port a)) ?m = (s, m1)"
      by (metis prod.collapse)
    note eff = wsocket_from_native_effect [OF f False]
    have "res = Some s" "m' = m1" using assms(2) True im k f False by (auto simp: wserver_accept_def)
    with eff held False show ?thesis by (auto simp: win_io_def single_subset_iff)
  qed
qed

definition remote_bth :: "address \<Rightarrow> u8 \<Rightarrow> sockaddr_bth" where
  "remote_bth addr channel = sockaddr_bth_zero\<lparr>bth_family := AF_BTH, bth_addr := address_to_bth addr,
     bth_port := ucast channel\<rparr>"

lemma win_calls_append:
  "win_socket_call e m = (h, m') \<Longrightarrow> prefix (wtrace m) (wtrace m')"
  "win_setsockopt e h opt v m = (r, m') \<Longrightarrow> prefix (wtrace m) (wtrace m')"
  "win_getsockname e h m = (x, m') \<Longrightarrow> prefix (wtrace m) (wtrace m')"
  "prefix (wtrace m) (wtrace (winsock_ensure e m))"
  by (auto simp: win_defs winsock_ensure_def split: prod.splits)

lemma set_buffer_sizes_appends:
  "wsocket_set_buffer_sizes e s i j m = (r, m') \<Longrightarrow> prefix (wtrace m) (wtrace m')"
  by (auto simp: wsocket_set_buffer_sizes_def Let_def split: if_splits prod.splits
      intro: win_calls_append prefix_order.trans)

lemma from_native_appends:
  assumes "wsocket_from_native e h a c m = (s, m')"
  shows "prefix (wtrace m) (wtrace m')"
proof -
  let ?im = "wsocket_impl_default\<lparr>wsock_handle := h, wpeer_addr := a, wpeer_ch := c\<rparr>"
  obtain b m1 where b: "wsocket_set_buffer_sizes e (WSocketObj (Some ?im)) DEFAULT_BUFFER_SIZE DEFAULT_BUFFER_SIZE
      (winsock_ensure e m) = (b, m1)" by (metis prod.collapse)
  obtain r m2 where g: "win_getsockname e h m1 = (r, m2)" by (metis prod.collapse)
  have "m' = m2"
    using assms b g by (auto simp: wsocket_from_native_def wsocket_new_def Let_def split: prod.splits)
  with win_calls_append(4) [of m e] set_buffer_sizes_appends [OF b] win_calls_append(3) [OF g]
  show ?thesis by (blast intro: prefix_order.trans)
qed

lemma win_client_connect_effect:
  assumes "win_client_connect e a c t m = (res, m')"
  shows "live_services m' = live_services m \<and> socks_respected m' = socks_respected m
    \<and> live_lookups m' = live_lookups m \<and> lookups_respected m' = lookups_respected m
    \<and> (case res of None \<Rightarrow> live_socks m' = live_socks m
       | Some s \<Rightarrow> wsocket_is_open s \<and> live_socks m' = live_socks m + wsocket_holds s
           \<and> (\<exists>im mid post. wsocket_pimpl s = Some im \<and> wpeer_addr im = a \<and> wpeer_ch im = c
                \<and> wtrace m' = wtrace m @ mid @ WConnect (wsocket_fd s) (remote_bth a c) 0 # post))"
proof -
  obtain h w where s: "win_socket_call e (winsock_ensure e m) = (h, wemit (WSocket h) w (winsock_ensure e m))"
    using win_socket_call_shape [of e "winsock_ensure e m"] by blast
  let ?m1 = "wemit (WSocket h) w (winsock_ensure e m)"
  obtain r1 ma where o1: "win_setsockopt e h SO_SNDBUF (WinInt DEFAULT_BUFFER_SIZE) ?m1 = (r1, ma)"
    by (metis prod.collapse)
  obtain r2 mb where o2: "win_setsockopt e h SO_RCVBUF (WinInt DEFAULT_BUFFER_SIZE) ma = (r2, mb)"
    by (metis prod.collapse)
  obtain r3 mc where o3: "win_setsockopt e h SO_SNDTIMEO (dword_of_ms t) mb = (r3, mc)" by (metis prod.collapse)
  obtain r4 md where o4: "win_setsockopt e h SO_RCVTIMEO (dword_of_ms t) mc = (r4, md)" by (metis prod.collapse)
  let ?me = "if 0 < t then md else mb"
  obtain r mf where k: "win_connect e h (remote_bth a c) ?me = (r, mf)" by (metis prod.collapse)
  have "win_io h ?m1 mb" "win_io h mb md"
    using win_io_calls(1) o1 o2 o3 o4 by (blast intro: win_io_trans)+
  then have "win_io h ?m1 ?me" by (auto intro: win_io_trans)
  then have io: "win_io h ?m1 mf" using win_io_calls(4) [OF k] by (rule win_io_trans)
  note eval = win_client_connect_def s o1 o2 o3 o4 Let_def
  consider "h = INVALID_SOCKET" | "h \<noteq> INVALID_SOCKET" "r \<noteq> 0" | "h \<noteq> INVALID_SOCKET" "r = 0" by blast
  then show ?thesis
  proof cases
    case 1
    with assms show ?thesis by (auto simp: eval)
  next
    case 2
    then have "res = None" "m' = win_close e h mf"
      using assms k by (auto simp: eval win_close_socket_handle_def remote_bth_def split: if_splits)
    with 2 io show ?thesis by (simp add: win_io_def win_close_def)
  next
    case 3
    obtain sock m3 where f: "wsocket_from_native e h a c mf = (sock, m3)" by (metis prod.collapse)
    note eff = wsocket_from_native_effect [OF f 3(1)]
    have "res = Some sock" "m' = m3"
      using assms k f 3 by (auto simp: eval remote_bth_def split: if_splits)
    moreover have "win_io h ?m1 m3" using io eff by (blast intro: win_io_trans)
    moreover have "\<exists>mid post. wtrace m3 = wtrace m @ mid @ WConnect h (remote_bth a c) 0 # post"
    proof -
      have "prefix (wtrace m) (wtrace mb)" "prefix (wtrace mb) (wtrace md)"
        using win_calls_append(4) [of m e] win_calls_append(1) [OF s] win_calls_append(2) [OF o1] win_calls_append(2) [OF o2]
          win_calls_append(2) [OF o3] win_calls_append(2) [OF o4]
        by (blast intro: prefix_order.trans)+
      then have "prefix (wtrace m) (wtrace ?me)" by (auto intro: prefix_order.trans)
      moreover have "wtrace mf = wtrace ?me @ [WConnect h (remote_bth a c) 0]"
        using k 3(2) by (auto simp: win_connect_def split: prod.splits)
      ultimately show ?thesis using from_native_appends [OF f] by (force simp: prefix_def)
    qed
    ultimately show ?thesis using eff 3 by (auto simp: win_io_def)
  qed
qed

text \<open>
  C39. On Windows \<open>connect_by_sdp\<close> ends every lookup it begins. A socket it returns owns the one new handle, and after
  the lookup that handle was connected to the requested device, whose 48-bit address is that of the six bytes,
  on the channel the lookup found; otherwise it returns nothing and holds nothing.
\<close>

theorem win_client_connect_by_sdp_correct:
  assumes "win_client_connect_by_sdp e a u t m = (res, m')"
  shows "live_lookups m' = live_lookups m \<and> lookups_respected m' = lookups_respected m
    \<and> socks_respected m' = socks_respected m
    \<and> (case res of None \<Rightarrow> live_socks m' = live_socks m
       | Some s \<Rightarrow> wsocket_is_open s \<and> live_socks m' = live_socks m + wsocket_holds s
           \<and> (\<exists>im c mid post. wsocket_pimpl s = Some im \<and> wpeer_addr im = a \<and> wpeer_ch im = c
                \<and> fst (win_resolve_channel e a u m) = Some c
                \<and> wtrace m' = wtrace (snd (win_resolve_channel e a u m)) @ mid @ WConnect (wsocket_fd s)
                    \<lparr>bth_family = AF_BTH, bth_addr = word_of_nat (be_value (address_bytes a)), bth_port = ucast c\<rparr> 0 # post))"
proof -
  obtain f m1 where f: "win_resolve_channel e a u m = (f, m1)" by (metis prod.collapse)
  note led = win_resolve_ledger [OF f]
  show ?thesis
  proof (cases f)
    case None
    with assms f led show ?thesis by (auto simp: win_client_connect_by_sdp_def)
  next
    case (Some ch)
    then have k: "win_client_connect e a ch t m1 = (res, m')"
      using assms f by (simp add: win_client_connect_by_sdp_def)
    have "remote_bth a ch =
        \<lparr>bth_family = AF_BTH, bth_addr = word_of_nat (be_value (address_bytes a)), bth_port = ucast ch\<rparr>"
      by (simp add: remote_bth_def sockaddr_bth_zero_def address_to_bth_value)
    with win_client_connect_effect [OF k] led Some show ?thesis by (cases res) (auto simp: f)
  qed
qed

theorem win_client_connect_by_sdp_correct_witness:
  "case win_client_connect_by_sdp win_sim address_any uuid_serial_port 0 (wboot (wsim_start\<lparr>ws_answer := wsim_offer 9\<rparr>)) of
     (None, _) \<Rightarrow> False | (Some s, m) \<Rightarrow> live_socks m = {#8#} \<and> live_lookups m = {#}"
proof -
  let ?r = "win_client_connect_by_sdp win_sim address_any uuid_serial_port 0
      (wboot (wsim_start\<lparr>ws_answer := wsim_offer 9\<rparr>))"
  obtain res m where r: "?r = (res, m)" by (metis prod.collapse)
  have "map_option wsocket_fd (fst ?r) = Some 8" by code_simp
  with r obtain s where "res = Some s" "wsocket_fd s = 8" by auto
  with win_client_connect_by_sdp_correct [OF r] r show ?thesis by (simp add: wsocket_holds_def)
qed

end
