(* ===== verification/Win_Frame.thy ===== *)
theory Win_Frame
  imports Server_Win_Facts
begin

text \<open>
  What the calls of the Windows build keep: once started, Winsock is not started again, no lookup is left open,
  and the methods of a socket make calls on its own handle only.
\<close>

section \<open>Winsock is started first\<close>

text \<open>What every call but a lookup keeps: once started, Winsock is not started again, and no lookup is open.\<close>

definition win_frame :: "'w wmachine \<Rightarrow> 'w wmachine \<Rightarrow> bool" where
  "win_frame m m' \<longleftrightarrow> (wsa_up m \<and> started_first m \<longrightarrow> wsa_up m' \<and> started_first m')
     \<and> live_lookups m' = live_lookups m \<and> lookups_respected m' = lookups_respected m"

named_theorems started_facts \<open>calls keep Winsock started\<close>

lemma win_frame_refl [simp, intro]: "win_frame m m"
  by (simp add: win_frame_def)

lemma win_frame_trans: "win_frame m m' \<Longrightarrow> win_frame m' m'' \<Longrightarrow> win_frame m m''"
  by (simp add: win_frame_def)

lemma win_frame_emit:
  "ev \<noteq> WStartup \<Longrightarrow> lookup_acquired ev = {#} \<Longrightarrow> lookup_released ev = {#} \<Longrightarrow> lookup_used ev = {#} \<Longrightarrow>
     win_frame m (wemit ev w m)"
  by (simp add: win_frame_def started_emit)

lemma win_frame_ensure: "win_frame m (winsock_ensure e m)"
  by (simp add: win_frame_def)

lemma started_calls [started_facts]:
  "win_socket_call e m = (h, m') \<Longrightarrow> win_frame m m'"
  "win_setsockopt e h opt v m = (r, m') \<Longrightarrow> win_frame m m'"
  "win_bind e h a m = (r, m') \<Longrightarrow> win_frame m m'"
  "win_listen e h n m = (r, m') \<Longrightarrow> win_frame m m'"
  "win_accept e h m = (x, m') \<Longrightarrow> win_frame m m'"
  "win_connect e h a m = (r, m') \<Longrightarrow> win_frame m m'"
  "win_getsockname e h m = (y, m') \<Longrightarrow> win_frame m m'"
  "win_send e h d k m = (r, m') \<Longrightarrow> win_frame m m'"
  "win_recv e h k m = (z, m') \<Longrightarrow> win_frame m m'"
  "win_fionbio e h md m = (r, m') \<Longrightarrow> win_frame m m'"
  "win_fionread e h m = (u, m') \<Longrightarrow> win_frame m m'"
  "win_now e m = (r, m') \<Longrightarrow> win_frame m m'"
  "wsa_set_service e q op m = (r, m') \<Longrightarrow> win_frame m m'"
  by (auto simp: win_defs intro: win_frame_emit split: prod.splits)

lemma started_close: "win_frame m (win_close_socket_handle e h m)" "win_frame m (win_close e h m)"
  by (simp_all add: win_close_socket_handle_def win_close_def win_frame_emit)

section \<open>Calls on one socket\<close>

text \<open>Whatever a method of a socket does, it does on the socket's own handle; nothing when it is closed.\<close>

definition win_via :: "wsocket \<Rightarrow> 'w wmachine \<Rightarrow> 'w wmachine \<Rightarrow> bool" where
  "win_via s m m' \<longleftrightarrow>
     (if wsocket_is_open s then win_io (wsocket_fd s) m m' \<and> win_frame m m' else m' = m)"

named_theorems win_via_facts \<open>the methods of a Windows socket stay on its handle\<close>

lemma win_via_refl [simp, intro]: "win_via s m m"
  by (simp add: win_via_def)

lemma win_via_trans: "win_via s m m' \<Longrightarrow> win_via s m' m'' \<Longrightarrow> win_via s m m''"
  by (auto simp: win_via_def intro: win_io_trans win_frame_trans split: if_splits)

lemma win_io_transfers:
  "win_send e h d k m = (r, m') \<Longrightarrow> win_io h m m'"
  "win_recv e h k m = (x, m') \<Longrightarrow> win_io h m m'"
  "win_fionbio e h md m = (r, m') \<Longrightarrow> win_io h m m'"
  "win_fionread e h m = (u, m') \<Longrightarrow> win_io h m m'"
  "win_now e m = (r, m') \<Longrightarrow> win_io h m m'"
  by (auto simp: win_io_def win_defs split: prod.splits)

lemma win_via_send [win_via_facts]: "wsocket_send e s d m = (r, m') \<Longrightarrow> win_via s m m'"
  by (auto simp: wsocket_send_def win_via_def intro: win_io_transfers started_facts split: if_splits prod.splits)

lemma win_via_recv [win_via_facts]: "wsocket_recv e s b m = (x, m') \<Longrightarrow> win_via s m m'"
  by (auto simp: wsocket_recv_def win_via_def intro: win_io_transfers started_facts split: if_splits prod.splits)

lemma win_via_send_all_loop: "wsocket_send_all_loop e s d n m = (r, m') \<Longrightarrow> win_via s m m'"
proof (induction e s d n m rule: wsocket_send_all_loop.induct)
  case (1 e s d n m)
  obtain q m1 where q: "wsocket_send e s (drop n d) m = (q, m1)" by (metis prod.collapse)
  show ?case
  proof (cases "n < length d \<and> 0 < q")
    case True
    then have "win_via s m1 m'"
      using "1.prems" q "1.IH" [OF _ q [symmetric] refl]
      by (simp add: wsocket_send_all_loop.simps [of e s d n m])
    with win_via_send [OF q] show ?thesis by (rule win_via_trans)
  next
    case False
    with "1.prems" q win_via_send [OF q] show ?thesis
      by (auto simp: wsocket_send_all_loop.simps [of e s d n m] split: if_splits)
  qed
qed

lemma win_via_recv_all_loop: "wsocket_recv_all_loop e s b n m = (r, m') \<Longrightarrow> win_via s m m'"
proof (induction e s b n m rule: wsocket_recv_all_loop.induct)
  case (1 e s b n m)
  obtain q c m1 where q: "wsocket_recv e s (drop n b) m = ((q, c), m1)" by (metis prod.collapse)
  show ?case
  proof (cases "n < length b \<and> 0 < q")
    case True
    then have "win_via s m1 m'"
      using "1.prems" q "1.IH" [OF _ q [symmetric] refl refl]
      by (simp add: wsocket_recv_all_loop.simps [of e s b n m])
    with win_via_recv [OF q] show ?thesis by (rule win_via_trans)
  next
    case False
    with "1.prems" q win_via_recv [OF q] show ?thesis
      by (auto simp: wsocket_recv_all_loop.simps [of e s b n m] split: if_splits)
  qed
qed

lemma win_via_transfers [win_via_facts]:
  "wsocket_send_all e s d m = (ok, m') \<Longrightarrow> win_via s m m'"
  "wsocket_recv_all e s b m = (x, m') \<Longrightarrow> win_via s m m'"
  by (auto simp: wsocket_send_all_def wsocket_recv_all_def intro: win_via_send_all_loop win_via_recv_all_loop)

lemma win_via_recv_some [win_via_facts]: "wsocket_recv_some e s n m = (bs, m') \<Longrightarrow> win_via s m m'"
  by (auto simp: wsocket_recv_some_def intro: win_via_recv split: prod.splits if_splits)

lemma win_via_options [win_via_facts]:
  "wsocket_set_buffer_sizes e s i j m = (ok, m') \<Longrightarrow> win_via s m m'"
  "wsocket_set_timeouts e s i j m = (ok, m') \<Longrightarrow> win_via s m m'"
  "wsocket_set_blocking e s b m = (ok, m') \<Longrightarrow> win_via s m m'"
  by (auto simp: wsocket_set_buffer_sizes_def wsocket_set_timeouts_def wsocket_set_blocking_def win_via_def Let_def
      intro: win_io_transfers win_io_calls started_facts win_io_trans win_frame_trans split: if_splits prod.splits)

section \<open>The larger calls keep Winsock started\<close>

lemma started_from_native [started_facts]:
  assumes "wsocket_from_native e h a c m = (s, m')"
  shows "win_frame m m'"
proof -
  let ?im = "wsocket_impl_default\<lparr>wsock_handle := h, wpeer_addr := a, wpeer_ch := c\<rparr>"
  obtain b m1 where b: "wsocket_set_buffer_sizes e (WSocketObj (Some ?im)) DEFAULT_BUFFER_SIZE DEFAULT_BUFFER_SIZE
      (winsock_ensure e m) = (b, m1)" by (metis prod.collapse)
  obtain r sa m2 where g: "win_getsockname e h m1 = ((r, sa), m2)" by (metis prod.collapse)
  have "win_frame (winsock_ensure e m) m1"
    using win_via_options(1) [OF b] by (auto simp: win_via_def split: if_splits)
  moreover have "m' = m2" using assms b g by (auto simp: wsocket_from_native_def wsocket_new_def Let_def)
  ultimately show ?thesis
    using win_frame_ensure [of m e] started_calls(7) [OF g] by (blast intro: win_frame_trans)
qed

lemma started_unregister [started_facts]: "win_registration_unregister e g m = (g', m') \<Longrightarrow> win_frame m m'"
  by (auto simp: win_registration_unregister_def win_registration_impl_unregister_def intro: started_facts
      split: option.splits if_splits prod.splits)

lemma started_create [started_facts]:
  assumes "win_registration_create e ch u name prov m = (res, m')"
  shows "win_frame m m'"
  using assms
  by (cases rule: win_create_cases)
    (auto intro: win_frame_trans [OF win_frame_ensure win_frame_emit])

lemma started_server_close [started_facts]:
  assumes "wserver_close e v m = (v', m')"
  shows "win_frame m m'"
proof (cases "wserver_pimpl v")
  case (Some im)
  show ?thesis
  proof (cases "wsdp_reg im")
    case None
    with Some assms show ?thesis
      by (auto simp: wserver_close_def wserver_impl_close_def intro: started_close split: if_splits)
  next
    case reg: (Some g)
    obtain g' m1 where u: "win_registration_unregister e g m = (g', m1)" by (metis prod.collapse)
    have "win_registration_unregister e g' m1 = (g', m1)" by (rule win_service.close_again [OF _ u]) simp
    then have "win_registration_destroy e g' m1 = m1" by (simp add: win_registration_destroy_unregister)
    with Some reg u assms show ?thesis
      using win_frame_trans [OF started_unregister [OF u] started_close(1)] started_unregister [OF u]
      by (auto simp: wserver_close_def wserver_impl_close_def split: if_splits)
  qed
qed (use assms in \<open>simp add: wserver_close_def\<close>)

lemma wserver_destroy_close: "wserver_destroy e v m = snd (wserver_close e v m)"
  by (auto simp: wserver_destroy_def wserver_close_def split: option.splits prod.splits)

lemma started_listen [started_facts]:
  assumes "wserver_listen e v ch n m = (x, m')"
  shows "win_frame m m'"
proof (cases "wserver_pimpl v")
  case (Some im0)
  obtain im m0 where c: "wserver_impl_close e im0 m = (im, m0)" by (metis prod.collapse)
  have st: "win_frame m m0" using started_server_close [of e v m] Some c by (simp add: wserver_close_def)
  obtain h m1 where s: "win_socket_call e m0 = (h, m1)" by (metis prod.collapse)
  obtain r1 m2 where o1: "win_setsockopt e h SO_SNDBUF (WinInt DEFAULT_BUFFER_SIZE) m1 = (r1, m2)" by (metis prod.collapse)
  obtain r2 m3 where o2: "win_setsockopt e h SO_RCVBUF (WinInt DEFAULT_BUFFER_SIZE) m2 = (r2, m3)" by (metis prod.collapse)
  obtain r3 m4 where b: "win_bind e h (bound_address ch) m3 = (r3, m4)" by (metis prod.collapse)
  obtain r4 sa m5 where g: "win_getsockname e h m4 = ((r4, sa), m5)" by (metis prod.collapse)
  obtain r5 m6 where l: "win_listen e h n m5 = (r5, m6)" by (metis prod.collapse)
  have k1: "win_frame m m1" using st started_calls(1) [OF s] by (rule win_frame_trans)
  have k3: "win_frame m m3"
    using k1 started_calls(2) [OF o1] started_calls(2) [OF o2] by (blast intro: win_frame_trans)
  have k4: "win_frame m m4" using k3 started_calls(3) [OF b] by (rule win_frame_trans)
  have k5: "win_frame m m5" using k4 started_calls(7) [OF g] by (rule win_frame_trans)
  have k6: "win_frame m m6" using k5 started_calls(4) [OF l] by (rule win_frame_trans)
  have "m' \<in> {m1, win_close_socket_handle e h m4, win_close_socket_handle e h m5, win_close_socket_handle e h m6, m6}"
    using assms Some c s o1 o2 b g l by (auto simp: wserver_listen_def Let_def split: if_splits)
  then show ?thesis
    using k1 k4 k5 k6 started_close(1) by (auto intro: win_frame_trans)
qed (use assms in \<open>simp add: wserver_listen_def\<close>)

lemma started_listen_with_sdp [started_facts]:
  assumes "wserver_listen_with_sdp e v u name ch n m = (x, m')"
  shows "win_frame m m'"
proof -
  obtain res v1 m1 where l: "wserver_listen e v ch n m = ((res, v1), m1)" by (metis prod.collapse)
  note k1 = started_listen [OF l]
  show ?thesis
  proof (cases "res = Inr True \<and> wserver_pimpl v1 \<noteq> None")
    case True
    then obtain im where im: "wserver_pimpl v1 = Some im" by blast
    obtain reg m2 where c: "win_registration_create e (wsrv_channel im) u name default_provider m1 = (reg, m2)"
      by (metis prod.collapse)
    note k2 = win_frame_trans [OF k1 started_create [OF c]]
    obtain im' m3 where cl: "wserver_impl_close e (im\<lparr>wsdp_reg := reg\<rparr>) m2 = (im', m3)" by (metis prod.collapse)
    have "win_frame m2 m3"
      using started_server_close [of e "WServer (Some (im\<lparr>wsdp_reg := reg\<rparr>))" m2] cl by (simp add: wserver_close_def)
    then have k3: "win_frame m m3" using k2 win_frame_trans by blast
    have "m' = m2 \<or> m' = m3"
      using assms l True im c cl by (auto simp: wserver_listen_with_sdp_def Let_def split: if_splits)
    with k2 k3 show ?thesis by blast
  next
    case False
    then have "m' = m1"
      using assms l by (auto simp: wserver_listen_with_sdp_def split: sum.splits bool.splits option.splits)
    with k1 show ?thesis by simp
  qed
qed

lemma started_accept [started_facts]:
  "wserver_accept e v m = (x, m') \<Longrightarrow> win_frame m m'"
  by (auto simp: wserver_accept_def Let_def split: option.splits if_splits prod.splits
      intro: started_calls started_from_native win_frame_trans)

lemma started_connect:
  assumes "win_client_connect e a c t m = (res, m')"
  shows "win_frame (winsock_ensure e m) m'"
proof -
  let ?m = "winsock_ensure e m"
  obtain h m1 where s: "win_socket_call e ?m = (h, m1)" by (metis prod.collapse)
  obtain r1 m2 where o1: "win_setsockopt e h SO_SNDBUF (WinInt DEFAULT_BUFFER_SIZE) m1 = (r1, m2)" by (metis prod.collapse)
  obtain r2 m3 where o2: "win_setsockopt e h SO_RCVBUF (WinInt DEFAULT_BUFFER_SIZE) m2 = (r2, m3)" by (metis prod.collapse)
  obtain r3 m4 where o3: "win_setsockopt e h SO_SNDTIMEO (dword_of_ms t) m3 = (r3, m4)" by (metis prod.collapse)
  obtain r4 m5 where o4: "win_setsockopt e h SO_RCVTIMEO (dword_of_ms t) m4 = (r4, m5)" by (metis prod.collapse)
  let ?m5 = "if 0 < t then m5 else m3"
  obtain r m6 where k: "win_connect e h (remote_bth a c) ?m5 = (r, m6)" by (metis prod.collapse)
  obtain sock m7 where f: "wsocket_from_native e h a c m6 = (sock, m7)" by (metis prod.collapse)
  have k1: "win_frame ?m m1" by (rule started_calls(1) [OF s])
  have k3: "win_frame ?m m3"
    using k1 started_calls(2) [OF o1] started_calls(2) [OF o2] by (blast intro: win_frame_trans)
  have "win_frame m3 m5" using started_calls(2) [OF o3] started_calls(2) [OF o4] by (rule win_frame_trans)
  then have k5: "win_frame ?m ?m5" using k3 by (auto intro: win_frame_trans)
  have k6: "win_frame ?m m6" using k5 started_calls(6) [OF k] by (rule win_frame_trans)
  have k7: "win_frame ?m m7" using k6 started_from_native [OF f] by (rule win_frame_trans)
  have "m' \<in> {m1, win_close_socket_handle e h m6, m7}"
    using assms s o1 o2 o3 o4 k f
    by (auto simp: win_client_connect_def remote_bth_def Let_def split: if_splits)
  then show ?thesis using k1 k6 k7 started_close(1) by (auto intro: win_frame_trans)
qed

lemma started_resolve:
  assumes "win_resolve_channel e a u m = (found, m')"
  shows "win_frame (winsock_ensure e m) m'"
proof -
  have "wsa_up m' \<and> (started_first (winsock_ensure e m) \<longrightarrow> started_first m')"
    using assms
  proof (cases rule: win_resolve_channel_paths)
    case (begun h evs)
    have "WStartup \<notin> set evs" using begun(1) by (cases rule: lookup_run.cases) auto
    with begun(2,3) show ?thesis by (auto simp: started_first_def)
  qed (simp add: started_emit)
  with win_resolve_ledger [OF assms] show ?thesis by (simp add: win_frame_def)
qed

lemma started_connect_by_sdp:
  assumes "win_client_connect_by_sdp e a u t m = (res, m')"
  shows "win_frame (winsock_ensure e m) m'"
proof -
  obtain f m1 where f: "win_resolve_channel e a u m = (f, m1)" by (metis prod.collapse)
  note k1 = started_resolve [OF f]
  show ?thesis
  proof (cases f)
    case None
    with k1 f assms show ?thesis by (simp add: win_client_connect_by_sdp_def)
  next
    case (Some ch)
    then have "win_client_connect e a ch t m1 = (res, m')" using assms f by (simp add: win_client_connect_by_sdp_def)
    from started_connect [OF this] k1 win_frame_ensure [of m1 e] show ?thesis by (blast intro: win_frame_trans)
  qed
qed

end
