(* ===== verification/Serial_Win.thy ===== *)
theory Serial_Win
  imports Serial_Io Server_Win_Facts
begin

text \<open>
  \<open>class SerialPort\<close> of \<open>src/serial_port.cpp\<close> in the Windows build. The text of the class is that of the Linux
  build, over the Windows \<open>Socket\<close>, but for the \<open>ioctlsocket\<close> of \<open>get_rx_queue_status\<close>; the parts that touch no
  socket (the settings, the cache, \<open>scan_line\<close>) are those of \<open>Serial_Port\<close> and \<open>Serial_Io\<close>, which are
  polymorphic in the type of sockets. The constructor makes no socket and does not start Winsock.
\<close>

type_synonym wserial_impl = "wsocket serial_impl_of"
type_synonym wserial_port = "wsocket serial_port_of"

section \<open>The receive cache\<close>

definition wrefill_rx_cache ::
  "'w wenv \<Rightarrow> wserial_impl \<Rightarrow> 'w wmachine \<Rightarrow> (bool \<times> wserial_impl) \<times> 'w wmachine" where
  "wrefill_rx_cache e im m =
     (case ser_sock im of
        None \<Rightarrow> ((False, im), m)
      | Some s \<Rightarrow>
          if \<not> wsocket_is_open s then ((False, im), m)
          else
            let im = (if length (rx_buf im) \<le> rx_head im then clear_rx_cache im else im);
                ((r, chunk), m) = wsocket_recv e s chunk_4096 m
            in if r \<le> 0 then ((False, im), m)
               else
                 let im = (if 0 < rx_head im then im\<lparr>rx_buf := drop (rx_head im) (rx_buf im), rx_head := 0\<rparr>
                           else im)
                 in ((True, im\<lparr>rx_buf := rx_buf im @ take (nat r) chunk\<rparr>), m))"

section \<open>Destruction and assignment\<close>

definition wserial_destroy :: "'w wenv \<Rightarrow> wserial_port \<Rightarrow> 'w wmachine \<Rightarrow> 'w wmachine" where
  "wserial_destroy e p m =
     (case serial_pimpl p of None \<Rightarrow> m
      | Some im \<Rightarrow> (case ser_sock im of None \<Rightarrow> m | Some s \<Rightarrow> wsocket_destroy e s m))"

definition wserial_move_assign ::
  "'w wenv \<Rightarrow> wserial_port \<Rightarrow> wserial_port \<Rightarrow> 'w wmachine \<Rightarrow> (wserial_port \<times> wserial_port) \<times> 'w wmachine" where
  "wserial_move_assign e dst other m =
     ((SerialPort (serial_pimpl other), SerialPort None), wserial_destroy e dst m)"

section \<open>Opening and closing\<close>

definition wserial_close :: "'w wenv \<Rightarrow> wserial_port \<Rightarrow> 'w wmachine \<Rightarrow> wserial_port \<times> 'w wmachine" where
  "wserial_close e p m =
     (case serial_pimpl p of
        None \<Rightarrow> (p, m)
      | Some im \<Rightarrow>
          let im = clear_rx_cache im in
          (case ser_sock im of
             None \<Rightarrow> (SerialPort (Some im), m)
           | Some s \<Rightarrow>
               let (s, m) = wsocket_close e s m
               in (SerialPort (Some (im\<lparr>ser_sock := None\<rparr>)), wsocket_destroy e s m)))"

definition wserial_is_open :: "wserial_port \<Rightarrow> bool" where
  "wserial_is_open p =
     (case serial_pimpl p of None \<Rightarrow> False
      | Some im \<Rightarrow> (case ser_sock im of None \<Rightarrow> False | Some s \<Rightarrow> wsocket_is_open s))"

definition wserial_adopt ::
  "'w wenv \<Rightarrow> wsocket option \<Rightarrow> wserial_port \<Rightarrow> 'w wmachine \<Rightarrow> ((ub + bool) \<times> wserial_port) \<times> 'w wmachine" where
  "wserial_adopt e new_sock p m =
     (case serial_pimpl p of
        None \<Rightarrow> ((Inl NullDereference, p), m)
      | Some im \<Rightarrow>
          let im = im\<lparr>ser_sock := new_sock\<rparr> in
          (case new_sock of
             None \<Rightarrow> ((Inr False, SerialPort (Some im)), m)
           | Some s \<Rightarrow>
               let (_, m) = wsocket_set_timeouts e s (write_timeout im) (read_timeout im) m
               in ((Inr True, SerialPort (Some im)), m)))"

definition wserial_open ::
  "'w wenv \<Rightarrow> wserial_port \<Rightarrow> address \<Rightarrow> u8 \<Rightarrow> int \<Rightarrow> 'w wmachine \<Rightarrow>
     ((ub + bool) \<times> wserial_port) \<times> 'w wmachine" where
  "wserial_open e p addr channel timeout m =
     (let (p, m) = wserial_close e p m;
          (s, m) = win_client_connect e addr channel timeout m
      in wserial_adopt e s p m)"

definition wserial_open_mac ::
  "'w wenv \<Rightarrow> wserial_port \<Rightarrow> string \<Rightarrow> u8 \<Rightarrow> int \<Rightarrow> 'w wmachine \<Rightarrow>
     ((ub + bool) \<times> wserial_port) \<times> 'w wmachine" where
  "wserial_open_mac e p mac channel timeout m =
     (case address_try_parse mac of
        None \<Rightarrow> ((Inr False, p), m)
      | Some addr \<Rightarrow> wserial_open e p addr channel timeout m)"

definition wserial_open_by_uuid ::
  "'w wenv \<Rightarrow> wserial_port \<Rightarrow> address \<Rightarrow> uuid \<Rightarrow> int \<Rightarrow> 'w wmachine \<Rightarrow>
     ((ub + bool) \<times> wserial_port) \<times> 'w wmachine" where
  "wserial_open_by_uuid e p addr u timeout m =
     (let (p, m) = wserial_close e p m;
          (s, m) = win_client_connect_by_sdp e addr u timeout m
      in wserial_adopt e s p m)"

definition wserial_open_by_uuid_text ::
  "'w wenv \<Rightarrow> wserial_port \<Rightarrow> string \<Rightarrow> string \<Rightarrow> int \<Rightarrow> 'w wmachine \<Rightarrow>
     ((ub + bool) \<times> wserial_port) \<times> 'w wmachine" where
  "wserial_open_by_uuid_text e p mac uuid_str timeout m =
     (case address_try_parse mac of
        None \<Rightarrow> ((Inr False, p), m)
      | Some addr \<Rightarrow>
          (case uuid_try_parse uuid_str of
             None \<Rightarrow> ((Inr False, p), m)
           | Some u \<Rightarrow> wserial_open_by_uuid e p addr u timeout m))"

definition wserial_attach ::
  "'w wenv \<Rightarrow> wserial_port \<Rightarrow> wsocket option \<Rightarrow> 'w wmachine \<Rightarrow>
     ((ub + bool) \<times> wserial_port) \<times> 'w wmachine" where
  "wserial_attach e p new_sock m =
     (let (p, m) = wserial_close e p m in
      case new_sock of
        None \<Rightarrow> ((Inr False, p), m)
      | Some s \<Rightarrow>
          if \<not> wsocket_is_open s then ((Inr False, p), wsocket_destroy e s m)
          else wserial_adopt e (Some s) p m)"

definition wserial_set_timeouts ::
  "'w wenv \<Rightarrow> wserial_port \<Rightarrow> int \<Rightarrow> int \<Rightarrow> 'w wmachine \<Rightarrow> wserial_port \<times> 'w wmachine" where
  "wserial_set_timeouts e p rt wt m =
     (case serial_pimpl p of
        None \<Rightarrow> (p, m)
      | Some im \<Rightarrow>
          let im = im\<lparr>read_timeout := rt, write_timeout := wt\<rparr> in
          (case ser_sock im of
             None \<Rightarrow> (SerialPort (Some im), m)
           | Some s \<Rightarrow>
               let (_, m) = wsocket_set_timeouts e s wt rt m in (SerialPort (Some im), m)))"

definition wserial_peer_address :: "wserial_port \<Rightarrow> address" where
  "wserial_peer_address p =
     (case serial_underlying_socket p of None \<Rightarrow> address_any | Some s \<Rightarrow> wsocket_peer_address s)"

definition wserial_peer_channel :: "wserial_port \<Rightarrow> u8" where
  "wserial_peer_channel p =
     (case serial_underlying_socket p of None \<Rightarrow> 0 | Some s \<Rightarrow> wsocket_peer_channel s)"

section \<open>Reading\<close>

definition wserial_parts :: "wserial_port \<Rightarrow> (wserial_impl \<times> wsocket) option" where
  "wserial_parts p =
     (case serial_pimpl p of None \<Rightarrow> None
      | Some im \<Rightarrow> (case ser_sock im of None \<Rightarrow> None
                   | Some s \<Rightarrow> if wsocket_is_open s then Some (im, s) else None))"

definition wserial_read ::
  "'w wenv \<Rightarrow> wserial_port \<Rightarrow> u8 list \<Rightarrow> 'w wmachine \<Rightarrow> ((nat \<times> u8 list) \<times> wserial_port) \<times> 'w wmachine" where
  "wserial_read e p buffer m =
     (case wserial_parts p of
        None \<Rightarrow> (((0, buffer), p), m)
      | Some (im, s) \<Rightarrow>
          if buffer = [] then (((0, buffer), p), m)
          else
            let available = cached_bytes_available im;
                to_copy = min available (length buffer);
                (copied, buffer, im) =
                  (if 0 < available then
                     (to_copy, overlay (take to_copy (drop (rx_head im) (rx_buf im))) buffer,
                      im\<lparr>rx_head := rx_head im + to_copy\<rparr>)
                   else (0, buffer, im));
                p = SerialPort (Some im)
            in if 0 < available \<and> copied = length buffer then (((copied, buffer), p), m)
               else
                 let ((r, chunk), m) = wsocket_recv e s (drop copied buffer) m
                 in (((if 0 < r then copied + nat r else copied, write_tail copied chunk buffer), p), m))"

lemma length_wserial_read [shape_facts]:
  "wserial_read e p buf m = (((n, buf'), p'), m') \<Longrightarrow> length buf' = length buf"
  by (auto simp: wserial_read_def Let_def cached_bytes_available_def overlay_def write_tail_def
      dest!: length_wsocket_recv split: option.splits if_splits prod.splits)

function wserial_read_exact_loop ::
  "'w wenv \<Rightarrow> wserial_port \<Rightarrow> u8 list \<Rightarrow> nat \<Rightarrow> 'w wmachine \<Rightarrow> ((bool \<times> u8 list) \<times> wserial_port) \<times> 'w wmachine" where
  "wserial_read_exact_loop e p buffer got m =
     (if got < length buffer then
        let (((n, sub), p), m) = wserial_read e p (drop got buffer) m;
            buffer' = write_tail got sub buffer
        in if n = 0 then (((False, buffer'), p), m)
           else wserial_read_exact_loop e p buffer' (got + n) m
      else (((True, buffer), p), m))"
  by pat_completeness auto
termination
  by (relation "measure (\<lambda>(e, p, buffer, got, m). length buffer - got)")
    (auto simp: write_tail_def dest!: sym [of "(((_, _), _), _)"] length_wserial_read)

declare wserial_read_exact_loop.simps [simp del]

definition wserial_read_exact ::
  "'w wenv \<Rightarrow> wserial_port \<Rightarrow> u8 list \<Rightarrow> 'w wmachine \<Rightarrow> ((bool \<times> u8 list) \<times> wserial_port) \<times> 'w wmachine" where
  "wserial_read_exact e p buffer m = wserial_read_exact_loop e p buffer 0 m"

definition wserial_read_byte ::
  "'w wenv \<Rightarrow> wserial_port \<Rightarrow> 'w wmachine \<Rightarrow> (u8 option \<times> wserial_port) \<times> 'w wmachine" where
  "wserial_read_byte e p m =
     (case wserial_parts p of
        None \<Rightarrow> ((None, p), m)
      | Some (im, s) \<Rightarrow>
          let ((ok, im), m) =
                (if cached_bytes_available im = 0 then wrefill_rx_cache e im m else ((True, im), m))
          in if \<not> ok then ((None, SerialPort (Some im)), m)
             else if 0 < cached_bytes_available im then
               ((Some (rx_buf im ! rx_head im), SerialPort (Some (im\<lparr>rx_head := rx_head im + 1\<rparr>))), m)
             else ((None, SerialPort (Some im)), m))"

partial_function (option) wread_line_loop ::
  "'w wenv \<Rightarrow> char \<Rightarrow> int \<Rightarrow> int \<Rightarrow> wserial_impl \<Rightarrow> string \<Rightarrow> 'w wmachine \<Rightarrow>
     ((string \<times> wserial_impl) \<times> 'w wmachine) option" where
  "wread_line_loop e delimiter timeout start im line m =
     (let ((found, line), im) = scan_line delimiter im line
      in if found then Some ((line, im), m)
         else
           let (expired, m) =
                 (if 0 < timeout then
                    let (now, m) = win_now e m in (timed_out start now timeout, m)
                  else (False, m))
           in if expired then Some ((line, im), m)
              else
                let ((ok, im), m) = wrefill_rx_cache e im m
                in if \<not> ok then Some ((line, im), m)
                   else wread_line_loop e delimiter timeout start im line m)"

declare wread_line_loop.simps [code]

definition wserial_read_line ::
  "'w wenv \<Rightarrow> wserial_port \<Rightarrow> char \<Rightarrow> int \<Rightarrow> 'w wmachine \<Rightarrow> ((string \<times> wserial_port) \<times> 'w wmachine) option" where
  "wserial_read_line e p delimiter timeout m =
     (case wserial_parts p of
        None \<Rightarrow> Some (([], p), m)
      | Some (im, s) \<Rightarrow>
          let (start, m) = win_now e m
          in map_option (\<lambda>((line, im), m). ((line, SerialPort (Some im)), m))
               (wread_line_loop e delimiter timeout start im [] m))"

section \<open>Writing\<close>

definition wserial_write :: "'w wenv \<Rightarrow> wserial_port \<Rightarrow> u8 list \<Rightarrow> 'w wmachine \<Rightarrow> nat \<times> 'w wmachine" where
  "wserial_write e p data m =
     (case wserial_parts p of
        None \<Rightarrow> (0, m)
      | Some (im, s) \<Rightarrow>
          if data = [] then (0, m)
          else let (sent, m) = wsocket_send e s data m in (if 0 < sent then nat sent else 0, m))"

definition wserial_write_text :: "'w wenv \<Rightarrow> wserial_port \<Rightarrow> string \<Rightarrow> 'w wmachine \<Rightarrow> nat \<times> 'w wmachine" where
  "wserial_write_text e p text m = wserial_write e p (map byte_of_char text) m"

definition wserial_write_byte :: "'w wenv \<Rightarrow> wserial_port \<Rightarrow> u8 \<Rightarrow> 'w wmachine \<Rightarrow> bool \<times> 'w wmachine" where
  "wserial_write_byte e p b m = (let (n, m) = wserial_write e p [b] m in (n = 1, m))"

definition wserial_write_line ::
  "'w wenv \<Rightarrow> wserial_port \<Rightarrow> string \<Rightarrow> string \<Rightarrow> 'w wmachine \<Rightarrow> bool \<times> 'w wmachine" where
  "wserial_write_line e p line eol m =
     (case wserial_parts p of
        None \<Rightarrow> (False, m)
      | Some (im, s) \<Rightarrow> wsocket_send_all e s (map byte_of_char (line @ eol)) m)"

section \<open>Queue status and purge\<close>

text \<open>\<open>unsigned long\<close> has 32 bits here, so the whole of it is stored.\<close>

definition wserial_get_rx_queue_status :: "'w wenv \<Rightarrow> wserial_port \<Rightarrow> 'w wmachine \<Rightarrow> u64 \<times> 'w wmachine" where
  "wserial_get_rx_queue_status e p m =
     (case wserial_parts p of
        None \<Rightarrow> (0, m)
      | Some (im, s) \<Rightarrow>
          let in_cache = word_of_nat (cached_bytes_available im);
              (pending, m) = win_fionread e (wsocket_native_handle s) m;
              socket_pending = (case pending of None \<Rightarrow> 0 | Some n \<Rightarrow> ucast n)
          in (in_cache + socket_pending, m))"

partial_function (option) wdrain_loop ::
  "'w wenv \<Rightarrow> wsocket \<Rightarrow> u8 list \<Rightarrow> 'w wmachine \<Rightarrow> 'w wmachine option" where
  "wdrain_loop e s drain_buf m =
     (let ((r, drain_buf), m) = wsocket_recv e s drain_buf m
      in if 0 < r then wdrain_loop e s drain_buf m else Some m)"

declare wdrain_loop.simps [code]

definition wserial_purge ::
  "'w wenv \<Rightarrow> wserial_port \<Rightarrow> purge_flags \<Rightarrow> 'w wmachine \<Rightarrow> (wserial_port \<times> 'w wmachine) option" where
  "wserial_purge e p flags m =
     (case serial_pimpl p of
        None \<Rightarrow> Some (p, m)
      | Some im \<Rightarrow>
          if purge_has flags PurgeRx then
            let im = clear_rx_cache im in
            (case ser_sock im of
               None \<Rightarrow> Some (SerialPort (Some im), m)
             | Some s \<Rightarrow>
                 let (_, m) = wsocket_set_blocking e s False m
                 in (case wdrain_loop e s chunk_4096 m of
                       None \<Rightarrow> None
                     | Some m \<Rightarrow>
                         let (_, m) = wsocket_set_blocking e s True m
                         in Some (SerialPort (Some im), m)))
          else Some (p, m))"

end
