(* ===== verification/Serial_Win_Frame.thy ===== *)
theory Serial_Win_Frame
  imports Win_Frame Serial_Win
begin

text \<open>
  What the methods of the Windows \<open>SerialPort\<close> leave alone: they keep its socket and make calls on nothing else;
  a port without a socket makes none. Opening and attaching, which change the socket, are accounted for.
\<close>

section \<open>The methods that keep the socket\<close>

definition wport_via :: "wserial_port \<Rightarrow> 'w wmachine \<Rightarrow> wserial_port \<Rightarrow> 'w wmachine \<Rightarrow> bool" where
  "wport_via p m p' m' \<longleftrightarrow> serial_underlying_socket p' = serial_underlying_socket p
     \<and> (case serial_underlying_socket p of None \<Rightarrow> m' = m | Some s \<Rightarrow> win_via s m m')"

named_theorems wport_facts \<open>the methods of a Windows port stay on its socket\<close>

lemma wport_via_refl [simp, intro]: "wport_via p m p m"
  by (simp add: wport_via_def split: option.split)

lemma wport_via_trans: "wport_via p m p' m' \<Longrightarrow> wport_via p' m' p'' m'' \<Longrightarrow> wport_via p m p'' m''"
  by (auto simp: wport_via_def intro: win_via_trans split: option.splits)

lemma underlying_simps [simp]:
  "serial_underlying_socket (SerialPort (Some im)) = ser_sock im" "serial_underlying_socket (SerialPort None) = None"
  by (simp_all add: serial_underlying_socket_def)

lemma win_via_now: "wsocket_is_open s \<Longrightarrow> win_now e m = (t, m') \<Longrightarrow> win_via s m m'"
  by (auto simp: win_via_def intro: win_io_transfers started_calls)

lemma wparts_Some:
  "wserial_parts p = Some (im, s) \<Longrightarrow> p = SerialPort (Some im) \<and> ser_sock im = Some s \<and> wsocket_is_open s"
  by (cases p) (auto simp: wserial_parts_def split: option.splits if_splits)

lemma refill_via:
  assumes "wrefill_rx_cache e im m = ((ok, im'), m')"
  shows "ser_sock im' = ser_sock im \<and> (case ser_sock im of None \<Rightarrow> m' = m | Some s \<Rightarrow> win_via s m m')"
proof (cases "ser_sock im")
  case (Some s)
  obtain x m1 where r: "wsocket_recv e s chunk_4096 m = (x, m1)" by (metis prod.collapse)
  have "ser_sock im' = Some s \<and> (m' = m \<or> m' = m1)"
    using assms Some r by (auto simp: wrefill_rx_cache_def clear_rx_cache_def Let_def split: if_splits prod.splits)
  with Some win_via_recv [OF r] show ?thesis by auto
qed (use assms in \<open>simp add: wrefill_rx_cache_def\<close>)

lemma wport_read [wport_facts]:
  assumes "wserial_read e p buf m = ((x, p'), m')"
  shows "wport_via p m p' m'"
proof (cases "wserial_parts p")
  case (Some ims)
  obtain im s where ims: "ims = (im, s)" by (cases ims)
  note p = wparts_Some [OF Some [unfolded ims]]
  show ?thesis
    using assms Some ims p
    by (auto simp: wserial_read_def wport_via_def Let_def dest: win_via_recv split: if_splits prod.splits)
qed (use assms in \<open>auto simp: wserial_read_def\<close>)

lemma wport_read_exact_loop: "wserial_read_exact_loop e p buf n m = ((x, p'), m') \<Longrightarrow> wport_via p m p' m'"
proof (induction e p buf n m rule: wserial_read_exact_loop.induct)
  case (1 e p buf n m)
  obtain k sub p1 m1 where r: "wserial_read e p (drop n buf) m = (((k, sub), p1), m1)" by (metis prod.collapse)
  show ?case
  proof (cases "n < length buf \<and> k \<noteq> 0")
    case True
    then have "wport_via p1 m1 p' m'"
      using "1.prems" r "1.IH" [OF _ r [symmetric] refl refl refl refl]
      by (simp add: wserial_read_exact_loop.simps [of e p buf n m])
    with wport_read [OF r] show ?thesis by (rule wport_via_trans)
  next
    case False
    with "1.prems" r wport_read [OF r] show ?thesis
      by (auto simp: wserial_read_exact_loop.simps [of e p buf n m] split: if_splits)
  qed
qed

lemma wport_read_exact [wport_facts]: "wserial_read_exact e p buf m = ((x, p'), m') \<Longrightarrow> wport_via p m p' m'"
  unfolding wserial_read_exact_def by (rule wport_read_exact_loop)

lemma wport_read_byte [wport_facts]:
  assumes "wserial_read_byte e p m = ((x, p'), m')"
  shows "wport_via p m p' m'"
proof (cases "wserial_parts p")
  case (Some ims)
  obtain im s where ims: "ims = (im, s)" by (cases ims)
  note p = wparts_Some [OF Some [unfolded ims]]
  obtain ok im1 m1 where r: "(if cached_bytes_available im = 0 then wrefill_rx_cache e im m else ((True, im), m)) = ((ok, im1), m1)"
    by (metis prod.collapse)
  have "ser_sock im1 = Some s \<and> win_via s m m1" using r p refill_via [of e im m] by (auto split: if_splits)
  moreover have "(\<exists>n. p' = SerialPort (Some (im1\<lparr>rx_head := n\<rparr>))) \<or> p' = SerialPort (Some im1)" "m' = m1"
    using assms Some ims r unfolding wserial_read_byte_def by (auto split: if_splits)
  ultimately show ?thesis using p by (auto simp: wport_via_def)
qed (use assms in \<open>auto simp: wserial_read_byte_def\<close>)

lemma read_line_loop_via:
  assumes "wread_line_loop e d t start im line m = Some y" "ser_sock im = Some s" "wsocket_is_open s"
  shows "win_via s m (snd y) \<and> ser_sock (snd (fst y)) = Some s"
proof -
  have "ser_sock im = Some s \<longrightarrow> win_via s m (snd y) \<and> ser_sock (snd (fst y)) = Some s"
    using assms(1)
  proof (rule wread_line_loop.raw_induct [where P = "\<lambda>e d t start im line m y. ser_sock im = Some s \<longrightarrow>
      win_via s m (snd y) \<and> ser_sock (snd (fst y)) = Some s", rotated])
    fix rec e d t start im line m y
    assume rec: "\<And>e d t start im line m y. rec e d t start im line m = Some y \<Longrightarrow> ser_sock im = Some s \<longrightarrow>
        win_via s m (snd y) \<and> ser_sock (snd (fst y)) = Some s"
      and turn: "(let ((found, line), im) = scan_line d im line
        in if found then Some ((line, im), m)
           else let (expired, m) =
                   (if 0 < t then let (now, m) = win_now e m in (timed_out start now t, m) else (False, m))
             in if expired then Some ((line, im), m)
                else let ((ok, im), m) = wrefill_rx_cache e im m
                  in if \<not> ok then Some ((line, im), m) else rec e d t start im line m) = Some y"
    show "ser_sock im = Some s \<longrightarrow> win_via s m (snd y) \<and> ser_sock (snd (fst y)) = Some s"
    proof
      assume s: "ser_sock im = Some s"
      obtain found l1 im1 where sc: "scan_line d im line = ((found, l1), im1)" by (metis prod.collapse)
      obtain expired m1 where ex: "(if 0 < t then let (now, m) = win_now e m in (timed_out start now t, m)
          else (False, m)) = (expired, m1)" by (metis prod.collapse)
      obtain ok im2 m2 where rf: "wrefill_rx_cache e im1 m1 = ((ok, im2), m2)" by (metis prod.collapse)
      have v1: "win_via s m m1" "ser_sock im1 = Some s"
        using ex s scan_line_sock [OF sc] win_via_now [OF assms(3)] by (auto split: if_splits prod.splits)
      then have v2: "win_via s m1 m2" "ser_sock im2 = Some s" using refill_via [OF rf] by simp_all
      have v3: "win_via s m m2" by (rule win_via_trans [OF v1(1) v2(1)])
      show "win_via s m (snd y) \<and> ser_sock (snd (fst y)) = Some s"
        using turn sc ex rf v1 v2 v3 s rec [of e d t start im2 l1 m2 y] win_via_trans [OF v3]
        by (auto split: if_splits)
    qed
  qed
  with assms(2) show ?thesis by blast
qed

lemma wport_read_line [wport_facts]:
  assumes "wserial_read_line e p d t m = Some ((l, p'), m')"
  shows "wport_via p m p' m'"
proof (cases "wserial_parts p")
  case (Some ims)
  obtain im s where ims: "ims = (im, s)" by (cases ims)
  note p = wparts_Some [OF Some [unfolded ims]]
  obtain start m1 where n: "win_now e m = (start, m1)" by (metis prod.collapse)
  obtain im' where r: "wread_line_loop e d t start im [] m1 = Some ((l, im'), m')" "p' = SerialPort (Some im')"
    using assms Some ims n by (auto simp: wserial_read_line_def)
  from read_line_loop_via [OF r(1)] p win_via_now [OF _ n, of s] r(2) show ?thesis
    by (auto simp: wport_via_def intro: win_via_trans)
qed (use assms in \<open>auto simp: wserial_read_line_def\<close>)

lemma drain_via: "wdrain_loop e s b m = Some m' \<Longrightarrow> win_via s m m'"
proof -
  assume "wdrain_loop e s b m = Some m'"
  then show "win_via s m m'"
  proof (rule wdrain_loop.raw_induct [where P = "\<lambda>e s b m m'. win_via s m m'", rotated])
    fix rec e s b and m m' :: "'a wmachine"
    assume rec: "\<And>e s b m m'. rec e s b m = Some m' \<Longrightarrow> win_via s m m'"
      and turn: "(let ((r, b), m) = wsocket_recv e s b m in if 0 < r then rec e s b m else Some m) = Some m'"
    obtain r b1 m1 where rc: "wsocket_recv e s b m = ((r, b1), m1)" by (metis prod.collapse)
    show "win_via s m m'"
      using turn rc rec [of e s b1 m1 m'] win_via_recv [OF rc] win_via_trans by (auto split: if_splits)
  qed
qed

lemma wport_purge [wport_facts]:
  assumes "wserial_purge e p fl m = Some (p', m')"
  shows "wport_via p m p' m'"
proof (cases "serial_pimpl p")
  case (Some im)
  have sk: "ser_sock (clear_rx_cache im) = ser_sock im" by (simp add: clear_rx_cache_def)
  have p: "p = SerialPort (Some im)" using Some by (cases p) simp
  show ?thesis
  proof (cases "purge_has fl PurgeRx \<and> ser_sock im \<noteq> None")
    case True
    then obtain s where s: "ser_sock im = Some s" by blast
    obtain x m1 where b1: "wsocket_set_blocking e s False m = (x, m1)" by (metis prod.collapse)
    obtain m2 where d: "wdrain_loop e s chunk_4096 m1 = Some m2"
      using assms Some True sk s b1 by (auto simp: wserial_purge_def split: option.splits prod.splits)
    obtain y m3 where b2: "wsocket_set_blocking e s True m2 = (y, m3)" by (metis prod.collapse)
    have "p' = SerialPort (Some (clear_rx_cache im))" "m' = m3"
      using assms Some True sk s b1 d b2 by (auto simp: wserial_purge_def)
    moreover have "win_via s m m3"
      using win_via_options(3) [OF b1] drain_via [OF d] win_via_options(3) [OF b2] by (blast intro: win_via_trans)
    ultimately show ?thesis using p s sk by (simp add: wport_via_def)
  next
    case False
    with assms Some p sk show ?thesis
      by (auto simp: wserial_purge_def wport_via_def split: if_splits option.splits)
  qed
qed (use assms in \<open>auto simp: wserial_purge_def\<close>)

lemma wport_write [wport_facts]: "wserial_write e p d m = (n, m') \<Longrightarrow> wport_via p m p m'"
  by (auto simp: wserial_write_def wport_via_def dest!: wparts_Some dest: win_via_send split: option.splits if_splits prod.splits)

lemma wport_write_line [wport_facts]: "wserial_write_line e p l eol m = (ok, m') \<Longrightarrow> wport_via p m p m'"
  by (auto simp: wserial_write_line_def wport_via_def dest!: wparts_Some dest: win_via_transfers split: option.splits prod.splits)

lemma wport_queue_status [wport_facts]:
  assumes "wserial_get_rx_queue_status e p m = (n, m')"
  shows "wport_via p m p m'"
proof (cases "wserial_parts p")
  case (Some ims)
  obtain im s where ims: "ims = (im, s)" by (cases ims)
  note p = wparts_Some [OF Some [unfolded ims]]
  have "wsocket_native_handle s = wsocket_fd s"
    using p by (auto simp: wsocket_native_handle_def wsocket_fd_def wsocket_is_open_def split: option.splits)
  with assms Some ims p show ?thesis
    by (auto simp: wserial_get_rx_queue_status_def wport_via_def win_via_def Let_def
        intro: win_io_transfers started_calls split: prod.splits)
qed (use assms in \<open>auto simp: wserial_get_rx_queue_status_def\<close>)

lemma wport_set_timeouts [wport_facts]: "wserial_set_timeouts e p rt wt m = (p', m') \<Longrightarrow> wport_via p m p' m'"
  by (cases p) (auto simp: wserial_set_timeouts_def wport_via_def Let_def dest: win_via_options split: option.splits prod.splits)

section \<open>The methods that change the socket\<close>

definition wport_holds :: "wserial_port \<Rightarrow> win_socket multiset" where
  "wport_holds p = (case serial_underlying_socket p of None \<Rightarrow> {#} | Some s \<Rightarrow> wsocket_holds s)"

lemma wserial_close_effect:
  assumes "wserial_close e p m = (p', m')"
  shows "serial_underlying_socket p' = None" "live_socks m' = live_socks m - wport_holds p"
    "live_services m' = live_services m" "win_frame m m'" "wsa_up m' = wsa_up m"
    "serial_underlying_socket p = None \<Longrightarrow> m' = m"
    "wport_holds p \<subseteq># live_socks m \<Longrightarrow> socks_respected m' = socks_respected m"
proof -
  have "serial_underlying_socket p' = None \<and> live_socks m' = live_socks m - wport_holds p
    \<and> live_services m' = live_services m \<and> win_frame m m' \<and> wsa_up m' = wsa_up m
    \<and> (serial_underlying_socket p = None \<longrightarrow> m' = m)
    \<and> (wport_holds p \<subseteq># live_socks m \<longrightarrow> socks_respected m' = socks_respected m)"
  proof (cases "serial_underlying_socket p")
    case None
    then show ?thesis
      using assms by (cases p) (auto simp: wserial_close_def wport_holds_def clear_rx_cache_def Let_def
          serial_underlying_socket_def split: option.splits prod.splits)
  next
    case (Some s)
    obtain s1 m1 where c: "wsocket_close e s m = (s1, m1)" by (metis prod.collapse)
    have "\<not> wsocket_is_open s1" using wsocket_closable.close_shuts [OF _ c] by blast
    then have "wsocket_destroy e s1 m1 = m1"
      by (auto simp: wsocket_destroy_def wsocket_is_open_def split: option.splits)
    then have "serial_underlying_socket p' = None \<and> m' = m1"
      using assms Some c
      by (cases p) (auto simp: wserial_close_def clear_rx_cache_def Let_def serial_underlying_socket_def
          split: option.splits)
    moreover have "live_socks m1 = live_socks m - wsocket_holds s" by (rule wsocket_closable.close_releases [OF _ c]) simp
    moreover have "live_services m1 = live_services m \<and> win_frame m m1 \<and> wsa_up m1 = wsa_up m
        \<and> (wsocket_holds s \<subseteq># live_socks m \<longrightarrow> socks_respected m1 = socks_respected m)"
      using c by (auto simp: wsocket_close_def win_close_socket_handle_def win_close_def wsocket_defs intro: win_frame_emit
          split: option.splits if_splits)
    ultimately show ?thesis using Some by (simp add: wport_holds_def)
  qed
  then show "serial_underlying_socket p' = None" "live_socks m' = live_socks m - wport_holds p"
    "live_services m' = live_services m" "win_frame m m'" "wsa_up m' = wsa_up m"
    "serial_underlying_socket p = None \<Longrightarrow> m' = m"
    "wport_holds p \<subseteq># live_socks m \<Longrightarrow> socks_respected m' = socks_respected m" by blast+
qed

lemma wserial_destroy_close: "wserial_destroy e p m = snd (wserial_close e p m)"
proof (cases "serial_underlying_socket p")
  case (Some s)
  obtain s1 m1 where c: "wsocket_close e s m = (s1, m1)" by (metis prod.collapse)
  have "\<not> wsocket_is_open s1" using wsocket_closable.close_shuts [OF _ c] by blast
  then have "wsocket_destroy e s1 m1 = m1"
    by (auto simp: wsocket_destroy_def wsocket_is_open_def split: option.splits)
  with Some c show ?thesis
    by (cases p) (auto simp: wserial_close_def wserial_destroy_def clear_rx_cache_def Let_def serial_underlying_socket_def
        wsocket_destroy_close split: option.splits)
qed (cases p; auto simp: wserial_close_def wserial_destroy_def clear_rx_cache_def serial_underlying_socket_def
    split: option.splits)

text \<open>A closed port gets the socket and uses it only.\<close>

lemma wserial_adopt_effect:
  assumes "wserial_adopt e ns p m = ((Inr ok, p'), m')"
  shows "serial_underlying_socket p' = ns \<and> (case ns of None \<Rightarrow> m' = m | Some s \<Rightarrow> win_via s m m')"
  using assms
  by (cases p) (auto simp: wserial_adopt_def Let_def dest: win_via_options split: option.splits prod.splits)

text \<open>How a port comes out of a call that may change its socket and start Winsock.\<close>

definition wreopened :: "'w wenv \<Rightarrow> wserial_port \<Rightarrow> 'w wmachine \<Rightarrow> wserial_port \<Rightarrow> 'w wmachine \<Rightarrow> bool" where
  "wreopened e p m p' m' \<longleftrightarrow> live_socks m' + wport_holds p = live_socks m + wport_holds p'
     \<and> live_services m' = live_services m \<and> socks_respected m' \<and> win_frame (winsock_ensure e m) m'"

definition wport_owned :: "wserial_port \<Rightarrow> 'w wmachine \<Rightarrow> bool" where
  "wport_owned p m \<longleftrightarrow> wport_holds p \<subseteq># live_socks m \<and> socks_respected m \<and> (serial_underlying_socket p \<noteq> None \<longrightarrow> wsa_up m)"

lemma wreopened_connected:
  assumes own: "wport_owned p m" and c: "wserial_close e p m = (p1, m1)"
    and frame: "win_frame (winsock_ensure e m1) m2" "live_services m2 = live_services m1" "socks_respected m2 = socks_respected m1"
    and held: "case r of None \<Rightarrow> live_socks m2 = live_socks m1 | Some s \<Rightarrow> live_socks m2 = live_socks m1 + wsocket_holds s"
    and a: "wserial_adopt e r p1 m2 = ((Inr ok, p'), m')"
  shows "wreopened e p m p' m'"
proof -
  note cl = wserial_close_effect [OF c] and ad = wserial_adopt_effect [OF a]
  have o: "wport_holds p \<subseteq># live_socks m" "socks_respected m" using own by (simp_all add: wport_owned_def)
  have ens: "win_frame (winsock_ensure e m) m2"
  proof (cases "serial_underlying_socket p")
    case None
    then show ?thesis using cl(6) frame(1) by simp
  next
    case (Some s)
    then have "wsa_up m" "wsa_up m1" using own cl(5) by (simp_all add: wport_owned_def)
    then show ?thesis using win_frame_trans [OF cl(4)] frame(1) by (simp add: winsock_ensure_def)
  qed
  have acc: "live_socks m1 + wport_holds p = live_socks m" using cl(2) o(1) by simp
  have resp: "socks_respected m2" using frame(3) cl(7) o by simp
  show ?thesis
  proof (cases r)
    case None
    then show ?thesis
      using ad held acc ens resp frame(2) cl(3) by (simp add: wreopened_def wport_holds_def)
  next
    case (Some s)
    have via: "win_via s m2 m'" using ad Some by simp
    have "live_socks m' = live_socks m2 \<and> live_services m' = live_services m2 \<and> socks_respected m' \<and> win_frame m2 m'"
      using via resp held Some by (auto simp: win_via_def win_io_def wsocket_holds_def split: if_splits)
    then show ?thesis
      using ad Some held acc ens frame(2) cl(3) win_frame_trans [OF ens]
      by (auto simp: wreopened_def wport_holds_def ac_simps)
  qed
qed

lemma wreopened_open:
  assumes "wport_owned p m" "wserial_open e p a ch t m = ((Inr ok, p'), m')"
  shows "wreopened e p m p' m'"
proof -
  obtain p1 m1 where c: "wserial_close e p m = (p1, m1)" by (metis prod.collapse)
  obtain r m2 where k: "win_client_connect e a ch t m1 = (r, m2)" by (metis prod.collapse)
  have ad: "wserial_adopt e r p1 m2 = ((Inr ok, p'), m')" using assms(2) c k by (simp add: wserial_open_def)
  show ?thesis
    by (rule wreopened_connected [OF assms(1) c started_connect [OF k] _ _ _ ad])
      (use win_client_connect_effect [OF k] in \<open>auto split: option.splits\<close>)
qed

lemma win_connect_by_sdp_ledger:
  assumes "win_client_connect_by_sdp e a u t m = (r, m')"
  shows "live_services m' = live_services m" "socks_respected m' = socks_respected m"
    "case r of None \<Rightarrow> live_socks m' = live_socks m | Some s \<Rightarrow> live_socks m' = live_socks m + wsocket_holds s"
proof -
  obtain f m1 where f: "win_resolve_channel e a u m = (f, m1)" by (metis prod.collapse)
  note led = win_resolve_ledger [OF f]
  have "live_services m' = live_services m \<and> socks_respected m' = socks_respected m
    \<and> (case r of None \<Rightarrow> live_socks m' = live_socks m | Some s \<Rightarrow> live_socks m' = live_socks m + wsocket_holds s)"
    using assms f led win_client_connect_effect [of e a _ t m1 r m']
    by (auto simp: win_client_connect_by_sdp_def split: option.splits)
  then show "live_services m' = live_services m" "socks_respected m' = socks_respected m"
    "case r of None \<Rightarrow> live_socks m' = live_socks m | Some s \<Rightarrow> live_socks m' = live_socks m + wsocket_holds s"
    by blast+
qed

lemma wreopened_open_by_uuid:
  assumes "wport_owned p m" "wserial_open_by_uuid e p a u t m = ((Inr ok, p'), m')"
  shows "wreopened e p m p' m'"
proof -
  obtain p1 m1 where c: "wserial_close e p m = (p1, m1)" by (metis prod.collapse)
  obtain r m2 where k: "win_client_connect_by_sdp e a u t m1 = (r, m2)" by (metis prod.collapse)
  have ad: "wserial_adopt e r p1 m2 = ((Inr ok, p'), m')" using assms(2) c k by (simp add: wserial_open_by_uuid_def)
  show ?thesis
    by (rule wreopened_connected [OF assms(1) c started_connect_by_sdp [OF k] win_connect_by_sdp_ledger [OF k] ad])
qed

text \<open>The texts are parsed first; one that does not parse changes nothing.\<close>

lemma wreopened_texts:
  assumes "wport_owned p m"
  shows "wserial_open_mac e p mac ch t m = ((Inr ok, p'), m') \<Longrightarrow> p' = p \<and> m' = m \<or> wreopened e p m p' m'"
    "wserial_open_by_uuid_text e p mac us t m = ((Inr ok, p'), m') \<Longrightarrow> p' = p \<and> m' = m \<or> wreopened e p m p' m'"
  by (auto simp: wserial_open_mac_def wserial_open_by_uuid_text_def split: option.splits
      intro: wreopened_open [OF assms] wreopened_open_by_uuid [OF assms])

text \<open>The attached socket becomes the port's own, or is closed with it.\<close>

lemma wserial_attach_effect:
  assumes own: "wport_holds p + wsocket_holds s \<subseteq># live_socks m" "socks_respected m"
    and a: "wserial_attach e p (Some s) m = ((Inr ok, p'), m')"
  shows "live_socks m' + (wport_holds p + wsocket_holds s) = live_socks m + wport_holds p'"
    "live_services m' = live_services m" "socks_respected m'" "win_frame m m'"
proof -
  obtain p1 m1 where c: "wserial_close e p m = (p1, m1)" by (metis prod.collapse)
  note cl = wserial_close_effect [OF c]
  have o: "wport_holds p \<subseteq># live_socks m" using own(1) by (rule subset_mset.order_trans [rotated]) simp
  have acc: "live_socks m1 + wport_holds p = live_socks m" using cl(2) o by simp
  have resp: "socks_respected m1" using cl(7) o own(2) by simp
  have sub: "wsocket_holds s \<subseteq># live_socks m1"
    using own(1) unfolding acc [symmetric] by (simp add: ac_simps)
  have "live_socks m' + (wport_holds p + wsocket_holds s) = live_socks m + wport_holds p' \<and> live_services m' = live_services m
    \<and> socks_respected m' \<and> win_frame m m'"
  proof (cases "wsocket_is_open s")
    case False
    then have "p' = p1" "m' = m1"
      using a c by (auto simp: wserial_attach_def wsocket_destroy_def wsocket_is_open_def split: option.splits)
    with cl acc resp False show ?thesis by (simp add: wport_holds_def wsocket_holds_def)
  next
    case True
    have ad: "wserial_adopt e (Some s) p1 m1 = ((Inr ok, p'), m')" using a c True by (simp add: wserial_attach_def)
    have via: "win_via s m1 m'" "wport_holds p' = wsocket_holds s"
      using wserial_adopt_effect [OF ad] by (simp_all add: wport_holds_def)
    have "live_socks m' = live_socks m1 \<and> live_services m' = live_services m1 \<and> socks_respected m' \<and> win_frame m1 m'"
      using via(1) resp sub True by (auto simp: win_via_def win_io_def wsocket_holds_def)
    with cl acc via(2) win_frame_trans [OF cl(4)] show ?thesis by (simp add: ac_simps flip: acc)
  qed
  then show "live_socks m' + (wport_holds p + wsocket_holds s) = live_socks m + wport_holds p'"
    "live_services m' = live_services m" "socks_respected m'" "win_frame m m'" by blast+
qed

end
