(* ===== verification/Win_Api.thy ===== *)
theory Win_Api
  imports Serial_Win_Frame Ownership
begin

text \<open>
  Programs that use the Windows build of the library, as a transition system: a list of sockets, servers,
  registrations and serial ports over one machine, and one step per construction, destruction, move or call of the
  API, in any order and over an arbitrary Winsock. The invariant says that the objects own everything that is
  open or published, that no call is made on anything else, that every lookup is ended, and that Winsock is
  started once and before every other call.

  Queries that make no call and change nothing are not steps. Left out are the calls whose behaviour C++ does
  not define (a method of a moved-from object that dereferences its null \<open>pimpl_\<close>) and
  \<open>Socket::from_native\<close> and \<open>underlying_socket\<close>, by which a caller can break the ownership from outside.
\<close>

section \<open>Objects\<close>

datatype wobj = WOSock wsocket | WOServ wserver | WOReg win_registration | WOPort wserial_port

primrec wobj_socks :: "wobj \<Rightarrow> win_socket multiset" where
  "wobj_socks (WOSock s) = wsocket_holds s"
| "wobj_socks (WOServ v) = wserver_fds v"
| "wobj_socks (WOReg g) = {#}"
| "wobj_socks (WOPort p) = wport_holds p"

primrec wobj_services :: "wobj \<Rightarrow> query_set multiset" where
  "wobj_services (WOSock s) = {#}"
| "wobj_services (WOServ v) = wserver_services v"
| "wobj_services (WOReg g) = win_services g"
| "wobj_services (WOPort p) = {#}"

primrec wobj_valid :: "wobj \<Rightarrow> bool" where
  "wobj_valid (WOSock s) = True"
| "wobj_valid (WOServ v) = wserver_valid v"
| "wobj_valid (WOReg g) = True"
| "wobj_valid (WOPort p) = True"

text \<open>Every object but a port without a socket starts Winsock when it is made.\<close>

primrec wobj_up :: "wobj \<Rightarrow> bool" where
  "wobj_up (WOSock s) = True"
| "wobj_up (WOServ v) = True"
| "wobj_up (WOReg g) = True"
| "wobj_up (WOPort p) = (serial_underlying_socket p \<noteq> None)"

text \<open>The destructors, and what moving from an object leaves behind.\<close>

primrec wobj_destroy :: "'w wenv \<Rightarrow> wobj \<Rightarrow> 'w wmachine \<Rightarrow> 'w wmachine" where
  "wobj_destroy e (WOSock s) m = wsocket_destroy e s m"
| "wobj_destroy e (WOServ v) m = wserver_destroy e v m"
| "wobj_destroy e (WOReg g) m = win_registration_destroy e g m"
| "wobj_destroy e (WOPort p) m = wserial_destroy e p m"

primrec wobj_move :: "wobj \<Rightarrow> wobj \<times> wobj" where
  "wobj_move (WOSock s) = (let (new, old) = wsocket_move s in (WOSock new, WOSock old))"
| "wobj_move (WOServ v) = (let (new, old) = wserver_move v in (WOServ new, WOServ old))"
| "wobj_move (WOReg g) = (let (new, old) = win_registration_move g in (WOReg new, WOReg old))"
| "wobj_move (WOPort p) = (let (new, old) = serial_move p in (WOPort new, WOPort old))"

definition null_wobj :: wobj where
  "null_wobj = WOPort (SerialPort None)"

lemma null_wobj [simp]: "wobj_socks null_wobj = {#}" "wobj_services null_wobj = {#}" "wobj_valid null_wobj" "\<not> wobj_up null_wobj"
  by (simp_all add: null_wobj_def wport_holds_def)

section \<open>Calls and steps\<close>

inductive wapi_call :: "'w wenv \<Rightarrow> wobj \<Rightarrow> 'w wmachine \<Rightarrow> wobj \<Rightarrow> 'w wmachine \<Rightarrow> bool" for e where
  wsock_close: "wsocket_close e s m = (s', m') \<Longrightarrow> wapi_call e (WOSock s) m (WOSock s') m'"
| wsock_send: "wsocket_send e s d m = (r, m') \<Longrightarrow> wapi_call e (WOSock s) m (WOSock s) m'"
| wsock_send_all: "wsocket_send_all e s d m = (ok, m') \<Longrightarrow> wapi_call e (WOSock s) m (WOSock s) m'"
| wsock_recv: "wsocket_recv e s b m = (x, m') \<Longrightarrow> wapi_call e (WOSock s) m (WOSock s) m'"
| wsock_recv_all: "wsocket_recv_all e s b m = (y, m') \<Longrightarrow> wapi_call e (WOSock s) m (WOSock s) m'"
| wsock_recv_some: "wsocket_recv_some e s n m = (bs, m') \<Longrightarrow> wapi_call e (WOSock s) m (WOSock s) m'"
| wsock_buffers: "wsocket_set_buffer_sizes e s i j m = (ok, m') \<Longrightarrow> wapi_call e (WOSock s) m (WOSock s) m'"
| wsock_timeouts: "wsocket_set_timeouts e s i j m = (ok, m') \<Longrightarrow> wapi_call e (WOSock s) m (WOSock s) m'"
| wsock_blocking: "wsocket_set_blocking e s bl m = (ok, m') \<Longrightarrow> wapi_call e (WOSock s) m (WOSock s) m'"
| wserv_listen: "wserver_listen e v ch n m = ((Inr ok, v'), m') \<Longrightarrow> wapi_call e (WOServ v) m (WOServ v') m'"
| wserv_listen_sdp: "wserver_listen_with_sdp e v u nm ch n m = ((Inr ok, v'), m') \<Longrightarrow> wapi_call e (WOServ v) m (WOServ v') m'"
| wserv_close: "wserver_close e v m = (v', m') \<Longrightarrow> wapi_call e (WOServ v) m (WOServ v') m'"
| wreg_unregister: "win_registration_unregister e g m = (g', m') \<Longrightarrow> wapi_call e (WOReg g) m (WOReg g') m'"
| wserv_accept_none: "wserver_accept e v m = (None, m') \<Longrightarrow> wapi_call e (WOServ v) m (WOServ v) m'"
| wport_close: "wserial_close e p m = (p', m') \<Longrightarrow> wapi_call e (WOPort p) m (WOPort p') m'"
| wport_settings: "wserial_set_timeouts e p rt wt m = (p', m') \<Longrightarrow> wapi_call e (WOPort p) m (WOPort p') m'"
| wport_reads: "wserial_read e p b m = ((x, p'), m') \<Longrightarrow> wapi_call e (WOPort p) m (WOPort p') m'"
| wport_reads_exact: "wserial_read_exact e p b m = ((y, p'), m') \<Longrightarrow> wapi_call e (WOPort p) m (WOPort p') m'"
| wport_reads_byte: "wserial_read_byte e p m = ((ob, p'), m') \<Longrightarrow> wapi_call e (WOPort p) m (WOPort p') m'"
| wport_reads_line: "wserial_read_line e p d t m = Some ((l, p'), m') \<Longrightarrow> wapi_call e (WOPort p) m (WOPort p') m'"
| wport_purges: "wserial_purge e p fl m = Some (p', m') \<Longrightarrow> wapi_call e (WOPort p) m (WOPort p') m'"
| wport_writes: "wserial_write e p bs m = (n, m') \<Longrightarrow> wapi_call e (WOPort p) m (WOPort p) m'"
| wport_writes_line: "wserial_write_line e p l eol m = (ok, m') \<Longrightarrow> wapi_call e (WOPort p) m (WOPort p) m'"
| wport_queue: "wserial_get_rx_queue_status e p m = (q, m') \<Longrightarrow> wapi_call e (WOPort p) m (WOPort p) m'"
| wport_baud: "wapi_call e (WOPort p) m (WOPort (serial_set_baud_rate b p)) m"
| wport_characteristics: "wapi_call e (WOPort p) m (WOPort (serial_set_data_characteristics db sb y p)) m"
| wport_flow: "wapi_call e (WOPort p) m (WOPort (serial_set_flow_control fc p)) m"
| wport_dtr: "wapi_call e (WOPort p) m (WOPort (serial_set_dtr x p)) m"
| wport_rts: "wapi_call e (WOPort p) m (WOPort (serial_set_rts x p)) m"

inductive wapi_step :: "'w wenv \<Rightarrow> wobj list \<times> 'w wmachine \<Rightarrow> wobj list \<times> 'w wmachine \<Rightarrow> bool" for e where
  new_wsocket: "wsocket_new e m = (s, m') \<Longrightarrow> wapi_step e (os, m) (os @ [WOSock s], m')"
| new_wserver: "wserver_new e m = (v, m') \<Longrightarrow> wapi_step e (os, m) (os @ [WOServ v], m')"
| new_wregistration: "win_registration_new e m = (g, m') \<Longrightarrow> wapi_step e (os, m) (os @ [WOReg g], m')"
| wcall: "i < length os \<Longrightarrow> wapi_call e (os ! i) m x m' \<Longrightarrow> wapi_step e (os, m) (os[i := x], m')"
| wdestroy: "i < length os \<Longrightarrow> wapi_step e (os, m) (take i os @ drop (Suc i) os, wobj_destroy e (os ! i) m)"
| wmove: "i < length os \<Longrightarrow> wobj_move (os ! i) = (new, old) \<Longrightarrow> wapi_step e (os, m) (os[i := old] @ [new], m)"
| wmove_assign: "i < length os \<Longrightarrow> j < length os \<Longrightarrow> i \<noteq> j \<Longrightarrow> wobj_move (os ! j) = (new, old) \<Longrightarrow>
    wapi_step e (os, m) (os[i := new, j := old], wobj_destroy e (os ! i) m)"
| waccept: "i < length os \<Longrightarrow> os ! i = WOServ v \<Longrightarrow> wserver_accept e v m = (Some s, m') \<Longrightarrow>
    wapi_step e (os, m) (os @ [WOSock s], m')"
| wconnect: "win_client_connect e a ch t m = (r, m') \<Longrightarrow>
    wapi_step e (os, m) (os @ (case r of None \<Rightarrow> [] | Some s \<Rightarrow> [WOSock s]), m')"
| wconnect_by_sdp: "win_client_connect_by_sdp e a u t m = (r, m') \<Longrightarrow>
    wapi_step e (os, m) (os @ (case r of None \<Rightarrow> [] | Some s \<Rightarrow> [WOSock s]), m')"
| wpublish: "win_registration_create e ch u nm prov m = (r, m') \<Longrightarrow>
    wapi_step e (os, m) (os @ (case r of None \<Rightarrow> [] | Some g \<Rightarrow> [WOReg g]), m')"
| wresolve: "win_resolve_channel e a u m = (c, m') \<Longrightarrow> wapi_step e (os, m) (os, m')"
| new_wport: "wapi_step e (os, m) (os @ [WOPort serial_new], m)"
| wopen: "i < length os \<Longrightarrow> os ! i = WOPort p \<Longrightarrow> wserial_open e p a ch t m = ((Inr ok, p'), m') \<Longrightarrow>
    wapi_step e (os, m) (os[i := WOPort p'], m')"
| wopen_mac: "i < length os \<Longrightarrow> os ! i = WOPort p \<Longrightarrow> wserial_open_mac e p mac ch t m = ((Inr ok, p'), m') \<Longrightarrow>
    wapi_step e (os, m) (os[i := WOPort p'], m')"
| wopen_uuid: "i < length os \<Longrightarrow> os ! i = WOPort p \<Longrightarrow> wserial_open_by_uuid e p a u t m = ((Inr ok, p'), m') \<Longrightarrow>
    wapi_step e (os, m) (os[i := WOPort p'], m')"
| wopen_text: "i < length os \<Longrightarrow> os ! i = WOPort p \<Longrightarrow> wserial_open_by_uuid_text e p mac us t m = ((Inr ok, p'), m') \<Longrightarrow>
    wapi_step e (os, m) (os[i := WOPort p'], m')"
| wattach: "i < length os \<Longrightarrow> j < length os \<Longrightarrow> i \<noteq> j \<Longrightarrow> os ! i = WOPort p \<Longrightarrow> os ! j = WOSock s \<Longrightarrow>
    wserial_attach e p (Some s) m = ((Inr ok, p'), m') \<Longrightarrow>
    wapi_step e (os, m) (os[i := WOPort p', j := null_wobj], m')"

section \<open>The invariant\<close>

definition wsys_inv :: "wobj list \<times> 'w wmachine \<Rightarrow> bool" where
  "wsys_inv = (\<lambda>(os, m). list_all wobj_valid os \<and> live_socks m = owned_by wobj_socks os \<and>
     live_services m = owned_by wobj_services os \<and> live_lookups m = {#} \<and>
     socks_respected m \<and> lookups_respected m \<and> started_first m \<and> ((\<exists>x \<in> set os. wobj_up x) \<longrightarrow> wsa_up m))"

definition wobj_owned :: "wobj \<Rightarrow> 'w wmachine \<Rightarrow> bool" where
  "wobj_owned x m \<longleftrightarrow> wobj_valid x \<and> wobj_socks x \<subseteq># live_socks m \<and> wobj_services x \<subseteq># live_services m \<and>
     socks_respected m"

text \<open>One object changes, and what is held changes by the difference.\<close>

definition wbalanced :: "wobj \<Rightarrow> 'w wmachine \<Rightarrow> wobj \<Rightarrow> 'w wmachine \<Rightarrow> bool" where
  "wbalanced x m x' m' \<longleftrightarrow> wobj_valid x' \<and> live_socks m' + wobj_socks x = live_socks m + wobj_socks x' \<and>
     live_services m' + wobj_services x = live_services m + wobj_services x' \<and> socks_respected m' \<and> win_frame m m' \<and>
     (wobj_up x \<or> m' = m \<and> \<not> wobj_up x')"

lemma wsys_inv_up: "wsys_inv (os, m) \<Longrightarrow> i < length os \<Longrightarrow> wobj_up (os ! i) \<Longrightarrow> wsa_up m"
  by (auto simp: wsys_inv_def)

lemma wsys_inv_owned: "wsys_inv (os, m) \<Longrightarrow> i < length os \<Longrightarrow> wobj_owned (os ! i) m"
  by (simp add: wsys_inv_def wobj_owned_def list_all_length owned_by_part)

lemma started_update:
  assumes "started_first m" "(\<exists>x \<in> set os. wobj_up x) \<longrightarrow> wsa_up m" "win_frame m m'"
    and "wsa_up m \<or> m' = m \<and> \<not> (\<exists>x \<in> set os'. wobj_up x)"
  shows "started_first m' \<and> ((\<exists>x \<in> set os'. wobj_up x) \<longrightarrow> wsa_up m')"
  using assms by (auto simp: win_frame_def)

lemma wsys_inv_update:
  assumes "wsys_inv (os, m)" "i < length os" "wbalanced (os ! i) m x m'"
  shows "wsys_inv (os[i := x], m')"
proof -
  have "list_all wobj_valid (os[i := x])"
    using assms by (auto simp: wsys_inv_def wbalanced_def list_all_length nth_list_update)
  moreover have "wsa_up m \<or> m' = m \<and> \<not> (\<exists>x \<in> set (os[i := x]). wobj_up x)"
    using assms(1,3) wsys_inv_up [OF assms(1,2)] set_update_subset_insert [of os i x]
    by (auto simp: wsys_inv_def wbalanced_def)
  then have "started_first m' \<and> ((\<exists>x \<in> set (os[i := x]). wobj_up x) \<longrightarrow> wsa_up m')"
    using assms(1,3) by (intro started_update [of m os m']) (simp_all add: wsys_inv_def wbalanced_def)
  moreover have "live_lookups m' = {#}" "lookups_respected m'" "socks_respected m'"
    using assms(1,3) by (simp_all add: wsys_inv_def wbalanced_def win_frame_def)
  moreover have "live_socks m' = owned_by wobj_socks (os[i := x])" "live_services m' = owned_by wobj_services (os[i := x])"
    using assms(1,3) by (simp_all add: wsys_inv_def wbalanced_def owned_by_balance [OF assms(2)])
  ultimately show ?thesis by (simp add: wsys_inv_def)
qed

section \<open>Every call is balanced\<close>

lemma wbalanced_via: "win_via s m m' \<Longrightarrow> wobj_owned (WOSock s) m \<Longrightarrow> wbalanced (WOSock s) m (WOSock s) m'"
  by (auto simp: win_via_def win_io_def wbalanced_def wobj_owned_def wsocket_holds_def single_subset_iff split: if_splits)

lemma wbalanced_sock_close:
  assumes "wsocket_close e s m = (s', m')" "wobj_owned (WOSock s) m"
  shows "wbalanced (WOSock s) m (WOSock s') m'"
proof -
  have o: "wsocket_holds s \<subseteq># live_socks m" "socks_respected m" using assms(2) by (simp_all add: wobj_owned_def)
  have "win_frame m m' \<and> live_services m' = live_services m \<and> socks_respected m'"
    using assms(1) o
    by (auto simp: wsocket_close_def win_close_socket_handle_def win_close_def wsocket_defs
        intro: win_frame_emit split: option.splits if_splits)
  then show ?thesis
    using wsocket_closable.close_accounts [OF _ o(1) assms(1)] wsocket_closable.close_shuts [OF _ assms(1)]
    by (simp add: wbalanced_def)
qed

lemma wserver_owned_obj: "wobj_owned (WOServ v) m \<longleftrightarrow> wserver_owned v m"
  by (auto simp: wobj_owned_def wserver_owned_def)

lemma wbalanced_serv_close:
  assumes "wserver_close e v m = (v', m')" "wobj_owned (WOServ v) m"
  shows "wbalanced (WOServ v) m (WOServ v') m'"
proof -
  have o: "wserver_owned v m" using assms(2) by (simp add: wserver_owned_obj)
  show ?thesis
    using wserver_close_accounts [OF o assms(1)] wserver_close_effect [OF assms(1)] started_server_close [OF assms(1)]
    by (simp add: wbalanced_def)
qed

lemma wbalanced_serv_listen:
  assumes "wserver_listen e v ch n m = ((Inr ok, v'), m')" "wobj_owned (WOServ v) m"
  shows "wbalanced (WOServ v) m (WOServ v') m'"
proof -
  have o: "wserver_owned v m" using assms(2) by (simp add: wserver_owned_obj)
  have p: "wserver_pimpl v \<noteq> None" using assms(1) by (auto simp: wserver_listen_def split: option.splits)
  obtain v0 m0 where c: "wserver_close e v m = (v0, m0)" by (metis prod.collapse)
  note eff = wserver_listen_effect [OF c p assms(1)] and acc = wserver_close_accounts [OF o c]
  then show ?thesis using started_listen [OF assms(1)] by (simp add: wbalanced_def ac_simps)
qed

lemma wbalanced_serv_listen_sdp:
  assumes "wserver_listen_with_sdp e v u nm ch n m = ((Inr ok, v'), m')" "wobj_owned (WOServ v) m"
  shows "wbalanced (WOServ v) m (WOServ v') m'"
proof -
  have o: "wserver_owned v m" using assms(2) by (simp add: wserver_owned_obj)
  have p: "wserver_pimpl v \<noteq> None"
    using assms(1) by (auto simp: wserver_listen_with_sdp_def wserver_listen_def split: option.splits)
  obtain v0 m0 where c: "wserver_close e v m = (v0, m0)" by (metis prod.collapse)
  show ?thesis
    using wserver_publish_effect [OF o p c assms(1)] started_listen_with_sdp [OF assms(1)]
    by (simp add: wbalanced_def wserver_owned_def)
qed

lemma wbalanced_serv_accept_none:
  assumes "wserver_accept e v m = (None, m')" "wobj_owned (WOServ v) m"
  shows "wbalanced (WOServ v) m (WOServ v) m'"
  using wserver_accept_effect [OF _ assms(1)] started_accept [OF assms(1)] assms(2)
  by (simp add: wserver_owned_obj wserver_owned_def wbalanced_def)

lemma wbalanced_unregister:
  assumes "win_registration_unregister e g m = (g', m')" "wobj_owned (WOReg g) m"
  shows "wbalanced (WOReg g) m (WOReg g') m'"
proof -
  have o: "win_services g \<subseteq># live_services m" "socks_respected m" using assms(2) by (simp_all add: wobj_owned_def)
  show ?thesis
    using win_service.close_accounts [OF _ o(1) assms(1)] win_service.close_shuts [OF _ assms(1)]
      win_unregister_io [OF assms(1)] started_unregister [OF assms(1)] o(2)
    by (simp add: wbalanced_def same_win_io_def)
qed

lemmas wbalanced_objects = wbalanced_sock_close wbalanced_serv_close wbalanced_serv_listen wbalanced_serv_listen_sdp
  wbalanced_serv_accept_none wbalanced_unregister

text \<open>The methods of a port.\<close>

lemma wbalanced_port_via: "wport_via p m p' m' \<Longrightarrow> wobj_owned (WOPort p) m \<Longrightarrow> wbalanced (WOPort p) m (WOPort p') m'"
  by (cases "serial_underlying_socket p")
    (auto simp: wport_via_def win_via_def win_io_def wbalanced_def wobj_owned_def wport_holds_def wsocket_holds_def
      single_subset_iff split: if_splits)

lemma wbalanced_port_close:
  assumes "wserial_close e p m = (p', m')" "wobj_owned (WOPort p) m"
  shows "wbalanced (WOPort p) m (WOPort p') m'"
  using wserial_close_effect [OF assms(1)] assms(2) by (auto simp: wbalanced_def wobj_owned_def wport_holds_def)

lemma underlying_set [simp]:
  "serial_underlying_socket (serial_set_baud_rate b p) = serial_underlying_socket p"
  "serial_underlying_socket (serial_set_data_characteristics db sb y p) = serial_underlying_socket p"
  "serial_underlying_socket (serial_set_flow_control fc p) = serial_underlying_socket p"
  "serial_underlying_socket (serial_set_dtr x p) = serial_underlying_socket p"
  "serial_underlying_socket (serial_set_rts x p) = serial_underlying_socket p"
  by (simp_all add: serial_set_baud_rate_def serial_set_data_characteristics_def serial_set_flow_control_def
      serial_set_dtr_def serial_set_rts_def map_serial_def serial_underlying_socket_def split: option.split)

lemma wport_settings_via:
  "serial_underlying_socket p' = serial_underlying_socket p \<Longrightarrow> wport_via p m p' m"
  by (simp add: wport_via_def split: option.split)

lemma wapi_call_balanced: "wapi_call e x m x' m' \<Longrightarrow> wobj_owned x m \<Longrightarrow> wbalanced x m x' m'"
  by (induction rule: wapi_call.induct)
    (blast intro: wbalanced_objects win_via_facts [THEN wbalanced_via] wbalanced_port_close
      wport_facts [THEN wbalanced_port_via] wbalanced_port_via [OF wport_settings_via] underlying_set)+

lemma wobj_destroy_balanced:
  assumes "wobj_owned x m"
  shows "wbalanced x m null_wobj (wobj_destroy e x m)"
proof (cases x)
  case (WOSock s)
  obtain s' m' where c: "wsocket_close e s m = (s', m')" by (metis prod.collapse)
  from wbalanced_sock_close [OF c] assms WOSock c wsocket_closable.close_shuts [OF _ c] show ?thesis
    by (simp add: wbalanced_def wsocket_destroy_close)
next
  case (WOServ v)
  obtain v' m' where c: "wserver_close e v m = (v', m')" by (metis prod.collapse)
  from wbalanced_serv_close [OF c] assms WOServ c wserver_close_effect [OF c] show ?thesis
    by (simp add: wbalanced_def wserver_destroy_close)
next
  case (WOReg g)
  obtain g' m' where c: "win_registration_unregister e g m = (g', m')" by (metis prod.collapse)
  from wbalanced_unregister [OF c] assms WOReg c win_service.close_shuts [OF _ c] show ?thesis
    by (simp add: wbalanced_def win_registration_destroy_unregister)
next
  case (WOPort p)
  obtain p' m' where c: "wserial_close e p m = (p', m')" by (metis prod.collapse)
  from wbalanced_port_close [OF c] assms WOPort c wserial_close_effect(1) [OF c] show ?thesis
    by (simp add: wbalanced_def wserial_destroy_close wport_holds_def)
qed

lemma wobj_move_transfers:
  assumes "wobj_move x = (new, old)" "wobj_valid x"
  shows "wobj_valid new \<and> wobj_valid old \<and> wobj_socks new = wobj_socks x \<and> wobj_socks old = {#}
    \<and> wobj_services new = wobj_services x \<and> wobj_services old = {#} \<and> (wobj_up new \<or> wobj_up old \<longrightarrow> wobj_up x)"
  using assms
  by (cases x) (auto simp: serial_move_def wport_holds_def serial_underlying_socket_def wsocket_defs wserver_defs win_services_def win_registration_move_def
      wsocket_move_def wserver_move_def)

section \<open>Every step keeps the invariant\<close>

lemma wsys_inv_pair:
  assumes "wsys_inv (os, m)" "i < length os" "j < length os" "i \<noteq> j" "wobj_valid x" "wobj_valid y"
    and "live_socks m' + (wobj_socks (os ! i) + wobj_socks (os ! j)) = live_socks m + (wobj_socks x + wobj_socks y)"
    and "live_services m' + (wobj_services (os ! i) + wobj_services (os ! j)) =
      live_services m + (wobj_services x + wobj_services y)"
    and "socks_respected m'" "win_frame m m'"
    and "wobj_up (os ! i) \<or> wobj_up (os ! j) \<or> m' = m \<and> \<not> wobj_up x \<and> \<not> wobj_up y"
  shows "wsys_inv (os[i := x, j := y], m')"
proof -
  have up: "wsa_up m \<or> m' = m \<and> \<not> (\<exists>x \<in> set (os[i := x, j := y]). wobj_up x)"
    using assms(1,11) wsys_inv_up [OF assms(1,2)] wsys_inv_up [OF assms(1,3)] set_update_subset_insert [of "os[i := x]" j y]
      set_update_subset_insert [of os i x]
    by (auto simp: wsys_inv_def)
  have "list_all wobj_valid (os[i := x, j := y])"
    using assms(1-6) by (auto simp: wsys_inv_def list_all_length nth_list_update)
  then show ?thesis
    using assms(1,7-10) started_update [OF _ _ assms(10) up]
    by (auto simp: wsys_inv_def win_frame_def intro: owned_by_balance2 [OF assms(2-4)])
qed

lemma wsys_inv_remove:
  assumes "wsys_inv (os[i := null_wobj], m)" "i < length os"
  shows "wsys_inv (take i os @ drop (Suc i) os, m)"
  using assms by (simp add: upd_conv_take_nth_drop wsys_inv_def)

text \<open>A new object, or none, from a call that may start Winsock.\<close>

lemma wsys_inv_new:
  assumes "wsys_inv (os, m)" "win_frame (winsock_ensure e m) m'" "list_all wobj_valid xs" "socks_respected m'"
    and "live_socks m' = live_socks m + owned_by wobj_socks xs" "live_services m' = live_services m + owned_by wobj_services xs"
  shows "wsys_inv (os @ xs, m')"
proof -
  have "wsa_up m' \<and> started_first m'"
    using assms(1,2) by (simp add: wsys_inv_def win_frame_def)
  with assms show ?thesis by (simp add: wsys_inv_def win_frame_def)
qed

text \<open>A port is opened: its socket changes, and Winsock may be started for the first time.\<close>

lemma wsys_inv_port: "wsys_inv (os, m) \<Longrightarrow> i < length os \<Longrightarrow> os ! i = WOPort p \<Longrightarrow> wport_owned p m"
  using wsys_inv_owned [of os m i] wsys_inv_up [of os m i] by (simp add: wobj_owned_def wport_owned_def)

lemma wsys_inv_reopened:
  assumes "wsys_inv (os, m)" "i < length os" "os ! i = WOPort p"
    and "wport_owned p m \<Longrightarrow> p' = p \<and> m' = m \<or> wreopened e p m p' m'"
  shows "wsys_inv (os[i := WOPort p'], m')"
proof (cases "p' = p \<and> m' = m")
  case True
  then show ?thesis using assms(1,3) list_update_id [of os i] by simp
next
  case False
  then have ro: "wreopened e p m p' m'" using assms(4) wsys_inv_port [OF assms(1-3)] by blast
  have "wsa_up m' \<and> started_first m'"
    using assms(1) ro by (simp add: wsys_inv_def wreopened_def win_frame_def)
  moreover have "list_all wobj_valid (os[i := WOPort p'])"
    using assms(1,2) by (auto simp: wsys_inv_def list_all_length nth_list_update)
  ultimately show ?thesis
    using assms(1-3) ro by (auto simp: wsys_inv_def wreopened_def win_frame_def intro: owned_by_balance [OF assms(2)])
qed

text \<open>The two connecting calls make a socket or nothing.\<close>

lemma wsys_inv_connected:
  assumes "wsys_inv (os, m)" "win_frame (winsock_ensure e m) m'" "live_services m' = live_services m"
    and "socks_respected m' = socks_respected m"
    and "case r of None \<Rightarrow> live_socks m' = live_socks m | Some s \<Rightarrow> live_socks m' = live_socks m + wsocket_holds s"
  shows "wsys_inv (os @ (case r of None \<Rightarrow> [] | Some s \<Rightarrow> [WOSock s]), m')"
proof -
  have "socks_respected m" using assms(1) by (simp add: wsys_inv_def)
  then show ?thesis
    using assms(3-5) by (intro wsys_inv_new [OF assms(1,2)]) (auto split: option.splits)
qed

text \<open>A move makes a new object and leaves the old one empty.\<close>

lemma wsys_inv_moved:
  assumes "wsys_inv (os, m)" "i < length os" "wobj_move (os ! i) = (new, old)"
  shows "wsys_inv (os[i := old] @ [new], m)"
proof -
  have v: "wobj_valid (os ! i)" using wsys_inv_owned [OF assms(1,2)] by (simp add: wobj_owned_def)
  have ext: "wsys_inv (os @ [null_wobj], m)" "socks_respected m" using assms(1) by (simp_all add: wsys_inv_def)
  have "wsys_inv ((os @ [null_wobj])[i := old, length os := new], m)"
    by (rule wsys_inv_pair [OF ext(1)])
      (use assms(2) ext(2) wobj_move_transfers [OF assms(3) v] in \<open>auto simp: nth_append\<close>)
  with assms(2) show ?thesis by (simp add: list_update_append)
qed

lemma wsys_inv_move_assigned:
  assumes "wsys_inv (os, m)" "i < length os" "j < length os" "i \<noteq> j" "wobj_move (os ! j) = (new, old)"
  shows "wsys_inv (os[i := new, j := old], wobj_destroy e (os ! i) m)"
proof -
  have o: "wobj_owned (os ! i) m" "wobj_valid (os ! j)"
    using wsys_inv_owned [OF assms(1)] assms(2,3) by (auto simp: wobj_owned_def)
  note b = wobj_destroy_balanced [OF o(1), of e]
  show ?thesis
    by (rule wsys_inv_pair [OF assms(1-4)])
      (use b wobj_move_transfers [OF assms(5) o(2)] in \<open>auto simp: wbalanced_def simp flip: add.assoc\<close>)
qed

lemma wsys_inv_attached:
  assumes "wsys_inv (os, m)" "i < length os" "j < length os" "i \<noteq> j" "os ! i = WOPort p" "os ! j = WOSock s"
    and "wserial_attach e p (Some s) m = ((Inr ok, p'), m')"
  shows "wsys_inv (os[i := WOPort p', j := null_wobj], m')"
proof -
  have inv: "socks_respected m" "live_socks m = owned_by wobj_socks os" using assms(1) by (simp_all add: wsys_inv_def)
  have "wport_holds p + wsocket_holds s \<subseteq># live_socks m"
    using owned_by_pair [OF assms(2,3,4), of wobj_socks null_wobj] assms(5,6) inv(2) by simp
  note eff = wserial_attach_effect [OF this inv(1) assms(7)]
  show ?thesis
    by (rule wsys_inv_pair [OF assms(1-4)]) (use eff assms(5,6) in simp_all)
qed

lemma wapi_step_inv: "wapi_step e c c' \<Longrightarrow> wsys_inv c \<Longrightarrow> wsys_inv c'"
proof (induction rule: wapi_step.induct)
  case (new_wsocket m s m' os)
  then show ?case
    by (intro wsys_inv_new [where m = m and e = e])
      (auto simp: wsocket_new_def wsys_inv_def wsocket_defs wsocket_impl_default_def)
next
  case (new_wserver m v m' os)
  then show ?case
    by (intro wsys_inv_new [where m = m and e = e]) (auto simp: wserver_new_def wsys_inv_def wserver_defs)
next
  case (new_wregistration m g m' os)
  then show ?case
    by (intro wsys_inv_new [where m = m and e = e])
      (auto simp: win_registration_new_def win_registration_impl_default_def wsys_inv_def win_services_def)
next
  case (wcall i os m x m')
  then show ?case by (meson wapi_call_balanced wsys_inv_owned wsys_inv_update)
next
  case (wdestroy i os m)
  then show ?case by (meson wobj_destroy_balanced wsys_inv_owned wsys_inv_update wsys_inv_remove)
next
  case (wmove i os new old m)
  then show ?case by (blast intro: wsys_inv_moved)
next
  case (wmove_assign i os j new old m)
  then show ?case by (blast intro: wsys_inv_move_assigned)
next
  case (waccept i os v m s m')
  have o: "wserver_owned v m"
    using wsys_inv_owned [OF waccept(4,1)] waccept(2) by (simp add: wserver_owned_obj)
  have "wsa_up m" using wsys_inv_up [OF waccept(4,1)] waccept(2) by simp
  then have "winsock_ensure e m = m" by (simp add: winsock_ensure_def)
  with wserver_accept_effect [OF o waccept(3)] started_accept [OF waccept(3)] show ?case
    by (intro wsys_inv_new [OF waccept(4), where e = e]) simp_all
next
  case (wconnect a ch t m r m' os)
  note eff = win_client_connect_effect [OF wconnect(1)]
  show ?case
    by (rule wsys_inv_connected [OF wconnect(2) started_connect [OF wconnect(1)]]) (use eff in \<open>auto split: option.splits\<close>)
next
  case (wconnect_by_sdp a u t m r m' os)
  note led = win_connect_by_sdp_ledger [OF wconnect_by_sdp(1)]
  show ?case
    by (rule wsys_inv_connected [OF wconnect_by_sdp(2) started_connect_by_sdp [OF wconnect_by_sdp(1)] led])
next
  case (wpublish ch u nm prov m r m' os)
  have "socks_respected m" using wpublish(2) by (simp add: wsys_inv_def)
  with wpublish(1) have "live_socks m' = live_socks m \<and> socks_respected m' \<and> win_frame (winsock_ensure e m) m'
    \<and> live_services m' = live_services m + (case r of None \<Rightarrow> {#} | Some g \<Rightarrow> win_services g)"
    by (cases rule: win_create_cases) (auto intro: win_frame_emit)
  then show ?case
    by (intro wsys_inv_new [OF wpublish(2), where e = e]) (auto split: option.splits)
next
  case (wresolve a u m c m' os)
  have "wsys_inv (os @ [], m')"
    using win_resolve_ledger [OF wresolve(1)] wresolve(2)
    by (intro wsys_inv_new [OF wresolve(2) started_resolve [OF wresolve(1)]]) (simp_all add: wsys_inv_def)
  then show ?case by simp
next
  case (new_wport os m)
  then show ?case by (simp add: wsys_inv_def serial_new_def serial_impl_default_def wport_holds_def)
next
  case (wopen i os p a ch t m ok p' m')
  then show ?case by (blast intro: wsys_inv_reopened wreopened_open)
next
  case (wopen_mac i os p mac ch t m ok p' m')
  show ?case by (rule wsys_inv_reopened [OF wopen_mac(4,1,2)]) (rule wreopened_texts(1) [OF _ wopen_mac(3)])
next
  case (wopen_uuid i os p a u t m ok p' m')
  then show ?case by (blast intro: wsys_inv_reopened wreopened_open_by_uuid)
next
  case (wopen_text i os p mac us t m ok p' m')
  show ?case by (rule wsys_inv_reopened [OF wopen_text(4,1,2)]) (rule wreopened_texts(2) [OF _ wopen_text(3)])
next
  case (wattach i os j p s m ok p' m')
  then show ?case by (blast intro: wsys_inv_attached)
qed

lemma wapi_reachable_inv:
  assumes "(wapi_step e)\<^sup>*\<^sup>* ([], wboot w) c"
  shows "wsys_inv c"
  using assms
proof (induction rule: rtranclp_induct)
  case base
  then show ?case by (simp add: wsys_inv_def)
next
  case (step c c')
  then show ?case by (blast intro: wapi_step_inv)
qed

text \<open>
  C37. Windows programs own what they hold. After any sequence of API calls, constructions, moves and destructions
  of sockets, servers, registrations and serial ports on Windows, from the start of a program and over any Winsock,
  the open sockets and the published services are exactly those that the live objects hold, every lookup that was
  begun has been ended, no call was made on a socket or a lookup that was not held, and Winsock was started exactly
  once, before every other call. \<open>from_native\<close>, \<open>underlying_socket\<close> and the calls with undefined behaviour are
  not among the calls.
\<close>

theorem win_api_resources_balanced:
  assumes "(wapi_step e)\<^sup>*\<^sup>* ([], wboot w) (os, m)"
  shows "live_socks m = owned_by wobj_socks os \<and> live_services m = owned_by wobj_services os \<and> live_lookups m = {#}
    \<and> socks_respected m \<and> lookups_respected m
    \<and> (wtrace m = [] \<or> (\<exists>evs. wtrace m = WStartup # evs \<and> WStartup \<notin> set evs))"
  using wapi_reachable_inv [OF assms] by (auto simp: wsys_inv_def started_first_def split: if_splits)

theorem win_api_resources_balanced_witness:
  "\<exists>m. (wapi_step win_sim)\<^sup>*\<^sup>* ([], wboot wsim_start) ([], m) \<and> WSocket 8 \<in> set (wtrace m) \<and> live_socks m = {#}
     \<and> live_services m = {#}"
proof -
  let ?n = "wserver_new win_sim (wboot wsim_start)"
  obtain v0 m0 where n: "?n = (v0, m0)" by (metis prod.collapse)
  let ?l = "wserver_listen_with_sdp win_sim v0 uuid_serial_port ''A'' 0 4 m0"
  obtain res v m1 where l: "?l = ((res, v), m1)" by (metis prod.collapse)
  have "fst (fst (wserver_listen_with_sdp win_sim (fst ?n) uuid_serial_port ''A'' 0 4 (snd ?n))) = Inr True
    \<and> list_ex (\<lambda>x. x = WSocket 8) (wtrace (snd (wserver_listen_with_sdp win_sim (fst ?n) uuid_serial_port ''A'' 0 4 (snd ?n))))"
    by code_simp
  with n l have ok: "res = Inr True" "WSocket 8 \<in> set (wtrace m1)" by (auto simp: list_ex_iff)
  obtain v2 m2 where c: "wserver_close win_sim v m1 = (v2, m2)" by (metis prod.collapse)
  have "wapi_step win_sim ([], wboot wsim_start) ([] @ [WOServ v0], m0)" using n by (rule new_wserver)
  moreover have "wapi_step win_sim ([WOServ v0], m0) ([WOServ v0][0 := WOServ v], m1)"
    using ok(1) l by (intro wcall) (auto intro: wserv_listen_sdp)
  moreover have "wapi_step win_sim ([WOServ v], m1) (take 0 [WOServ v] @ drop (Suc 0) [WOServ v], wobj_destroy win_sim ([WOServ v] ! 0) m1)"
    by (rule wdestroy) simp
  ultimately have run: "(wapi_step win_sim)\<^sup>*\<^sup>* ([], wboot wsim_start) ([], wserver_destroy win_sim v m1)"
    by (auto intro: rtranclp_trans [OF r_into_rtranclp] r_into_rtranclp)
  have "set (wtrace m1) \<subseteq> set (wtrace (wserver_destroy win_sim v m1))"
    by (auto simp: wserver_destroy_def wserver_impl_close_def win_registration_unregister_def win_registration_impl_unregister_def
        win_registration_destroy_def win_close_socket_handle_def win_defs split: option.splits prod.splits if_splits)
  with run win_api_resources_balanced [OF run] ok(2) show ?thesis by auto
qed

end
