(* ===== verification/Transfer_Frame.thy ===== *)
theory Transfer_Frame
  imports Socket_Safety
begin

text \<open>Sending moves no inbound bytes, receiving no outbound ones, and the clock neither.\<close>

lemma recv_keeps_accepted: "socket_recv e s b m = (r, m') \<Longrightarrow> accepted h m' = accepted h m"
  by (auto simp: socket_recv_def sys_defs split: if_splits prod.splits)

lemma send_keeps_arrived: "socket_send e s d m = (r, m') \<Longrightarrow> arrived h m' = arrived h m"
  by (auto simp: socket_send_def sys_defs split: if_splits prod.splits)

lemma recv_all_loop_keeps_accepted:
  "socket_recv_all_loop e s b n m = (r, m') \<Longrightarrow> accepted h m' = accepted h m"
proof (induction e s b n m rule: socket_recv_all_loop.induct)
  case (1 e s b n m)
  obtain q c m1 where q: "socket_recv e s (drop n b) m = ((q, c), m1)" by (metis prod.collapse)
  show ?case
  proof (cases "n < length b \<and> 0 < q")
    case True
    then have "accepted h m' = accepted h m1"
      using "1.prems" q "1.IH" [OF _ q [symmetric] refl refl]
      by (simp add: socket_recv_all_loop.simps [of e s b n m])
    with recv_keeps_accepted [OF q] show ?thesis by simp
  next
    case False
    with "1.prems" q recv_keeps_accepted [OF q] show ?thesis
      by (auto simp: socket_recv_all_loop.simps [of e s b n m] split: if_splits)
  qed
qed

lemma recv_all_keeps_accepted: "socket_recv_all e s b m = (r, m') \<Longrightarrow> accepted h m' = accepted h m"
  unfolding socket_recv_all_def by (rule recv_all_loop_keeps_accepted)

lemma send_all_loop_keeps_arrived:
  "socket_send_all_loop e s d n m = (r, m') \<Longrightarrow> arrived h m' = arrived h m"
proof (induction e s d n m rule: socket_send_all_loop.induct)
  case (1 e s d n m)
  obtain q m1 where q: "socket_send e s (drop n d) m = (q, m1)" by (metis prod.collapse)
  show ?case
  proof (cases "n < length d \<and> 0 < q")
    case True
    then have "arrived h m' = arrived h m1"
      using "1.prems" q "1.IH" [OF _ q [symmetric] refl]
      by (simp add: socket_send_all_loop.simps [of e s d n m])
    with send_keeps_arrived [OF q] show ?thesis by simp
  next
    case False
    with "1.prems" q send_keeps_arrived [OF q] show ?thesis
      by (auto simp: socket_send_all_loop.simps [of e s d n m] split: if_splits)
  qed
qed

lemma send_all_keeps_arrived: "socket_send_all e s d m = (r, m') \<Longrightarrow> arrived h m' = arrived h m"
  unfolding socket_send_all_def by (rule send_all_loop_keeps_arrived)

lemma now_keeps_bytes:
  "sys_now e m = (t, m') \<Longrightarrow> accepted h m' = accepted h m \<and> arrived h m' = arrived h m"
  by (auto simp: sys_now_def split: prod.splits)

lemma via_now: "socket_is_open s \<Longrightarrow> sys_now e m = (t, m') \<Longrightarrow> via s m m'"
  by (auto simp: sys_now_def via_def split: prod.splits)

lemma now_io: "sys_now e m = (t, m') \<Longrightarrow> io_on h m m'"
  by (auto simp: sys_now_def split: prod.splits)

text \<open>Empty spans are transferred by doing nothing.\<close>

lemma transfer_empty [simp]:
  "socket_send_all e s [] m = (True, m)" "socket_recv_all e s [] m = ((True, []), m)"
  by (simp_all add: socket_send_all_def socket_send_all_loop.simps [of e s "[]" 0 m]
      socket_recv_all_def socket_recv_all_loop.simps [of e s "[]" 0 m])

end
