(* ===== verification/Serial_Quiet.thy ===== *)
theory Serial_Quiet
  imports Serial_Purge Transfer_Frame
begin

text \<open>
  What the reading methods leave alone: they send nothing, and the bytes that have arrived only grow. The
  frame rules for their loops are proved for any relation between machines.
\<close>

section \<open>Reading sends nothing\<close>

lemma read_line_loop_frame:
  assumes "read_line_loop e d t start im line m = Some y"
    and "\<And>m. R m m" "\<And>m m' m''. R m m' \<Longrightarrow> R m' m'' \<Longrightarrow> R m m''"
    and "\<And>t m m'. sys_now e m = (t, m') \<Longrightarrow> R m m'" "\<And>im r m m'. refill_rx_cache e im m = (r, m') \<Longrightarrow> R m m'"
  shows "R m (snd y)"
proof -
  have "e' = e \<longrightarrow> R m (snd y)" if "read_line_loop e' d t start im line m = Some y" for e'
    using that
  proof (rule read_line_loop.raw_induct [where P = "\<lambda>e' d t start im line m y. e' = e \<longrightarrow> R m (snd y)", rotated])
    fix rec e' d t start im line y m
    assume rec: "\<And>e' d t start im line m y. rec e' d t start im line m = Some y \<Longrightarrow> e' = e \<longrightarrow> R m (snd y)"
      and turn: "(let ((found, line), im) = scan_line d im line
        in if found then Some ((line, im), m)
           else let (expired, m) =
                   (if 0 < t then let (now, m) = sys_now e' m in (timed_out start now t, m) else (False, m))
             in if expired then Some ((line, im), m)
                else let ((ok, im), m) = refill_rx_cache e' im m
                  in if \<not> ok then Some ((line, im), m) else rec e' d t start im line m) = Some y"
    show "e' = e \<longrightarrow> R m (snd y)"
    proof
      assume e: "e' = e"
      obtain found l1 im1 where sc: "scan_line d im line = ((found, l1), im1)" by (metis prod.collapse)
      obtain expired m1 where ex: "(if 0 < t then let (now, m) = sys_now e m in (timed_out start now t, m)
          else (False, m)) = (expired, m1)" by (metis prod.collapse)
      have r1: "R m m1" using ex assms(2,4) by (auto split: if_splits prod.splits)
      obtain ok im2 m2 where rf: "refill_rx_cache e im1 m1 = ((ok, im2), m2)" by (metis prod.collapse)
      have r2: "R m m2" using assms(3) [OF r1 assms(5) [OF rf]] .
      show "R m (snd y)"
        using turn e sc ex rf assms(2) r1 r2 rec [of e d t start im2 l1 m2 y] assms(3) [OF r2]
        by (auto split: if_splits)
    qed
  qed
  with assms(1) show ?thesis by blast
qed

lemma drain_loop_frame:
  assumes "drain_loop e s b m = Some m'"
    and "\<And>m m' m''. R m m' \<Longrightarrow> R m' m'' \<Longrightarrow> R m m''" "\<And>s b r m m'. socket_recv e s b m = (r, m') \<Longrightarrow> R m m'"
  shows "R m m'"
proof -
  have "e' = e \<longrightarrow> R m m'" if "drain_loop e' s b m = Some m'" for e'
    using that
  proof (rule drain_loop.raw_induct [where P = "\<lambda>e' s b m m'. e' = e \<longrightarrow> R m m'", rotated])
    fix rec e' s b m m'
    assume rec: "\<And>e' s b m m'. rec e' s b m = Some m' \<Longrightarrow> e' = e \<longrightarrow> R m m'"
      and turn: "(let ((r, b), m) = socket_recv e' s b m in if 0 < r then rec e' s b m else Some m) = Some m'"
    obtain r b1 m1 where rc: "socket_recv e' s b m = ((r, b1), m1)" by (metis prod.collapse)
    show "e' = e \<longrightarrow> R m m'"
      using turn rc rec [of e s b1 m1 m'] assms(2) [of m m1 m'] assms(3) [of s b m "(r, b1)" m1]
      by (auto split: if_splits)
  qed
  with assms(1) show ?thesis by blast
qed

definition quiet :: "'w machine \<Rightarrow> 'w machine \<Rightarrow> bool" where
  "quiet m m' \<longleftrightarrow> (\<forall>h. accepted h m' = accepted h m) \<and> (\<forall>h. prefix (arrived h m) (arrived h m'))"

lemma quiet_refl [simp]: "quiet m m"
  by (simp add: quiet_def)

lemma quiet_trans: "quiet m m' \<Longrightarrow> quiet m' m'' \<Longrightarrow> quiet m m''"
  unfolding quiet_def by (metis prefix_order.trans)

lemma quiet_recv: "socket_recv e s b m = (r, m') \<Longrightarrow> quiet m m'"
  by (auto simp: quiet_def socket_recv_def sys_recv_def split: if_splits prod.splits)

lemma quiet_now: "sys_now e m = (t, m') \<Longrightarrow> quiet m m'"
  by (auto simp: quiet_def sys_now_def split: prod.splits)

lemma quiet_refill: "refill_rx_cache e im m = (r, m') \<Longrightarrow> quiet m m'"
  by (auto simp: refill_rx_cache_def Let_def dest: quiet_recv split: if_splits option.splits prod.splits)

lemma quiet_set_blocking: "socket_set_blocking e s b m = (r, m') \<Longrightarrow> quiet m m'"
  by (auto simp: quiet_def socket_set_blocking_def sys_defs Let_def split: if_splits prod.splits)

lemma quiet_read_line:
  assumes "serial_read_line e p d t m = Some ((line, p'), m')"
  shows "quiet m m'"
proof (cases "serial_parts p")
  case (Some ims)
  obtain im s where ims: "ims = (im, s)" by (cases ims)
  obtain start m1 where n: "sys_now e m = (start, m1)" by (metis prod.collapse)
  obtain im' where r: "read_line_loop e d t start im [] m1 = Some ((line, im'), m')"
    using assms Some ims n by (auto simp: serial_read_line_def)
  have "quiet m1 m'"
    using read_line_loop_frame [OF r, where R = quiet, OF quiet_refl quiet_trans quiet_now quiet_refill] by simp
  with quiet_now [OF n] show ?thesis by (rule quiet_trans)
qed (use assms in \<open>simp add: serial_read_line_def\<close>)

lemma quiet_purge:
  assumes "serial_purge e p flags m = Some (p', m')"
  shows "quiet m m'"
proof -
  have "quiet m1 m2" if "drain_loop e s b m1 = Some m2" for s b m1 m2
    using drain_loop_frame [OF that, of quiet] quiet_trans quiet_recv by blast
  then have turn: "quiet m1 m4" if "socket_set_blocking e s False m1 = (x, m2)" "drain_loop e s b m2 = Some m3"
      "socket_set_blocking e s True m3 = (y, m4)" for s b m1 m2 m3 m4 x y
    using that quiet_set_blocking quiet_trans by metis
  show ?thesis
    using assms by (auto simp: serial_purge_def Let_def dest: turn split: option.splits if_splits prod.splits)
qed


section \<open>A port in use\<close>

text \<open>A port in use: owned, open and with a sound cache.\<close>

definition port_ready :: "serial_port \<Rightarrow> 'w machine \<Rightarrow> bool" where
  "port_ready p m \<longleftrightarrow> serial_owned p m \<and> cache_sound p m"

lemma port_ready_open: "port_ready p m \<Longrightarrow> serial_is_open p"
  by (simp add: port_ready_def cache_sound_def)

lemma cache_sound_same_arrived:
  assumes "cache_sound p m" "arrived (serial_fd p) m' = arrived (serial_fd p) m"
  shows "cache_sound p m' \<and> consumed p m' = consumed p m"
  using assms by (simp add: cache_sound_def consumed_def)

end
