(* ===== verification/Serial_Queue.thy ===== *)
theory Serial_Queue
  imports Serial_Quiet Serial_Frame
begin

text \<open>
  The serial port as a reader of a byte queue. Each reading call takes the next bytes of the stream, as many
  as its answer shows; the other calls take none, except that a purge throws bytes away. Every sequence of
  calls on the model of \<open>SerialPort\<close> refines that queue.
\<close>

section \<open>The queue\<close>

datatype port_call =
    CRead "u8 list"
  | CReadExact "u8 list"
  | CReadByte
  | CReadLine char int
  | CPurge purge_flags
  | CWrite "u8 list"
  | CWriteLine string string
  | CQueueStatus
  | CTimeouts int int

datatype port_answer =
    ARead nat "u8 list"
  | AExact bool "u8 list"
  | AByte "u8 option"
  | ALine string
  | ACount nat
  | ABool bool
  | AStatus u64
  | ADone

text \<open>The bytes that a call with this answer can have taken from the queue.\<close>

inductive takes :: "port_call \<Rightarrow> port_answer \<Rightarrow> u8 list \<Rightarrow> bool" where
  read_some: "n \<le> length buf \<Longrightarrow> length buf' = length buf \<Longrightarrow> drop n buf' = drop n buf \<Longrightarrow>
    takes (CRead buf) (ARead n buf') (take n buf')"
| read_exact: "k \<le> length buf \<Longrightarrow> length buf' = length buf \<Longrightarrow> drop k buf' = drop k buf \<Longrightarrow>
    takes (CReadExact buf) (AExact (k = length buf) buf') (take k buf')"
| read_byte: "takes CReadByte (AByte res) (case res of None \<Rightarrow> [] | Some b \<Rightarrow> [b])"
| read_line: "line_of d got l \<Longrightarrow> takes (CReadLine d t) (ALine l) got"
| purge: "(\<not> purge_has fl PurgeRx \<Longrightarrow> got = []) \<Longrightarrow> takes (CPurge fl) ADone got"
| write_bytes: "takes (CWrite bs) (ACount n) []"
| write_line: "takes (CWriteLine l eol) (ABool ok) []"
| queue_status: "takes CQueueStatus (AStatus n) []"
| timeouts: "takes (CTimeouts rt wt) ADone []"

inductive_simps takes_byte [simp]: "takes CReadByte a got"
inductive_simps takes_line [simp]: "takes (CReadLine d t) a got"
inductive_simps takes_status [simp]: "takes CQueueStatus a got"

text \<open>A run of the queue: the bytes taken by each call, in order.\<close>

inductive queue_run :: "port_call list \<Rightarrow> port_answer list \<Rightarrow> u8 list list \<Rightarrow> bool" where
  queue_done: "queue_run [] [] []"
| queue_call: "takes c a got \<Longrightarrow> queue_run cs as gots \<Longrightarrow> queue_run (c # cs) (a # as) (got # gots)"

inductive_simps queue_run_Nil [simp]: "queue_run [] as gots"
inductive_simps queue_run_Cons [simp]: "queue_run (c # cs) as gots"

section \<open>The port\<close>

fun port_do :: "'w env \<Rightarrow> port_call \<Rightarrow> serial_port \<Rightarrow> 'w machine \<Rightarrow>
    ((port_answer \<times> serial_port) \<times> 'w machine) option" where
  "port_do e (CRead buf) p m = (let (((n, b), p), m) = serial_read e p buf m in Some ((ARead n b, p), m))"
| "port_do e (CReadExact buf) p m = (let (((ok, b), p), m) = serial_read_exact e p buf m in Some ((AExact ok b, p), m))"
| "port_do e CReadByte p m = (let ((r, p), m) = serial_read_byte e p m in Some ((AByte r, p), m))"
| "port_do e (CReadLine d t) p m = map_option (\<lambda>((l, p), m). ((ALine l, p), m)) (serial_read_line e p d t m)"
| "port_do e (CPurge fl) p m = map_option (\<lambda>(p, m). ((ADone, p), m)) (serial_purge e p fl m)"
| "port_do e (CWrite bs) p m = (let (n, m) = serial_write e p bs m in Some ((ACount n, p), m))"
| "port_do e (CWriteLine l eol) p m = (let (ok, m) = serial_write_line e p l eol m in Some ((ABool ok, p), m))"
| "port_do e CQueueStatus p m = (let (n, m) = serial_get_rx_queue_status e p m in Some ((AStatus n, p), m))"
| "port_do e (CTimeouts rt wt) p m = (let (p, m) = serial_set_timeouts e p rt wt m in Some ((ADone, p), m))"

text \<open>\<open>None\<close> when one of the calls does not return.\<close>

fun port_run :: "'w env \<Rightarrow> port_call list \<Rightarrow> serial_port \<Rightarrow> 'w machine \<Rightarrow>
    ((port_answer list \<times> serial_port) \<times> 'w machine) option" where
  "port_run e [] p m = Some (([], p), m)"
| "port_run e (c # cs) p m = (case port_do e c p m of None \<Rightarrow> None
     | Some ((a, p), m) \<Rightarrow> map_option (\<lambda>((as, p), m). ((a # as, p), m)) (port_run e cs p m))"

section \<open>Refinement\<close>

text \<open>What a call that returns does to a port in use.\<close>

definition took :: "port_call \<Rightarrow> port_answer \<Rightarrow> serial_port \<Rightarrow> 'w machine \<Rightarrow> serial_port \<Rightarrow> 'w machine \<Rightarrow> bool" where
  "took c a p m p' m' \<longleftrightarrow> port_ready p' m' \<and> serial_fd p' = serial_fd p \<and>
     (\<exists>got. takes c a got \<and> consumed p' m' = consumed p m @ got)"

lemma tookI:
  assumes "port_ready p m" "port_io p m p' m'" "cache_sound p' m'" "takes c a got" "consumed p' m' = consumed p m @ got"
  shows "took c a p m p' m'"
  using assms port_io_owned [OF assms(2)]
  by (auto simp: took_def port_ready_def port_io_def serial_fd_def)

lemma took_nothing:
  assumes "port_ready p m" "port_io p m p m'" "arrived (serial_fd p) m' = arrived (serial_fd p) m" "takes c a []"
  shows "took c a p m p m'"
  using assms cache_sound_same_arrived [of p m m'] by (intro tookI) (simp_all add: port_ready_def)

lemma write_arrived: "serial_write e p bs m = (n, m') \<Longrightarrow> arrived h m' = arrived h m"
  by (auto simp: serial_write_def dest: send_keeps_arrived split: option.splits if_splits prod.splits)

lemma write_line_arrived: "serial_write_line e p l eol m = (ok, m') \<Longrightarrow> arrived h m' = arrived h m"
  by (auto simp: serial_write_line_def dest: send_all_keeps_arrived split: option.splits prod.splits)

lemma status_arrived: "serial_get_rx_queue_status e p m = (n, m') \<Longrightarrow> arrived h m' = arrived h m"
  by (auto simp: serial_get_rx_queue_status_def sys_fionread_def Let_def split: option.splits prod.splits)

lemma timeouts_took:
  assumes "port_ready p m" "serial_set_timeouts e p rt wt m = (p', m')"
  shows "took (CTimeouts rt wt) ADone p m p' m'"
proof -
  obtain im s where p: "p = SerialPort (Some im)" "ser_sock im = Some s" "socket_is_open s"
    "serial_parts p = Some (im, s)" using port_ready_open [OF assms(1)] by (rule serial_open_cases)
  have arr: "arrived (socket_fd s) m' = arrived (socket_fd s) m"
    using assms(2) p by (auto simp: serial_set_timeouts_def socket_set_timeouts_def sys_defs Let_def split: if_splits prod.splits)
  have p': "p' = SerialPort (Some (im\<lparr>read_timeout := rt, write_timeout := wt\<rparr>))"
    using assms(2) p by (auto simp: serial_set_timeouts_def Let_def split: prod.splits)
  have "arrived (socket_fd s) m = consumed p m @ im_cache im" "rx_head im \<le> length (rx_buf im)"
    using consumed_append [of p m] assms(1) p by (simp_all add: port_ready_def cache_sound_def)
  then have "cache_sound p' m' \<and> consumed p' m' = consumed p m"
    using p p' arr by (intro consumedI) (simp_all add: im_cache_def)
  then show ?thesis
    using tookI [OF assms(1) Serial_Frame.port_set_timeouts [OF assms(2)], of _ _ "[]"] takes.timeouts by simp
qed

lemma purge_took:
  assumes "port_ready p m" "serial_purge e p fl m = Some (p', m')"
  shows "took (CPurge fl) ADone p m p' m'"
proof (cases "purge_has fl PurgeRx")
  case True
  have own: "serial_owned p m" and op: "serial_is_open p"
    using assms(1) by (simp_all add: port_ready_def cache_sound_def)
  note eff = serial_purge_effect [OF own op True assms(2)]
  have "prefix (consumed p m) (arrived (serial_fd p) m)"
    using consumed_append [of p m] assms(1) by (auto simp: port_ready_def intro: prefixI [OF sym])
  then have "prefix (consumed p m) (consumed p' m')"
    using quiet_purge [OF assms(2)] eff prefix_order.trans unfolding quiet_def by metis
  then obtain got where "consumed p' m' = consumed p m @ got" by (auto simp: prefix_def)
  moreover have "takes (CPurge fl) ADone got" using True by (intro takes.purge) simp
  ultimately show ?thesis
    using tookI [OF assms(1) Serial_Frame.port_purge [OF assms(2)]] eff by blast
next
  case False
  then have "p' = p" "m' = m" using assms(2) by (auto simp: serial_purge_def split: option.splits)
  with False assms(1) show ?thesis by (auto intro: took_nothing takes.purge)
qed

lemma port_do_took:
  assumes "recv_bounded e" "port_ready p m" "port_do e c p m = Some ((a, p'), m')"
  shows "took c a p m p' m'"
proof -
  have sound: "cache_sound p m" using assms(2) by (simp add: port_ready_def)
  show ?thesis
  proof (cases c)
    case (CRead buf)
    then obtain n b where r: "serial_read e p buf m = (((n, b), p'), m')" "a = ARead n b"
      using assms(3) by (auto split: prod.splits)
    from serial_read_effect [OF assms(1) sound r(1)] show ?thesis
      using CRead r(2) by (intro tookI [OF assms(2) Serial_Frame.port_read [OF r(1)]]) (auto intro: takes.read_some)
  next
    case (CReadExact buf)
    then obtain ok b where r: "serial_read_exact e p buf m = (((ok, b), p'), m')" "a = AExact ok b"
      using assms(3) by (auto split: prod.splits)
    from serial_read_exact_effect [OF assms(1) sound r(1)] obtain k where k: "cache_sound p' m'" "length b = length buf"
      "k \<le> length buf" "ok \<longleftrightarrow> k = length buf" "drop k b = drop k buf" "consumed p' m' = consumed p m @ take k b"
      by blast
    have "ok = (k = length buf)" using k(4) by simp
    then show ?thesis
      unfolding CReadExact r(2)
      using k takes.read_exact [of k buf b] by (intro tookI [OF assms(2) Serial_Frame.port_read_exact [OF r(1)] k(1) _ k(6)]) simp
  next
    case CReadByte
    then obtain x where r: "serial_read_byte e p m = ((x, p'), m')" "a = AByte x"
      using assms(3) by (auto split: prod.splits)
    from serial_read_byte_effect [OF assms(1) sound r(1)] show ?thesis
      using CReadByte r(2) by (intro tookI [OF assms(2) Serial_Frame.port_read_byte [OF r(1)]]) (auto intro: takes.read_byte)
  next
    case (CReadLine d t)
    then obtain l where r: "serial_read_line e p d t m = Some ((l, p'), m')" "a = ALine l"
      using assms(3) by auto
    from serial_read_line_effect [OF assms(1) sound r(1)] obtain got where "cache_sound p' m'"
      "consumed p' m' = consumed p m @ got" "line_of d got l" by blast
    then show ?thesis
      using CReadLine r(2) by (intro tookI [OF assms(2) Serial_Frame.port_read_line [OF r(1)]]) (auto intro: takes.read_line)
  next
    case (CPurge fl)
    then show ?thesis using assms(2,3) by (auto intro: purge_took)
  next
    case (CWrite bs)
    then show ?thesis
      using assms(2,3) by (auto split: prod.splits intro: took_nothing takes.write_bytes Serial_Frame.port_write write_arrived)
  next
    case (CWriteLine l eol)
    then show ?thesis
      using assms(2,3) by (auto split: prod.splits
          intro: took_nothing takes.write_line Serial_Frame.port_write_line write_line_arrived)
  next
    case CQueueStatus
    then show ?thesis
      using assms(2,3) by (auto split: prod.splits
          intro: took_nothing takes.queue_status Serial_Frame.port_queue_status status_arrived)
  next
    case (CTimeouts rt wt)
    then show ?thesis using assms(2,3) by (auto split: prod.splits intro: timeouts_took)
  qed
qed

lemma port_run_queue:
  assumes "recv_bounded e" "port_ready p m" "port_run e cs p m = Some ((as, p'), m')"
  shows "port_ready p' m' \<and> serial_fd p' = serial_fd p
    \<and> (\<exists>gots. queue_run cs as gots \<and> consumed p' m' = consumed p m @ concat gots)"
  using assms(2,3)
proof (induction cs arbitrary: as p m)
  case Nil
  then show ?case by (auto intro: queue_done)
next
  case (Cons c cs)
  then obtain a p1 m1 as1 where st: "port_do e c p m = Some ((a, p1), m1)" "port_run e cs p1 m1 = Some ((as1, p'), m')"
    "as = a # as1" by (auto split: option.splits)
  from port_do_took [OF assms(1) Cons.prems(1) st(1)] obtain got where t: "port_ready p1 m1" "serial_fd p1 = serial_fd p"
    "takes c a got" "consumed p1 m1 = consumed p m @ got" unfolding took_def by blast
  from Cons.IH [OF t(1) st(2)] obtain gots where g: "port_ready p' m'" "serial_fd p' = serial_fd p1" "queue_run cs as1 gots"
    "consumed p' m' = consumed p1 m1 @ concat gots" by blast
  have "queue_run (c # cs) (a # as1) (got # gots)" using t(3) g(3) by (rule queue_call)
  with st(3) t g show ?case by (intro conjI exI [of _ "got # gots"]) simp_all
qed

text \<open>
  C3. The serial port refines a reader of a byte queue. Over any sequence of calls of \<open>read\<close>, \<open>read_exact\<close>,
  \<open>read_byte\<close>, \<open>read_line\<close>, \<open>purge\<close>, \<open>write\<close>, \<open>write_line\<close>, \<open>get_rx_queue_status\<close> and \<open>set_timeouts\<close>, mixed
  in any way, the answers are explained by successive pieces of the one stream of bytes that has arrived:
  none is lost, repeated or reordered, except what a purge drops; what no call has taken is the cache.
\<close>

theorem serial_port_refines_queue:
  assumes "recv_bounded e" "serial_owned p m" "cache_sound p m" "port_run e cs p m = Some ((as, p'), m')"
  shows "\<exists>gots. queue_run cs as gots
    \<and> arrived (serial_fd p) m' = consumed p m @ concat gots @ serial_cache p'
    \<and> cache_sound p' m' \<and> serial_owned p' m' \<and> serial_fd p' = serial_fd p"
proof -
  have ready: "port_ready p m" using assms(2,3) by (simp add: port_ready_def)
  obtain gots where g: "queue_run cs as gots" "consumed p' m' = consumed p m @ concat gots" "port_ready p' m'"
    "serial_fd p' = serial_fd p" using port_run_queue [OF assms(1) ready assms(4)] by blast
  then show ?thesis using consumed_append [of p' m'] by (auto simp: port_ready_def)
qed


text \<open>The sample port with its two unread bytes, which the machine shows to be owned.\<close>

theorem serial_port_refines_queue_witness:
  "\<exists>p' m'. port_run sim_env [CReadByte, CQueueStatus, CReadLine (CHR 0x0A) 5000, CQueueStatus] sample_port
       (emit (EvRecv 3 4096 3 [65, 66, 10]) sim_start (emit (EvSocket 3) sim_start (boot sim_start)))
     = Some (([AByte (Some 66), AStatus 1, ALine [], AStatus 0], p'), m')
   \<and> (\<exists>got. line_of (CHR 0x0A) got [] \<and> [65, 66, 10] = [65] @ [66] @ got @ serial_cache p')"
proof -
  let ?cs = "[CReadByte, CQueueStatus, CReadLine (CHR 0x0A) 5000, CQueueStatus]"
  let ?m = "emit (EvRecv 3 4096 3 [65, 66, 10]) sim_start (emit (EvSocket 3) sim_start (boot sim_start))"
  let ?as = "[AByte (Some 66), AStatus 1, ALine [], AStatus 0]"
  have v: "map_option (\<lambda>((as, p), m). (as, arrived 3 m)) (port_run sim_env ?cs sample_port ?m) = Some (?as, [65, 66, 10])"
    by code_simp
  then obtain p' m' where r: "port_run sim_env ?cs sample_port ?m = Some ((?as, p'), m')" "arrived 3 m' = [65, 66, 10]"
    by auto
  have "serial_valid sample_port" "serial_holds sample_port = {#3#}" "live_fds ?m = {#3#}" "fds_respected ?m"
    "serial_is_open sample_port" "head_in_bounds sample_port" "serial_cache sample_port = [66, 10]" "serial_fd sample_port = 3"
    "arrived 3 ?m = [65, 66, 10]" "consumed sample_port ?m = [65]" by code_simp+
  note p = this
  have own: "serial_owned sample_port ?m" using p by (simp add: serial_owned_def)
  have "suffix [66, 10] [65, 66, 10 :: u8]" by (simp add: suffix_def)
  then have sound: "cache_sound sample_port ?m" using p by (simp only: cache_sound_def)
  obtain gots where g: "queue_run ?cs ?as gots" "arrived 3 m' = [65] @ concat gots @ serial_cache p'"
    using serial_port_refines_queue [OF sim_env_bounded(1) own sound r(1)] p(8,10) by auto
  from g(1) obtain got where "gots = [[66], [], got, []]" "line_of (CHR 0x0A) got []" by auto
  with g(2) r show ?thesis by auto
qed

end
