(* ===== verification/Serial_Sim.thy ===== *)
theory Serial_Sim
  imports Serial_Win Serial_Queue
begin

text \<open>
  The Windows port does what the Linux port does. A Winsock and one of its sockets are seen as the kernel of the
  Linux build, and the port over them as a Linux port; every call on the one is then the same call on the
  other. Results about the Linux port, its refinement of a byte queue among them, hold for the Windows port
  through this simulation.
\<close>

section \<open>Winsock seen as a kernel\<close>

text \<open>
  The calls of a session on the socket \<open>h\<close>. The flags of the descriptor are zero but for \<open>O_NONBLOCK\<close>, which
  is set by \<open>FIONBIO\<close>; a timeout is put together again from its \<open>timeval\<close>; a length that is no \<open>int\<close> fails.
  The calls that no session makes fail.
\<close>

definition ms_of_timeval :: "optval \<Rightarrow> int" where
  "ms_of_timeval v = (case v of OptInt n \<Rightarrow> n | OptTimeval s u \<Rightarrow> s * 1000 + u sdiv 1000)"

definition view_env :: "'w wenv \<Rightarrow> win_socket \<Rightarrow> 'w env" where
  "view_env W h = \<lparr>
     k_socket = (\<lambda>w. (INVALID_SOCKET_HANDLE, w)),
     k_setsockopt = (\<lambda>k opt v w. w_setsockopt W h opt (dword_of_ms (ms_of_timeval v)) w),
     k_bind = (\<lambda>k a w. (- 1, w)),
     k_listen = (\<lambda>k n w. (- 1, w)),
     k_accept = (\<lambda>k w. ((INVALID_SOCKET_HANDLE, sockaddr_zero), w)),
     k_connect = (\<lambda>k a w. (- 1, w)),
     k_getsockname = (\<lambda>k w. ((- 1, sockaddr_zero), w)),
     k_send = (\<lambda>k d w. w_send W h d (int_length d) w),
     k_recv = (\<lambda>k n w. if fits_int n then w_recv W h (word_of_nat n) w else ((- 1, []), snd (w_recv W h (word_of_nat n) w))),
     k_getfl = (\<lambda>k w. (0, w)),
     k_setfl = (\<lambda>k f w. w_fionbio W h (if f AND O_NONBLOCK = 0 then 0 else 1) w),
     k_fionread = (\<lambda>k w. w_fionread W h w),
     k_close = (\<lambda>k w. w),
     k_now = w_now W,
     bz_record_alloc = (\<lambda>w. (None, w)),
     bz_set_attr = (\<lambda>r a w. w),
     bz_connect = (\<lambda>src dst w. (None, w)),
     bz_register = (\<lambda>s r w. (- 1, w)),
     bz_unregister = (\<lambda>s r w. w),
     bz_close = (\<lambda>s w. w),
     bz_search = (\<lambda>s us rs w. ((- 1, []), w)),
     bz_access_protos = (\<lambda>r w. ((- 1, []), w)),
     bz_record_free = (\<lambda>r w. w)\<rparr>"

lemma view_env_simps [simp]:
  "k_setsockopt (view_env W h) k opt v w = w_setsockopt W h opt (dword_of_ms (ms_of_timeval v)) w"
  "k_send (view_env W h) k d w = w_send W h d (int_length d) w"
  "k_recv (view_env W h) k n w = (if fits_int n then w_recv W h (word_of_nat n) w else ((- 1, []), snd (w_recv W h (word_of_nat n) w)))"
  "k_getfl (view_env W h) k w = (0, w)"
  "k_setfl (view_env W h) k f w = w_fionbio W h (if f AND O_NONBLOCK = 0 then 0 else 1) w"
  "k_fionread (view_env W h) k w = w_fionread W h w"
  "k_now (view_env W h) w = w_now W w"
  by (simp_all add: view_env_def)

lemma view_env_bounded: "win_recv_bounded W \<Longrightarrow> recv_bounded (view_env W h)"
  unfolding recv_bounded_def win_recv_bounded_def
proof (intro allI impI)
  fix k n w r d w'
  assume W: "\<forall>h n w r d w'. w_recv W h n w = ((r, d), w') \<longrightarrow> 0 \<le>s n \<longrightarrow>
      (if 0 < r then r = int (length d) \<and> length d \<le> unat n else d = [])"
    and k: "k_recv (view_env W h) k n w = ((r, d), w')"
  show "if 0 < r then r = int (length d) \<and> length d \<le> n else d = []"
  proof (cases "fits_int n")
    case True
    then have "unat (word_of_nat n :: u32) = n" by (simp add: unat_of_nat fits_int_def)
    moreover from this True have "0 \<le>s (word_of_nat n :: u32)" by (intro int_nonneg) (simp add: fits_int_def)
    moreover have "w_recv W h (word_of_nat n) w = ((r, d), w')" using k True by simp
    ultimately show ?thesis using W by metis
  next
    case False
    with k show ?thesis by simp
  qed
qed

lemma timeval_roundtrip [simp]: "ms_of_timeval (timeval_of_ms ms) = ms"
proof -
  have "(ms smod 1000 * 1000) sdiv 1000 = ms smod 1000" by (simp add: signed_divide_int_def sgn_mult abs_mult sgn_mult_abs)
  moreover have "ms sdiv 1000 * 1000 + ms smod 1000 = ms" by (rule sdiv_mult_smod_eq)
  ultimately show ?thesis by (simp add: ms_of_timeval_def timeval_of_ms_def)
qed

text \<open>What the two machines have in common: the world and the bytes of the socket, whose descriptor is zero.\<close>

definition viewed :: "win_socket \<Rightarrow> 'w wmachine \<Rightarrow> 'w machine \<Rightarrow> bool" where
  "viewed h wm m \<longleftrightarrow> world m = wworld wm \<and> arrived 0 m = warrived h wm \<and> accepted 0 m = waccepted h wm"

definition sock_linux :: "wsocket \<Rightarrow> socket" where
  "sock_linux s = Socket (map_option (\<lambda>im. \<lparr>sock_handle = (if wsock_handle im = INVALID_SOCKET then INVALID_SOCKET_HANDLE else 0),
     peer_addr = wpeer_addr im, peer_ch = wpeer_ch im, local_ch = wlocal_ch im\<rparr>) (wsocket_pimpl s))"

definition im_linux :: "wserial_impl \<Rightarrow> serial_impl" where
  "im_linux im = \<lparr>ser_sock = map_option sock_linux (ser_sock im), ser_baud = ser_baud im, ser_data_bits = ser_data_bits im,
     ser_stop_bits = ser_stop_bits im, ser_parity = ser_parity im, ser_flow_control = ser_flow_control im,
     read_timeout = read_timeout im, write_timeout = write_timeout im, ser_dtr = ser_dtr im, ser_rts = ser_rts im,
     ser_cts = ser_cts im, ser_dsr = ser_dsr im, rx_buf = rx_buf im, rx_head = rx_head im\<rparr>"

definition port_linux :: "wserial_port \<Rightarrow> serial_port" where
  "port_linux p = SerialPort (map_option im_linux (serial_pimpl p))"

lemma sock_linux_open [simp]: "socket_is_open (sock_linux s) \<longleftrightarrow> wsocket_is_open s"
  by (simp add: sock_linux_def socket_is_open_def wsocket_is_open_def INVALID_SOCKET_HANDLE_def split: option.split)

lemma sock_linux_fd [simp]: "wsocket_is_open s \<Longrightarrow> socket_fd (sock_linux s) = 0"
  by (auto simp: sock_linux_def socket_fd_def wsocket_is_open_def split: option.splits)

lemma im_linux_simps [simp]:
  "ser_sock (im_linux im) = map_option sock_linux (ser_sock im)" "rx_buf (im_linux im) = rx_buf im"
  "rx_head (im_linux im) = rx_head im" "im_linux (im\<lparr>rx_buf := b\<rparr>) = (im_linux im)\<lparr>rx_buf := b\<rparr>"
  "im_linux (im\<lparr>rx_head := n\<rparr>) = (im_linux im)\<lparr>rx_head := n\<rparr>"
  "im_linux (im\<lparr>read_timeout := t\<rparr>) = (im_linux im)\<lparr>read_timeout := t\<rparr>"
  "im_linux (im\<lparr>write_timeout := t\<rparr>) = (im_linux im)\<lparr>write_timeout := t\<rparr>"
  "im_linux (clear_rx_cache im) = clear_rx_cache (im_linux im)"
  "cached_bytes_available (im_linux im) = cached_bytes_available im" "im_cache (im_linux im) = im_cache im"
  by (simp_all add: im_linux_def clear_rx_cache_def im_cache_def)

lemma port_linux_simps [simp]:
  "port_linux (SerialPort (Some im)) = SerialPort (Some (im_linux im))" "serial_pimpl (port_linux p) = map_option im_linux (serial_pimpl p)"
  "serial_cache (port_linux p) = serial_cache p" "head_in_bounds (port_linux p) \<longleftrightarrow> head_in_bounds p"
  "serial_is_open (port_linux p) \<longleftrightarrow> wserial_is_open p"
  by (simp_all add: port_linux_def serial_cache_def head_in_bounds_def serial_is_open_def wserial_is_open_def split: option.split)

section \<open>One socket\<close>

text \<open>The open socket, if it is one, is \<open>h\<close>.\<close>

definition sock_at :: "win_socket \<Rightarrow> wsocket \<Rightarrow> bool" where
  "sock_at h s \<longleftrightarrow> (wsocket_is_open s \<longrightarrow> wsocket_fd s = h)"

named_theorems sim_calls \<open>the calls of the two builds on one socket\<close>

lemma sim_recv [sim_calls]:
  assumes "viewed h wm m" "sock_at h s" "fits_int (length buf)"
  shows "rel_prod (=) (viewed h) (wsocket_recv W s buf wm) (socket_recv (view_env W h) (sock_linux s) buf m)"
  using assms
  by (auto simp: wsocket_recv_def socket_recv_def sock_at_def viewed_def win_recv_def sys_recv_def int_length_def
      split: prod.splits)

lemma sim_send [sim_calls]:
  assumes "viewed h wm m" "sock_at h s"
  shows "rel_prod (=) (viewed h) (wsocket_send W s d wm) (socket_send (view_env W h) (sock_linux s) d m)"
  using assms
  by (auto simp: wsocket_send_def socket_send_def sock_at_def viewed_def win_send_def sys_send_def split: prod.splits)

lemma sim_now [sim_calls]:
  "viewed h wm m \<Longrightarrow> rel_prod (=) (viewed h) (win_now W wm) (sys_now (view_env W h) m)"
  by (auto simp: win_now_def sys_now_def viewed_def split: prod.splits)

lemma sim_set_timeouts [sim_calls]:
  assumes "viewed h wm m" "sock_at h s"
  shows "rel_prod (=) (viewed h) (wsocket_set_timeouts W s a b wm) (socket_set_timeouts (view_env W h) (sock_linux s) a b m)"
  using assms
  by (auto simp: wsocket_set_timeouts_def socket_set_timeouts_def sock_at_def viewed_def win_setsockopt_def
      sys_setsockopt_def split: prod.splits)

lemma nonblock_bits [simp]:
  "O_NONBLOCK \<noteq> 0" "\<not> (0 :: u32) <s 0"
  by (simp_all add: O_NONBLOCK_def)

lemma sim_set_blocking [sim_calls]:
  assumes "viewed h wm m" "sock_at h s"
  shows "rel_prod (=) (viewed h) (wsocket_set_blocking W s b wm) (socket_set_blocking (view_env W h) (sock_linux s) b m)"
  using assms
  by (auto simp: wsocket_set_blocking_def socket_set_blocking_def sock_at_def viewed_def win_fionbio_def
      sys_getfl_def sys_setfl_def Let_def split: prod.splits)

text \<open>From a call on the one side to the call on the other.\<close>

lemma sim_left: "rel_prod (=) R x y \<Longrightarrow> x = (a, b) \<Longrightarrow> \<exists>b'. y = (a, b') \<and> R b b'"
  by (cases y) auto

lemma sim_send_all_loop:
  "viewed h wm m \<Longrightarrow> sock_at h s \<Longrightarrow>
    rel_prod (=) (viewed h) (wsocket_send_all_loop W s d n wm) (socket_send_all_loop (view_env W h) (sock_linux s) d n m)"
proof (induction W s d n wm arbitrary: m rule: wsocket_send_all_loop.induct)
  case (1 W s d n wm)
  obtain q wm1 where q: "wsocket_send W s (drop n d) wm = (q, wm1)" by (metis prod.collapse)
  obtain m1 where l: "socket_send (view_env W h) (sock_linux s) (drop n d) m = (q, m1)" "viewed h wm1 m1"
    using sim_left [OF sim_send [OF "1.prems"] q] by blast
  show ?case
  proof (cases "n < length d \<and> 0 < q")
    case True
    then show ?thesis
      using "1.IH" [OF _ q [symmetric] refl _ l(2) "1.prems"(2)] q l(1)
      by (simp add: wsocket_send_all_loop.simps [of W s d n wm] socket_send_all_loop.simps [of _ _ d n m])
  next
    case False
    then show ?thesis
      using q l "1.prems"
      by (auto simp: wsocket_send_all_loop.simps [of W s d n wm] socket_send_all_loop.simps [of _ _ d n m])
  qed
qed

lemma sim_send_all [sim_calls]:
  "viewed h wm m \<Longrightarrow> sock_at h s \<Longrightarrow>
    rel_prod (=) (viewed h) (wsocket_send_all W s d wm) (socket_send_all (view_env W h) (sock_linux s) d m)"
  by (simp add: wsocket_send_all_def socket_send_all_def sim_send_all_loop)

section \<open>The cache\<close>

definition im_at :: "win_socket \<Rightarrow> wserial_impl \<Rightarrow> bool" where
  "im_at h im \<longleftrightarrow> pred_option (sock_at h) (ser_sock im)"

definition port_at :: "win_socket \<Rightarrow> wserial_port \<Rightarrow> bool" where
  "port_at h p \<longleftrightarrow> pred_option (im_at h) (serial_pimpl p)"

text \<open>An implementation or a port, as each build has it.\<close>

definition im_rel :: "win_socket \<Rightarrow> wserial_impl \<Rightarrow> serial_impl \<Rightarrow> bool" where
  "im_rel h im jm \<longleftrightarrow> im_at h im \<and> jm = im_linux im"

definition port_rel :: "win_socket \<Rightarrow> wserial_port \<Rightarrow> serial_port \<Rightarrow> bool" where
  "port_rel h p q \<longleftrightarrow> port_at h p \<and> q = port_linux p"

lemma port_rel_im [simp]: "port_rel h (SerialPort (Some im)) (SerialPort (Some jm)) \<longleftrightarrow> im_rel h im jm"
  by (auto simp: port_rel_def im_rel_def port_at_def)

lemma im_at_simps [simp]:
  "im_at h (im\<lparr>rx_buf := b\<rparr>) = im_at h im" "im_at h (im\<lparr>rx_head := n\<rparr>) = im_at h im"
  "im_at h (im\<lparr>read_timeout := t\<rparr>) = im_at h im" "im_at h (im\<lparr>write_timeout := t\<rparr>) = im_at h im"
  "im_at h (clear_rx_cache im) = im_at h im"
  by (simp_all add: im_at_def clear_rx_cache_def)

lemma fits_4096 [simp]: "fits_int (length chunk_4096)"
  by (simp add: fits_int_def chunk_4096_def)

lemma sim_refill:
  assumes "viewed h wm m" "im_rel h im jm"
  shows "rel_prod (rel_prod (=) (im_rel h)) (viewed h) (wrefill_rx_cache W im wm) (refill_rx_cache (view_env W h) jm m)"
proof (cases "ser_sock im")
  case None
  then show ?thesis using assms by (simp add: wrefill_rx_cache_def refill_rx_cache_def im_rel_def)
next
  case (Some s)
  show ?thesis
  proof (cases "wsocket_is_open s")
    case True
    have jm: "jm = im_linux im" "im_at h im" and s: "sock_at h s"
      using assms(2) Some by (simp_all add: im_rel_def im_at_def)
    obtain r chunk wm1 where q: "wsocket_recv W s chunk_4096 wm = ((r, chunk), wm1)" by (metis prod.collapse)
    obtain m1 where l: "socket_recv (view_env W h) (sock_linux s) chunk_4096 m = ((r, chunk), m1)" "viewed h wm1 m1"
      using sim_left [OF sim_recv [OF assms(1) s fits_4096] q] by blast
    let ?im = "if length (rx_buf im) \<le> rx_head im then clear_rx_cache im else im"
    have lin: "(if length (rx_buf jm) \<le> rx_head jm then clear_rx_cache jm else jm) = im_linux ?im" "im_at h ?im"
      using jm by simp_all
    have w: "wrefill_rx_cache W im wm = (if r \<le> 0 then ((False, ?im), wm1) else
        let im = (if 0 < rx_head ?im then ?im\<lparr>rx_buf := drop (rx_head ?im) (rx_buf ?im), rx_head := 0\<rparr> else ?im)
        in ((True, im\<lparr>rx_buf := rx_buf im @ take (nat r) chunk\<rparr>), wm1))"
      unfolding wrefill_rx_cache_def Let_def by (simp only: Some option.case True q prod.case not_True_eq_False if_False)
    have k: "refill_rx_cache (view_env W h) jm m = (if r \<le> 0 then ((False, im_linux ?im), m1) else
        let im = (if 0 < rx_head (im_linux ?im) then (im_linux ?im)\<lparr>rx_buf := drop (rx_head (im_linux ?im)) (rx_buf (im_linux ?im)), rx_head := 0\<rparr>
          else im_linux ?im) in ((True, im\<lparr>rx_buf := rx_buf im @ take (nat r) chunk\<rparr>), m1))"
      unfolding refill_rx_cache_def Let_def lin(1) using Some True jm l(1) by simp
    show ?thesis
      using l(2) lin(2) unfolding w k Let_def
      by (cases "r \<le> 0"; cases "0 < rx_head ?im") (simp_all only: im_linux_simps im_at_simps im_rel_def if_True if_False
        rel_prod_inject not_False_eq_True, simp_all)
  next
    case False
    then show ?thesis using Some assms by (simp add: wrefill_rx_cache_def refill_rx_cache_def im_rel_def)
  qed
qed

lemma sim_scan_line:
  "scan_line d (im_linux im) line = map_prod id im_linux (scan_line d im line)"
proof (induction d im line rule: scan_line.induct)
  case (1 d im line)
  show ?case
  proof (cases "0 < cached_bytes_available im \<and> char_of_byte (rx_buf im ! rx_head im) \<noteq> d")
    case True
    then show ?thesis
      using "1.IH" by (simp add: scan_line.simps [of d im line] scan_line.simps [of d "im_linux im" line] Let_def)
  next
    case False
    then show ?thesis
      by (auto simp: scan_line.simps [of d im line] scan_line.simps [of d "im_linux im" line] Let_def)
  qed
qed

section \<open>The calls that return\<close>

text \<open>The two ports are both closed, or both open with related parts.\<close>

lemma parts_rel:
  assumes "port_rel h p q"
  obtains (closed) "wserial_parts p = None" "serial_parts q = None"
  | (parts) im s where "wserial_parts p = Some (im, s)" "serial_parts q = Some (im_linux im, sock_linux s)"
      "im_rel h im (im_linux im)" "sock_at h s" "wsocket_is_open s"
proof (cases "wserial_parts p")
  case None
  then have "serial_parts q = None"
    using assms by (auto simp: wserial_parts_def serial_parts_def port_rel_def split: option.splits if_splits)
  with None show ?thesis by (rule closed)
next
  case (Some x)
  obtain im s where x: "x = (im, s)" by (cases x)
  have "serial_pimpl p = Some im" "ser_sock im = Some s" "wsocket_is_open s"
    using Some x by (auto simp: wserial_parts_def split: option.splits if_splits)
  with assms Some x show ?thesis
    by (intro parts [of im s])
      (simp_all add: serial_parts_def port_rel_def port_at_def im_at_def im_rel_def)
qed

abbreviation outcome_rel :: "win_socket \<Rightarrow> ('r \<times> wserial_port) \<times> 'w wmachine \<Rightarrow> ('r \<times> serial_port) \<times> 'w machine \<Rightarrow> bool" where
  "outcome_rel h \<equiv> rel_prod (rel_prod (=) (port_rel h)) (viewed h)"

lemma sim_read:
  assumes "viewed h wm m" "port_rel h p q" "fits_int (length buf)"
  shows "outcome_rel h (wserial_read W p buf wm) (serial_read (view_env W h) q buf m)"
  using assms(2)
proof (cases rule: parts_rel)
  case closed
  then show ?thesis using assms by (simp add: wserial_read_def serial_read_def)
next
  case (parts im s)
  show ?thesis
  proof (cases "buf = []")
    case True
    then show ?thesis using parts assms by (simp add: wserial_read_def serial_read_def)
  next
    case False
    define n where "n = min (length (im_cache im)) (length buf)"
    let ?copy = "0 < length (im_cache im)"
    let ?buf = "if ?copy then overlay (take n (drop (rx_head im) (rx_buf im))) buf else buf"
    let ?im = "if ?copy then im\<lparr>rx_head := rx_head im + n\<rparr> else im"
    let ?k = "if ?copy then n else 0"
    have im: "(if ?copy then (im_linux im)\<lparr>rx_head := rx_head im + n\<rparr> else im_linux im) = im_linux ?im" "im_at h ?im"
      using parts(3) by (simp_all add: im_rel_def)
    have "length ?buf = length buf" by (simp add: overlay_def n_def)
    then have fit: "fits_int (length (drop ?k ?buf))" using assms(3) unfolding fits_int_def length_drop by linarith
    obtain r chunk wm1 where rc: "wsocket_recv W s (drop ?k ?buf) wm = ((r, chunk), wm1)" by (metis prod.collapse)
    obtain m1 where l: "socket_recv (view_env W h) (sock_linux s) (drop ?k ?buf) m = ((r, chunk), m1)" "viewed h wm1 m1"
      using sim_left [OF sim_recv [OF assms(1) parts(4) fit] rc] by blast
    have w: "wserial_read W p buf wm = (if ?copy \<and> ?k = length ?buf then (((?k, ?buf), SerialPort (Some ?im)), wm)
        else (((if 0 < r then ?k + nat r else ?k, write_tail ?k chunk ?buf), SerialPort (Some ?im)), wm1))"
      using parts(1) False rc by (cases ?copy) (simp_all add: wserial_read_def Let_def flip: n_def)
    have k: "serial_read (view_env W h) q buf m = (if ?copy \<and> ?k = length ?buf then (((?k, ?buf), SerialPort (Some (im_linux ?im))), m)
        else (((if 0 < r then ?k + nat r else ?k, write_tail ?k chunk ?buf), SerialPort (Some (im_linux ?im))), m1))"
      using parts(2) False l(1) by (cases ?copy) (simp_all add: serial_read_def Let_def flip: n_def)
    show ?thesis using assms(1) l(2) im(2) unfolding w k by (simp only: if_split) (simp add: im_rel_def)
  qed
qed

lemma sim_read_exact_loop:
  "viewed h wm m \<Longrightarrow> port_rel h p q \<Longrightarrow> fits_int (length buf) \<Longrightarrow>
    outcome_rel h (wserial_read_exact_loop W p buf n wm) (serial_read_exact_loop (view_env W h) q buf n m)"
proof (induction W p buf n wm arbitrary: q m rule: wserial_read_exact_loop.induct)
  case (1 W p buf n wm)
  show ?case
  proof (cases "n < length buf")
    case False
    with 1 show ?thesis
      by (simp add: wserial_read_exact_loop.simps [of W p buf n wm] serial_read_exact_loop.simps [of _ q buf n m])
  next
    case True
    have fit: "fits_int (length (drop n buf))" using "1.prems"(3) by (simp add: fits_int_def)
    obtain k sub p1 wm1 where rd: "wserial_read W p (drop n buf) wm = (((k, sub), p1), wm1)" by (metis prod.collapse)
    then obtain q1 m1 where l: "serial_read (view_env W h) q (drop n buf) m = (((k, sub), q1), m1)" "port_rel h p1 q1" "viewed h wm1 m1"
      using sim_read [OF "1.prems"(1,2) fit, of W] by (cases "serial_read (view_env W h) q (drop n buf) m") auto
    have len: "fits_int (length (write_tail n sub buf))"
      using "1.prems"(3) length_wserial_read [OF rd] True by (simp add: write_tail_def)
    have "k \<noteq> 0 \<Longrightarrow> outcome_rel h (wserial_read_exact_loop W p1 (write_tail n sub buf) (n + k) wm1)
        (serial_read_exact_loop (view_env W h) q1 (write_tail n sub buf) (n + k) m1)"
      using "1.IH" [OF True rd [symmetric] refl refl refl refl _ l(3,2) len] by simp
    then show ?thesis
      using True rd l
      by (simp add: wserial_read_exact_loop.simps [of W p buf n wm] serial_read_exact_loop.simps [of _ q buf n m] Let_def)
  qed
qed

lemma sim_read_exact:
  "viewed h wm m \<Longrightarrow> port_rel h p q \<Longrightarrow> fits_int (length buf) \<Longrightarrow>
    outcome_rel h (wserial_read_exact W p buf wm) (serial_read_exact (view_env W h) q buf m)"
  by (simp add: wserial_read_exact_def serial_read_exact_def sim_read_exact_loop)

lemma sim_read_byte:
  assumes "viewed h wm m" "port_rel h p q"
  shows "outcome_rel h (wserial_read_byte W p wm) (serial_read_byte (view_env W h) q m)"
  using assms(2)
proof (cases rule: parts_rel)
  case closed
  then show ?thesis using assms by (simp add: wserial_read_byte_def serial_read_byte_def)
next
  case (parts im s)
  obtain ok im1 wm1 where w: "(if cached_bytes_available im = 0 then wrefill_rx_cache W im wm else ((True, im), wm)) = ((ok, im1), wm1)"
    by (metis prod.collapse)
  obtain m1 where k: "(if cached_bytes_available (im_linux im) = 0 then refill_rx_cache (view_env W h) (im_linux im) m
      else ((True, im_linux im), m)) = ((ok, im_linux im1), m1)" and v: "viewed h wm1 m1" "im_at h im1"
  proof (cases "cached_bytes_available im = 0")
    case True
    then show ?thesis
      using that sim_refill [OF assms(1) parts(3), of W] w
      by (cases "refill_rx_cache (view_env W h) (im_linux im) m") (auto simp: im_rel_def)
  next
    case False
    then show ?thesis using that assms(1) parts(3) w by (auto simp: im_rel_def)
  qed
  show ?thesis
    using parts(1,2) w k v unfolding wserial_read_byte_def serial_read_byte_def
    by (simp only: option.case prod.case Let_def) (simp add: im_rel_def)
qed

section \<open>The calls that may not return\<close>

text \<open>One returns exactly when the other does, with related results.\<close>

lemma sim_read_line_turn:
  assumes "viewed h wm m" "im_rel h im jm"
  obtains found l im1 where "scan_line d im line = ((found, l), im1)" "scan_line d jm line = ((found, l), im_linux im1)"
    "im_rel h im1 (im_linux im1)"
proof -
  obtain found l im1 where sc: "scan_line d im line = ((found, l), im1)" by (metis prod.collapse)
  moreover have "scan_line d jm line = ((found, l), im_linux im1)"
    using sim_scan_line [of d im line] sc assms(2) by (simp add: im_rel_def)
  moreover have "im_rel h im1 (im_linux im1)"
    using scan_line_sock [OF sc] assms(2) by (simp add: im_rel_def im_at_def)
  ultimately show ?thesis by (rule that)
qed

lemma sim_expired:
  assumes "viewed h wm m"
    and "(if 0 < t then let (now, m) = win_now W wm in (timed_out start now t, m) else (False, wm)) = (ex, wm1)"
  obtains m1 where "(if 0 < t then let (now, m) = sys_now (view_env W h) m in (timed_out start now t, m) else (False, m)) = (ex, m1)"
    "viewed h wm1 m1"
proof -
  obtain now wm2 where n: "win_now W wm = (now, wm2)" by (metis prod.collapse)
  obtain m2 where l: "sys_now (view_env W h) m = (now, m2)" "viewed h wm2 m2"
    using sim_left [OF sim_now [OF assms(1)] n] by blast
  show ?thesis
    by (rule that [of "if 0 < t then m2 else m"]) (use assms n l in \<open>auto split: if_splits\<close>)
qed

lemma sim_refill_left:
  assumes "viewed h wm m" "im_rel h im jm" "wrefill_rx_cache W im wm = ((ok, im'), wm')"
  obtains jm' m' where "refill_rx_cache (view_env W h) jm m = ((ok, jm'), m')" "im_rel h im' jm'" "viewed h wm' m'"
  using sim_refill [OF assms(1,2), of W] assms(3)
  by (cases "refill_rx_cache (view_env W h) jm m") auto

abbreviation line_rel :: "win_socket \<Rightarrow> (string \<times> wserial_impl) \<times> 'w wmachine \<Rightarrow> (string \<times> serial_impl) \<times> 'w machine \<Rightarrow> bool" where
  "line_rel h \<equiv> rel_prod (rel_prod (=) (im_rel h)) (viewed h)"

lemma sim_read_line_loop:
  assumes "wread_line_loop W d t start im line wm = Some y"
  shows "viewed h wm m \<Longrightarrow> im_rel h im jm \<Longrightarrow>
    \<exists>y'. read_line_loop (view_env W h) d t start jm line m = Some y' \<and> line_rel h y y'"
proof -
  have "\<forall>m jm. W' = W \<longrightarrow> viewed h wm m \<longrightarrow> im_rel h im jm \<longrightarrow>
      (\<exists>y'. read_line_loop (view_env W h) d t start jm line m = Some y' \<and> line_rel h y y')"
    if "wread_line_loop W' d t start im line wm = Some y" for W'
    using that
  proof (rule wread_line_loop.raw_induct [where P = "\<lambda>W' d t start im line wm y. \<forall>m jm. W' = W \<longrightarrow> viewed h wm m \<longrightarrow>
      im_rel h im jm \<longrightarrow> (\<exists>y'. read_line_loop (view_env W h) d t start jm line m = Some y' \<and> line_rel h y y')", rotated])
    fix rec W' d t start im line y wm
    assume rec: "\<And>W' d t start im line wm y. rec W' d t start im line wm = Some y \<Longrightarrow> \<forall>m jm. W' = W \<longrightarrow> viewed h wm m \<longrightarrow>
        im_rel h im jm \<longrightarrow> (\<exists>y'. read_line_loop (view_env W h) d t start jm line m = Some y' \<and> line_rel h y y')"
      and turn: "(let ((found, line), im) = scan_line d im line
        in if found then Some ((line, im), wm)
           else let (expired, m) =
                   (if 0 < t then let (now, m) = win_now W' wm in (timed_out start now t, m) else (False, wm))
             in if expired then Some ((line, im), m)
                else let ((ok, im), m) = wrefill_rx_cache W' im m
                  in if \<not> ok then Some ((line, im), m) else rec W' d t start im line m) = Some y"
    show "\<forall>m jm. W' = W \<longrightarrow> viewed h wm m \<longrightarrow> im_rel h im jm \<longrightarrow>
        (\<exists>y'. read_line_loop (view_env W h) d t start jm line m = Some y' \<and> line_rel h y y')"
    proof (intro allI impI)
      fix m jm
      assume W: "W' = W" and v: "viewed h wm m" and r: "im_rel h im jm"
      obtain found l im1 where sc: "scan_line d im line = ((found, l), im1)" "scan_line d jm line = ((found, l), im_linux im1)"
        "im_rel h im1 (im_linux im1)" by (rule sim_read_line_turn [OF v r])
      obtain ex wm1 where ex: "(if 0 < t then let (now, m) = win_now W wm in (timed_out start now t, m) else (False, wm)) = (ex, wm1)"
        by (metis prod.collapse)
      obtain m1 where ex': "(if 0 < t then let (now, m) = sys_now (view_env W h) m in (timed_out start now t, m) else (False, m)) = (ex, m1)"
        "viewed h wm1 m1" by (rule sim_expired [OF v ex])
      obtain ok im2 wm2 where rf: "wrefill_rx_cache W im1 wm1 = ((ok, im2), wm2)" by (metis prod.collapse)
      obtain jm2 m2 where rf': "refill_rx_cache (view_env W h) (im_linux im1) m1 = ((ok, jm2), m2)" "im_rel h im2 jm2" "viewed h wm2 m2"
        by (rule sim_refill_left [OF ex'(2) sc(3) rf])
      have "\<not> found \<Longrightarrow> \<not> ex \<Longrightarrow> ok \<Longrightarrow> \<exists>y'. read_line_loop (view_env W h) d t start jm2 l m2 = Some y' \<and> line_rel h y y'"
        using rec [of W d t start im2 l wm2 y] turn [unfolded W] sc(1) ex rf rf'(2,3) by simp
      then show "\<exists>y'. read_line_loop (view_env W h) d t start jm line m = Some y' \<and> line_rel h y y'"
        using turn [unfolded W] sc ex ex' rf rf' v
        by (subst read_line_loop.simps) (auto split: if_splits)
    qed
  qed
  with assms show "viewed h wm m \<Longrightarrow> im_rel h im jm \<Longrightarrow>
    \<exists>y'. read_line_loop (view_env W h) d t start jm line m = Some y' \<and> line_rel h y y'" by blast
qed

lemma sim_read_line_loop_back:
  assumes "read_line_loop (view_env W h) d t start jm line m = Some y"
  shows "viewed h wm m \<Longrightarrow> im_rel h im jm \<Longrightarrow> wread_line_loop W d t start im line wm \<noteq> None"
proof -
  have "\<forall>wm im. E = view_env W h \<longrightarrow> viewed h wm m \<longrightarrow> im_rel h im jm \<longrightarrow> wread_line_loop W d t start im line wm \<noteq> None"
    if "read_line_loop E d t start jm line m = Some y" for E
    using that
  proof (rule read_line_loop.raw_induct [where P = "\<lambda>E d t start jm line m y. \<forall>wm im. E = view_env W h \<longrightarrow> viewed h wm m \<longrightarrow>
      im_rel h im jm \<longrightarrow> wread_line_loop W d t start im line wm \<noteq> None", rotated])
    fix rec E d t start jm line y m
    assume rec: "\<And>E d t start jm line m y. rec E d t start jm line m = Some y \<Longrightarrow> \<forall>wm im. E = view_env W h \<longrightarrow>
        viewed h wm m \<longrightarrow> im_rel h im jm \<longrightarrow> wread_line_loop W d t start im line wm \<noteq> None"
      and turn: "(let ((found, line), im) = scan_line d jm line
        in if found then Some ((line, im), m)
           else let (expired, m) =
                   (if 0 < t then let (now, m) = sys_now E m in (timed_out start now t, m) else (False, m))
             in if expired then Some ((line, im), m)
                else let ((ok, im), m) = refill_rx_cache E im m
                  in if \<not> ok then Some ((line, im), m) else rec E d t start im line m) = Some y"
    show "\<forall>wm im. E = view_env W h \<longrightarrow> viewed h wm m \<longrightarrow> im_rel h im jm \<longrightarrow> wread_line_loop W d t start im line wm \<noteq> None"
    proof (intro allI impI)
      fix wm im
      assume E: "E = view_env W h" and v: "viewed h wm m" and r: "im_rel h im jm"
      obtain found l im1 where sc: "scan_line d im line = ((found, l), im1)" "scan_line d jm line = ((found, l), im_linux im1)"
        "im_rel h im1 (im_linux im1)" by (rule sim_read_line_turn [OF v r])
      obtain ex wm1 where ex: "(if 0 < t then let (now, m) = win_now W wm in (timed_out start now t, m) else (False, wm)) = (ex, wm1)"
        by (metis prod.collapse)
      obtain m1 where ex': "(if 0 < t then let (now, m) = sys_now (view_env W h) m in (timed_out start now t, m) else (False, m)) = (ex, m1)"
        "viewed h wm1 m1" by (rule sim_expired [OF v ex])
      obtain ok im2 wm2 where rf: "wrefill_rx_cache W im1 wm1 = ((ok, im2), wm2)" by (metis prod.collapse)
      obtain jm2 m2 where rf': "refill_rx_cache (view_env W h) (im_linux im1) m1 = ((ok, jm2), m2)" "im_rel h im2 jm2" "viewed h wm2 m2"
        by (rule sim_refill_left [OF ex'(2) sc(3) rf])
      have "\<not> found \<Longrightarrow> \<not> ex \<Longrightarrow> ok \<Longrightarrow> wread_line_loop W d t start im2 l wm2 \<noteq> None"
        using rec [of "view_env W h" d t start jm2 l m2 y] turn [unfolded E] sc(2) ex'(1) rf' by simp
      then show "wread_line_loop W d t start im line wm \<noteq> None"
        by (subst wread_line_loop.simps) (use sc(1) ex rf in \<open>auto split: if_splits\<close>)
    qed
  qed
  with assms show "viewed h wm m \<Longrightarrow> im_rel h im jm \<Longrightarrow> wread_line_loop W d t start im line wm \<noteq> None" by blast
qed

lemma sim_drain_loop:
  assumes "wdrain_loop W s buf wm = Some wm'"
  shows "viewed h wm m \<Longrightarrow> sock_at h s \<Longrightarrow> fits_int (length buf) \<Longrightarrow>
    \<exists>m'. drain_loop (view_env W h) (sock_linux s) buf m = Some m' \<and> viewed h wm' m'"
proof -
  have "\<forall>m. W' = W \<longrightarrow> viewed h wm m \<longrightarrow> sock_at h s \<longrightarrow> fits_int (length buf) \<longrightarrow>
      (\<exists>m'. drain_loop (view_env W h) (sock_linux s) buf m = Some m' \<and> viewed h wm' m')"
    if "wdrain_loop W' s buf wm = Some wm'" for W'
    using that
  proof (rule wdrain_loop.raw_induct [where P = "\<lambda>W' s buf wm wm'. \<forall>m. W' = W \<longrightarrow> viewed h wm m \<longrightarrow> sock_at h s \<longrightarrow>
      fits_int (length buf) \<longrightarrow> (\<exists>m'. drain_loop (view_env W h) (sock_linux s) buf m = Some m' \<and> viewed h wm' m')", rotated])
    fix rec W' s buf wm wm'
    assume rec: "\<And>W' s buf wm wm'. rec W' s buf wm = Some wm' \<Longrightarrow> \<forall>m. W' = W \<longrightarrow> viewed h wm m \<longrightarrow> sock_at h s \<longrightarrow>
        fits_int (length buf) \<longrightarrow> (\<exists>m'. drain_loop (view_env W h) (sock_linux s) buf m = Some m' \<and> viewed h wm' m')"
      and turn: "(let ((r, buf), wm) = wsocket_recv W' s buf wm in if 0 < r then rec W' s buf wm else Some wm) = Some wm'"
    show "\<forall>m. W' = W \<longrightarrow> viewed h wm m \<longrightarrow> sock_at h s \<longrightarrow> fits_int (length buf) \<longrightarrow>
        (\<exists>m'. drain_loop (view_env W h) (sock_linux s) buf m = Some m' \<and> viewed h wm' m')"
    proof (intro allI impI)
      fix m
      assume W: "W' = W" and v: "viewed h wm m" and s: "sock_at h s" and fit: "fits_int (length buf)"
      obtain r b wm1 where q: "wsocket_recv W s buf wm = ((r, b), wm1)" by (metis prod.collapse)
      obtain m1 where l: "socket_recv (view_env W h) (sock_linux s) buf m = ((r, b), m1)" "viewed h wm1 m1"
        using sim_left [OF sim_recv [OF v s fit] q] by blast
      have "fits_int (length b)" using fit length_wsocket_recv [OF q] by simp
      then have "0 < r \<Longrightarrow> \<exists>m'. drain_loop (view_env W h) (sock_linux s) b m1 = Some m' \<and> viewed h wm' m'"
        using rec [of W s b wm1 wm'] turn [unfolded W] q l(2) s by simp
      then show "\<exists>m'. drain_loop (view_env W h) (sock_linux s) buf m = Some m' \<and> viewed h wm' m'"
        using turn [unfolded W] q l by (subst drain_loop.simps) (auto split: if_splits)
    qed
  qed
  with assms show "viewed h wm m \<Longrightarrow> sock_at h s \<Longrightarrow> fits_int (length buf) \<Longrightarrow>
    \<exists>m'. drain_loop (view_env W h) (sock_linux s) buf m = Some m' \<and> viewed h wm' m'" by blast
qed

lemma sim_drain_loop_back:
  assumes "drain_loop (view_env W h) (sock_linux s) buf m = Some m'"
  shows "viewed h wm m \<Longrightarrow> sock_at h s \<Longrightarrow> fits_int (length buf) \<Longrightarrow> wdrain_loop W s buf wm \<noteq> None"
proof -
  have "\<forall>wm. E = view_env W h \<longrightarrow> S = sock_linux s \<longrightarrow> viewed h wm m \<longrightarrow> sock_at h s \<longrightarrow> fits_int (length buf) \<longrightarrow>
      wdrain_loop W s buf wm \<noteq> None" if "drain_loop E S buf m = Some m'" for E S
    using that
  proof (rule drain_loop.raw_induct [where P = "\<lambda>E S buf m m'. \<forall>wm. E = view_env W h \<longrightarrow> S = sock_linux s \<longrightarrow> viewed h wm m \<longrightarrow>
      sock_at h s \<longrightarrow> fits_int (length buf) \<longrightarrow> wdrain_loop W s buf wm \<noteq> None", rotated])
    fix rec E S buf m m'
    assume rec: "\<And>E S buf m m'. rec E S buf m = Some m' \<Longrightarrow> \<forall>wm. E = view_env W h \<longrightarrow> S = sock_linux s \<longrightarrow> viewed h wm m \<longrightarrow>
        sock_at h s \<longrightarrow> fits_int (length buf) \<longrightarrow> wdrain_loop W s buf wm \<noteq> None"
      and turn: "(let ((r, buf), m) = socket_recv E S buf m in if 0 < r then rec E S buf m else Some m) = Some m'"
    show "\<forall>wm. E = view_env W h \<longrightarrow> S = sock_linux s \<longrightarrow> viewed h wm m \<longrightarrow> sock_at h s \<longrightarrow> fits_int (length buf) \<longrightarrow>
        wdrain_loop W s buf wm \<noteq> None"
    proof (intro allI impI)
      fix wm
      assume E: "E = view_env W h" "S = sock_linux s" and v: "viewed h wm m" and s: "sock_at h s" and fit: "fits_int (length buf)"
      obtain r b wm1 where q: "wsocket_recv W s buf wm = ((r, b), wm1)" by (metis prod.collapse)
      obtain m1 where l: "socket_recv (view_env W h) (sock_linux s) buf m = ((r, b), m1)" "viewed h wm1 m1"
        using sim_left [OF sim_recv [OF v s fit] q] by blast
      have "fits_int (length b)" using fit length_wsocket_recv [OF q] by simp
      then have "0 < r \<Longrightarrow> wdrain_loop W s b wm1 \<noteq> None"
        using rec [of E S b m1 m'] turn [unfolded E] E l s by simp
      then show "wdrain_loop W s buf wm \<noteq> None"
        by (subst wdrain_loop.simps) (use q in \<open>auto split: if_splits\<close>)
    qed
  qed
  with assms show "viewed h wm m \<Longrightarrow> sock_at h s \<Longrightarrow> fits_int (length buf) \<Longrightarrow> wdrain_loop W s buf wm \<noteq> None" by blast
qed

lemma rel_optionI:
  "(\<And>y. x = Some y \<Longrightarrow> \<exists>y'. x' = Some y' \<and> R y y') \<Longrightarrow> (\<And>y'. x' = Some y' \<Longrightarrow> x \<noteq> None) \<Longrightarrow> rel_option R x x'"
  by (cases x; cases x') auto

lemma sim_read_line:
  assumes "viewed h wm m" "port_rel h p q"
  shows "rel_option (outcome_rel h) (wserial_read_line W p d t wm) (serial_read_line (view_env W h) q d t m)"
  using assms(2)
proof (cases rule: parts_rel)
  case closed
  then show ?thesis using assms by (simp add: wserial_read_line_def serial_read_line_def)
next
  case (parts im s)
  obtain start wm1 where n: "win_now W wm = (start, wm1)" by (metis prod.collapse)
  obtain m1 where l: "sys_now (view_env W h) m = (start, m1)" "viewed h wm1 m1"
    using sim_left [OF sim_now [OF assms(1)] n] by blast
  have "rel_option (line_rel h) (wread_line_loop W d t start im [] wm1) (read_line_loop (view_env W h) d t start (im_linux im) [] m1)"
  proof (rule rel_optionI)
    fix y assume "wread_line_loop W d t start im [] wm1 = Some y"
    from sim_read_line_loop [OF this l(2) parts(3)]
    show "\<exists>y'. read_line_loop (view_env W h) d t start (im_linux im) [] m1 = Some y' \<and> line_rel h y y'" .
  next
    fix y' assume "read_line_loop (view_env W h) d t start (im_linux im) [] m1 = Some y'"
    from sim_read_line_loop_back [OF this l(2) parts(3)] show "wread_line_loop W d t start im [] wm1 \<noteq> None" .
  qed
  then show ?thesis
    using parts(1,2) n l(1)
    by (auto simp: wserial_read_line_def serial_read_line_def option_rel_Some1 option_rel_Some2 elim!: option.rel_cases
        intro: option.rel_intros)
qed

lemma sim_purge:
  assumes "viewed h wm m" "port_rel h p q"
  shows "rel_option (rel_prod (port_rel h) (viewed h)) (wserial_purge W p fl wm) (serial_purge (view_env W h) q fl m)"
proof (cases "serial_pimpl p")
  case None
  then show ?thesis using assms by (simp add: wserial_purge_def serial_purge_def port_rel_def port_linux_def)
next
  case (Some im)
  have q: "serial_pimpl q = Some (im_linux im)" "q = port_linux p" "im_at h im"
    using Some assms(2) by (simp_all add: port_rel_def port_at_def)
  show ?thesis
  proof (cases "purge_has fl PurgeRx \<and> ser_sock im \<noteq> None")
    case False
    have sk: "ser_sock (clear_rx_cache im) = ser_sock im" "ser_sock (clear_rx_cache (im_linux im)) = map_option sock_linux (ser_sock im)"
      by (simp_all add: clear_rx_cache_def)
    show ?thesis
    proof (cases "purge_has fl PurgeRx")
      case has: True
      with False have "ser_sock im = None" by simp
      then show ?thesis
        using has Some q(1,3) sk assms(1) by (simp add: wserial_purge_def serial_purge_def Let_def im_rel_def)
    next
      case False
      with Some q(1) assms show ?thesis by (simp add: wserial_purge_def serial_purge_def)
    qed
  next
    case True
    then obtain s where s: "ser_sock im = Some s" "sock_at h s" using q(3) by (auto simp: im_at_def)
    obtain x wm1 where b1: "wsocket_set_blocking W s False wm = (x, wm1)" by (metis prod.collapse)
    obtain m1 where c1: "socket_set_blocking (view_env W h) (sock_linux s) False m = (x, m1)" "viewed h wm1 m1"
      using sim_left [OF sim_set_blocking [OF assms(1) s(2)] b1] by blast
    have dr: "rel_option (viewed h) (wdrain_loop W s chunk_4096 wm1) (drain_loop (view_env W h) (sock_linux s) chunk_4096 m1)"
      using sim_drain_loop [OF _ c1(2) s(2) fits_4096] sim_drain_loop_back [OF _ c1(2) s(2) fits_4096]
      by (intro rel_optionI) auto
    have sk: "ser_sock (clear_rx_cache im) = Some s" "ser_sock (clear_rx_cache (im_linux im)) = Some (sock_linux s)"
      using s(1) by (simp_all add: clear_rx_cache_def)
    have w: "wserial_purge W p fl wm = map_option (\<lambda>m. (SerialPort (Some (clear_rx_cache im)), snd (wsocket_set_blocking W s True m)))
        (wdrain_loop W s chunk_4096 wm1)"
      using True Some sk(1) b1 by (simp add: wserial_purge_def Let_def split_def split: option.split)
    have k: "serial_purge (view_env W h) q fl m = map_option (\<lambda>m. (SerialPort (Some (clear_rx_cache (im_linux im))),
        snd (socket_set_blocking (view_env W h) (sock_linux s) True m))) (drain_loop (view_env W h) (sock_linux s) chunk_4096 m1)"
      using True q(1) sk(2) c1(1) by (simp add: serial_purge_def Let_def split_def split: option.split)
    have "viewed h (snd (wsocket_set_blocking W s True a)) (snd (socket_set_blocking (view_env W h) (sock_linux s) True b))"
      if "viewed h a b" for a b using sim_set_blocking [OF that s(2), of W True] by (simp add: rel_prod_sel)
    then show ?thesis
      using dr q(3) unfolding w k by (auto elim!: option.rel_cases intro!: option.rel_intros simp: im_rel_def)
  qed
qed

section \<open>Any call\<close>

lemma sim_write:
  assumes "viewed h wm m" "port_rel h p q"
  shows "rel_prod (=) (viewed h) (wserial_write W p d wm) (serial_write (view_env W h) q d m)"
  using assms(2)
proof (cases rule: parts_rel)
  case closed
  then show ?thesis using assms by (simp add: wserial_write_def serial_write_def)
next
  case (parts im s)
  from sim_send [OF assms(1) parts(4), of W d] show ?thesis
    using parts(1,2) assms(1)
    by (auto simp: wserial_write_def serial_write_def rel_prod_sel split: prod.split)
qed

lemma sim_write_line:
  assumes "viewed h wm m" "port_rel h p q"
  shows "rel_prod (=) (viewed h) (wserial_write_line W p l eol wm) (serial_write_line (view_env W h) q l eol m)"
  using assms(2)
proof (cases rule: parts_rel)
  case closed
  then show ?thesis using assms by (simp add: wserial_write_line_def serial_write_line_def)
next
  case (parts im s)
  then show ?thesis using sim_send_all [OF assms(1) parts(4)] by (simp add: wserial_write_line_def serial_write_line_def)
qed

lemma sim_queue_status:
  assumes "viewed h wm m" "port_rel h p q"
  shows "rel_prod (=) (viewed h) (wserial_get_rx_queue_status W p wm) (serial_get_rx_queue_status (view_env W h) q m)"
  using assms(2)
proof (cases rule: parts_rel)
  case closed
  then show ?thesis using assms by (simp add: wserial_get_rx_queue_status_def serial_get_rx_queue_status_def)
next
  case (parts im s)
  have "wsocket_native_handle s = h"
    using parts(4,5) by (auto simp: sock_at_def wsocket_native_handle_def wsocket_is_open_def wsocket_fd_def split: option.splits)
  then show ?thesis
    using parts(1,2) assms(1)
    by (auto simp: wserial_get_rx_queue_status_def serial_get_rx_queue_status_def win_fionread_def sys_fionread_def
        viewed_def split: prod.split)
qed

lemma sim_port_timeouts:
  assumes "viewed h wm m" "port_rel h p q"
  shows "rel_prod (port_rel h) (viewed h) (wserial_set_timeouts W p rt wt wm) (serial_set_timeouts (view_env W h) q rt wt m)"
proof (cases "serial_pimpl p")
  case None
  then show ?thesis using assms by (simp add: wserial_set_timeouts_def serial_set_timeouts_def port_rel_def port_linux_def)
next
  case (Some im)
  have q: "serial_pimpl q = Some (im_linux im)" "im_at h im"
    using Some assms(2) by (simp_all add: port_rel_def port_at_def)
  show ?thesis
  proof (cases "ser_sock im")
    case None
    with Some q assms(1) show ?thesis
      by (simp add: wserial_set_timeouts_def serial_set_timeouts_def im_rel_def)
  next
    case s: (Some s)
    then have "sock_at h s" using q(2) by (simp add: im_at_def)
    from sim_set_timeouts [OF assms(1) this, of W wt rt] show ?thesis
      using Some s q by (auto simp: wserial_set_timeouts_def serial_set_timeouts_def im_rel_def rel_prod_sel split: prod.split)
  qed
qed

text \<open>The calls of \<open>Serial_Queue\<close>, on the Windows port.\<close>

fun wport_do :: "'w wenv \<Rightarrow> port_call \<Rightarrow> wserial_port \<Rightarrow> 'w wmachine \<Rightarrow>
    ((port_answer \<times> wserial_port) \<times> 'w wmachine) option" where
  "wport_do e (CRead buf) p m = (let (((n, b), p), m) = wserial_read e p buf m in Some ((ARead n b, p), m))"
| "wport_do e (CReadExact buf) p m = (let (((ok, b), p), m) = wserial_read_exact e p buf m in Some ((AExact ok b, p), m))"
| "wport_do e CReadByte p m = (let ((r, p), m) = wserial_read_byte e p m in Some ((AByte r, p), m))"
| "wport_do e (CReadLine d t) p m = map_option (\<lambda>((l, p), m). ((ALine l, p), m)) (wserial_read_line e p d t m)"
| "wport_do e (CPurge fl) p m = map_option (\<lambda>(p, m). ((ADone, p), m)) (wserial_purge e p fl m)"
| "wport_do e (CWrite bs) p m = (let (n, m) = wserial_write e p bs m in Some ((ACount n, p), m))"
| "wport_do e (CWriteLine l eol) p m = (let (ok, m) = wserial_write_line e p l eol m in Some ((ABool ok, p), m))"
| "wport_do e CQueueStatus p m = (let (n, m) = wserial_get_rx_queue_status e p m in Some ((AStatus n, p), m))"
| "wport_do e (CTimeouts rt wt) p m = (let (p, m) = wserial_set_timeouts e p rt wt m in Some ((ADone, p), m))"

fun wport_run :: "'w wenv \<Rightarrow> port_call list \<Rightarrow> wserial_port \<Rightarrow> 'w wmachine \<Rightarrow>
    ((port_answer list \<times> wserial_port) \<times> 'w wmachine) option" where
  "wport_run e [] p m = Some (([], p), m)"
| "wport_run e (c # cs) p m = (case wport_do e c p m of None \<Rightarrow> None
     | Some ((a, p), m) \<Rightarrow> map_option (\<lambda>((as, p), m). ((a # as, p), m)) (wport_run e cs p m))"

text \<open>Buffers to read into are shorter than 2 GiB; what is written may have any length.\<close>

fun call_fits :: "port_call \<Rightarrow> bool" where
  "call_fits (CRead buf) \<longleftrightarrow> fits_int (length buf)"
| "call_fits (CReadExact buf) \<longleftrightarrow> fits_int (length buf)"
| "call_fits _ \<longleftrightarrow> True"

lemma sim_do:
  assumes "viewed h wm m" "port_rel h p q" "call_fits c"
  shows "rel_option (outcome_rel h) (wport_do W c p wm) (port_do (view_env W h) c q m)"
proof (cases c)
  case (CRead buf)
  then show ?thesis using sim_read [OF assms(1,2), of buf W] assms(3) by (auto simp: rel_prod_sel split: prod.split)
next
  case (CReadExact buf)
  then show ?thesis using sim_read_exact [OF assms(1,2), of buf W] assms(3) by (auto simp: rel_prod_sel split: prod.split)
next
  case CReadByte
  then show ?thesis using sim_read_byte [OF assms(1,2), of W] by (auto simp: rel_prod_sel split: prod.split)
next
  case (CReadLine d t)
  then show ?thesis using sim_read_line [OF assms(1,2), of W d t]
    by (auto elim!: option.rel_cases)
next
  case (CPurge fl)
  then show ?thesis using sim_purge [OF assms(1,2), of W fl] by (auto elim!: option.rel_cases)
next
  case (CWrite bs)
  then show ?thesis using sim_write [OF assms(1,2), of W bs] assms(2) by (auto simp: rel_prod_sel split: prod.split)
next
  case (CWriteLine l eol)
  then show ?thesis using sim_write_line [OF assms(1,2), of W l eol] assms(2) by (auto simp: rel_prod_sel split: prod.split)
next
  case CQueueStatus
  then show ?thesis using sim_queue_status [OF assms(1,2), of W] assms(2) by (auto simp: rel_prod_sel split: prod.split)
next
  case (CTimeouts rt wt)
  then show ?thesis using sim_port_timeouts [OF assms(1,2), of W rt wt] by (auto simp: rel_prod_sel split: prod.split)
qed

lemma sim_run:
  assumes "viewed h wm m" "port_rel h p q" "list_all call_fits cs"
  shows "rel_option (outcome_rel h) (wport_run W cs p wm) (port_run (view_env W h) cs q m)"
  using assms
proof (induction cs arbitrary: p q wm m)
  case (Cons c cs)
  have fits: "call_fits c" "list_all call_fits cs" using Cons.prems(3) by simp_all
  from sim_do [OF Cons.prems(1,2) fits(1), of W] show ?case
  proof (cases rule: option.rel_cases)
    case None
    then show ?thesis by simp
  next
    case (Some x y)
    obtain a p1 wm1 where x: "x = ((a, p1), wm1)" by (metis prod.collapse)
    obtain q1 m1 where y: "y = ((a, q1), m1)" "port_rel h p1 q1" "viewed h wm1 m1" using Some(3) x by (cases y) auto
    from Cons.IH [OF y(3,2) fits(2)] Some(1,2) x y(1) show ?thesis
      by (auto elim!: option.rel_cases)
  qed
qed simp

end
