(* ===== verification/Serial_Win_Facts.thy ===== *)
theory Serial_Win_Facts
  imports Serial_Sim
begin

text \<open>
  What holds of the Windows port because it is the Linux port over the Winsock of one socket: the equation
  itself, the refinement of the byte queue, and that \<open>read_line\<close> returns.
\<close>

section \<open>The port and its stream\<close>

definition wserial_fd :: "wserial_port \<Rightarrow> win_socket" where
  "wserial_fd p = (case serial_underlying_socket p of None \<Rightarrow> INVALID_SOCKET | Some s \<Rightarrow> wsocket_fd s)"

definition wcache_sound :: "wserial_port \<Rightarrow> 'w wmachine \<Rightarrow> bool" where
  "wcache_sound p m \<longleftrightarrow> wserial_is_open p \<and> head_in_bounds p \<and> suffix (serial_cache p) (warrived (wserial_fd p) m)"

definition wconsumed :: "wserial_port \<Rightarrow> 'w wmachine \<Rightarrow> u8 list" where
  "wconsumed p m = (let a = warrived (wserial_fd p) m in take (length a - length (serial_cache p)) a)"

text \<open>A machine of the Linux build that has seen the same bytes on its descriptor zero.\<close>

definition seen_as :: "win_socket \<Rightarrow> 'w wmachine \<Rightarrow> 'w machine" where
  "seen_as h m =
     (let w = wworld m; got = warrived h m; sent = waccepted h m
      in emit (EvSend 0 sent (int (length sent))) w (emit (EvRecv 0 (length got) (int (length got)) got) w
           (emit (EvSocket 0) w (boot w))))"

lemma viewed_seen_as: "viewed h m (seen_as h m)"
  by (simp add: viewed_def seen_as_def Let_def) (simp add: arrived_def accepted_def boot_def)

lemma open_port_at: "wserial_is_open p \<Longrightarrow> port_at (wserial_fd p) p"
  by (auto simp: wserial_is_open_def port_at_def im_at_def sock_at_def wserial_fd_def serial_underlying_socket_def
      split: option.splits)

lemma fd_port_linux: "wserial_is_open p \<Longrightarrow> serial_fd (port_linux p) = 0"
  by (auto simp: wserial_is_open_def serial_fd_def serial_underlying_socket_def split: option.splits)

lemma fd_port_at: "port_at h p \<Longrightarrow> wserial_is_open p \<Longrightarrow> wserial_fd p = h"
  by (auto simp: wserial_is_open_def port_at_def im_at_def sock_at_def wserial_fd_def serial_underlying_socket_def
      split: option.splits)

lemma owned_port_linux: "wserial_is_open p \<Longrightarrow> serial_owned (port_linux p) (seen_as h m)"
  by (auto simp: wserial_is_open_def serial_owned_def serial_valid_def serial_holds_def socket_valid_def sock_linux_def
      serial_underlying_socket_def socket_holds_def socket_is_open_def socket_fd_def seen_as_def
      wsocket_is_open_def Let_def INVALID_SOCKET_HANDLE_def split: option.splits if_splits)

lemma cache_port_linux:
  "wcache_sound p m \<Longrightarrow> cache_sound (port_linux p) (seen_as (wserial_fd p) m)
     \<and> consumed (port_linux p) (seen_as (wserial_fd p) m) = wconsumed p m"
  using viewed_seen_as [of "wserial_fd p" m]
  by (simp add: wcache_sound_def cache_sound_def consumed_def wconsumed_def fd_port_linux viewed_def)

section \<open>The two builds\<close>

text \<open>
  C35. The serial port of the Windows build behaves as that of the Linux build. Over any sequence of calls, mixed in
  any way, on an open port: with a kernel that answers as Winsock does, the Linux port returns exactly when the
  Windows port does, gives the same answers, is left with the same cache, has received and sent the same bytes and
  leaves the outside world in the same state. Buffers to read into are shorter than 2 GiB.
\<close>

theorem windows_port_equals_linux_port:
  assumes "viewed (wserial_fd p) wm m" "wserial_is_open p" "list_all call_fits cs"
  shows "map_option (\<lambda>((as, q), m). (as, serial_cache q, arrived 0 m, accepted 0 m, world m))
      (port_run (view_env W (wserial_fd p)) cs (port_linux p) m) =
    map_option (\<lambda>((as, q), m). (as, serial_cache q, warrived (wserial_fd p) m, waccepted (wserial_fd p) m, wworld m))
      (wport_run W cs p wm)"
proof -
  have "port_rel (wserial_fd p) p (port_linux p)" using open_port_at [OF assms(2)] by (simp add: port_rel_def)
  from sim_run [OF assms(1) this assms(3), of W] show ?thesis
    by (auto elim!: option.rel_cases simp: port_rel_def viewed_def)
qed

text \<open>A port over the sample Winsock, with two unread bytes, on a machine that has received them.\<close>

definition sample_wport :: wserial_port where
  "sample_wport = SerialPort (Some (serial_impl_default\<lparr>ser_sock := Some sample_wsocket, rx_buf := [65, 66, 10], rx_head := 1\<rparr>))"

definition sample_wmachine :: "wsim wmachine" where
  "sample_wmachine = wemit (WRecv 8 4096 3 [65, 66, 10]) (wsim_start\<lparr>ws_in := [67, 13, 10]\<rparr>) (wboot wsim_start)"

definition sample_calls :: "port_call list" where
  "sample_calls = [CReadByte, CQueueStatus, CReadExact [0, 0], CWrite [9], CReadByte]"

lemma sample_wport_open [simp]: "wserial_is_open sample_wport" "wserial_fd sample_wport = 8"
  by (simp_all add: sample_wport_def sample_wsocket_def wserial_is_open_def wsocket_is_open_def wserial_fd_def
      serial_underlying_socket_def wsocket_fd_def INVALID_SOCKET_def)

theorem windows_port_equals_linux_port_witness:
  "map_option (\<lambda>((as, q), m). (as, serial_cache q, accepted 0 m))
      (port_run (view_env win_sim 8) sample_calls (port_linux sample_wport) (seen_as 8 sample_wmachine)) =
    Some ([AByte (Some 66), AStatus 4, AExact True [10, 67], ACount 1, AByte (Some 13)], [10], [9])"
proof -
  have v: "viewed (wserial_fd sample_wport) sample_wmachine (seen_as 8 sample_wmachine)" by (simp add: viewed_seen_as)
  have fits: "list_all call_fits sample_calls" by (simp add: sample_calls_def fits_int_def)
  have "map_option (\<lambda>((as, q), m). (as, serial_cache q, waccepted 8 m)) (wport_run win_sim sample_calls sample_wport sample_wmachine) =
    Some ([AByte (Some 66), AStatus 4, AExact True [10, 67], ACount 1, AByte (Some 13)], [10], [9])" by code_simp
  with windows_port_equals_linux_port [OF v sample_wport_open(1) fits, of win_sim] show ?thesis
    by (cases "port_run (view_env win_sim 8) sample_calls (port_linux sample_wport) (seen_as 8 sample_wmachine)";
        cases "wport_run win_sim sample_calls sample_wport sample_wmachine") auto
qed

section \<open>The byte queue\<close>

text \<open>
  C36. The serial port of the Windows build refines the reader of a byte queue. Over any sequence of calls, mixed in
  any way, with buffers shorter than 2 GiB, the answers are explained by successive pieces of the one stream of
  bytes that Winsock has delivered: none is lost, repeated or reordered, except what a purge drops; what no call
  has taken is the cache.
\<close>

theorem windows_port_refines_queue:
  assumes "win_recv_bounded W" "wcache_sound p m" "list_all call_fits cs" "wport_run W cs p m = Some ((as, p'), m')"
  shows "\<exists>gots. queue_run cs as gots
    \<and> warrived (wserial_fd p) m' = wconsumed p m @ concat gots @ serial_cache p'
    \<and> wcache_sound p' m' \<and> wserial_fd p' = wserial_fd p"
proof -
  let ?h = "wserial_fd p"
  have op: "wserial_is_open p" using assms(2) by (simp add: wcache_sound_def)
  have "port_rel ?h p (port_linux p)" using open_port_at [OF op] by (simp add: port_rel_def)
  from sim_run [OF viewed_seen_as this assms(3), of W m] obtain q' n' where
    run: "port_run (view_env W ?h) cs (port_linux p) (seen_as ?h m) = Some ((as, q'), n')" "port_rel ?h p' q'" "viewed ?h m' n'"
    using assms(4) by (auto elim!: option.rel_cases)
  note own = owned_port_linux [OF op, of ?h m] and sound = cache_port_linux [OF assms(2)]
  obtain gots where g: "queue_run cs as gots" "port_ready q' n'" "consumed q' n' = consumed (port_linux p) (seen_as ?h m) @ concat gots"
    "serial_fd q' = serial_fd (port_linux p)"
    using port_run_queue [OF view_env_bounded [OF assms(1)] _ run(1)] own sound by (auto simp: port_ready_def)
  have q': "q' = port_linux p'" "port_at ?h p'" using run(2) by (simp_all add: port_rel_def)
  have snd: "cache_sound q' n'" using g(2) by (simp add: port_ready_def)
  then have op': "wserial_is_open p'" using q'(1) by (simp add: cache_sound_def)
  note fd = fd_port_at [OF q'(2) op']
  have arr: "arrived (serial_fd q') n' = warrived ?h m'" using run(3) q'(1) fd_port_linux [OF op'] by (simp add: viewed_def)
  have "warrived ?h m' = wconsumed p m @ concat gots @ serial_cache p'"
    using consumed_append [OF snd] g(3) sound q'(1) arr by simp
  moreover have "wcache_sound p' m'" using snd arr op' fd q'(1) by (simp add: wcache_sound_def cache_sound_def)
  ultimately show ?thesis using g(1) fd by blast
qed

theorem windows_port_refines_queue_witness:
  "\<exists>p' m' gots. wport_run win_sim sample_calls sample_wport sample_wmachine =
      Some (([AByte (Some 66), AStatus 4, AExact True [10, 67], ACount 1, AByte (Some 13)], p'), m')
    \<and> queue_run sample_calls [AByte (Some 66), AStatus 4, AExact True [10, 67], ACount 1, AByte (Some 13)] gots
    \<and> [65, 66, 10, 67, 13, 10] = [65] @ concat gots @ serial_cache p'"
proof -
  let ?as = "[AByte (Some 66), AStatus 4, AExact True [10, 67], ACount 1, AByte (Some 13)]"
  have "map_option (\<lambda>((as, q), m). (as, warrived 8 m)) (wport_run win_sim sample_calls sample_wport sample_wmachine) =
    Some (?as, [65, 66, 10, 67, 13, 10])" by code_simp
  then obtain p' m' where r: "wport_run win_sim sample_calls sample_wport sample_wmachine = Some ((?as, p'), m')"
    "warrived 8 m' = [65, 66, 10, 67, 13, 10]" by auto
  have arr: "warrived 8 sample_wmachine = [65, 66, 10]" "serial_cache sample_wport = [66, 10]" "head_in_bounds sample_wport"
    "wconsumed sample_wport sample_wmachine = [65]" by code_simp+
  have "suffix [66, 10] [65, 66, 10 :: u8]" by (simp add: suffix_def)
  then have sound: "wcache_sound sample_wport sample_wmachine" using arr by (simp add: wcache_sound_def)
  have fits: "list_all call_fits sample_calls" by (simp add: sample_calls_def fits_int_def)
  from windows_port_refines_queue [OF win_sim_bounded(2) sound fits r(1)] r arr(4) show ?thesis by auto
qed

section \<open>Lines\<close>

text \<open>With a positive timeout \<open>read_line\<close> returns on Windows too, provided the clock moves on during a \<open>recv\<close>.\<close>

definition win_clock_runs :: "'w wenv \<Rightarrow> ('w \<Rightarrow> int) \<Rightarrow> bool" where
  "win_clock_runs e clk \<longleftrightarrow> (\<forall>w. fst (w_now e w) = clk w \<and> clk w \<le> clk (snd (w_now e w)))
     \<and> (\<forall>h n w. clk w < clk (snd (w_recv e h n w)))"

theorem windows_read_line_returns:
  assumes "win_clock_runs e clk" "0 < t"
  shows "\<exists>y. wserial_read_line e p d t m = Some y"
proof (cases "wserial_is_open p")
  case True
  let ?h = "wserial_fd p"
  have rel: "port_rel ?h p (port_linux p)" using open_port_at [OF True] by (simp add: port_rel_def)
  have runs: "clock_runs (view_env e ?h) clk" using assms(1) by (simp add: clock_runs_def win_clock_runs_def)
  have op: "serial_is_open (port_linux p)" using True by simp
  obtain im s start m1 where r: "serial_read_line (view_env e ?h) (port_linux p) d t (seen_as ?h m) =
      map_option (\<lambda>((line, im), m). ((line, SerialPort (Some im)), m)) (read_line_loop (view_env e ?h) d t start im [] m1)"
    by (rule serial_read_line_parts [OF op, of "view_env e ?h" "seen_as ?h m" d t])
  have "serial_read_line (view_env e ?h) (port_linux p) d t (seen_as ?h m) \<noteq> None"
    using read_line_loop_returns [OF runs assms(2), of d start im "[]" m1] r by auto
  with sim_read_line [OF viewed_seen_as rel, of e d t m] show ?thesis by (auto elim!: option.rel_cases)
next
  case False
  then have "wserial_parts p = None"
    by (auto simp: wserial_parts_def wserial_is_open_def split: option.splits)
  then show ?thesis by (simp add: wserial_read_line_def)
qed

end
