(* ===== verification/Api_Defaults.thy ===== *)
theory Api_Defaults
  imports Client_Model Server_Model Serial_Lines
begin

text \<open>
  The overloads and default arguments that the headers of \<open>include/simple_rfcomm/\<close> declare: what a caller gets
  that leaves an argument out, or that passes a raw pointer and a size instead of a span.
\<close>

section \<open>Default arguments\<close>

definition socket_recv_some_default :: "'w env \<Rightarrow> socket \<Rightarrow> 'w machine \<Rightarrow> u8 list \<times> 'w machine" where
  "socket_recv_some_default e s m = socket_recv_some e s 4096 m"

definition socket_set_buffer_sizes_default :: "'w env \<Rightarrow> socket \<Rightarrow> 'w machine \<Rightarrow> bool \<times> 'w machine" where
  "socket_set_buffer_sizes_default e s m = socket_set_buffer_sizes e s DEFAULT_BUFFER_SIZE DEFAULT_BUFFER_SIZE m"

definition server_listen_default :: "'w env \<Rightarrow> server \<Rightarrow> 'w machine \<Rightarrow> ((ub + bool) \<times> server) \<times> 'w machine" where
  "server_listen_default e srv m = server_listen e srv 0 4 m"

definition server_listen_with_sdp_default ::
  "'w env \<Rightarrow> server \<Rightarrow> uuid \<Rightarrow> 'w machine \<Rightarrow> ((ub + bool) \<times> server) \<times> 'w machine" where
  "server_listen_with_sdp_default e srv u m = server_listen_with_sdp e srv u ''RFCOMM Service'' 0 4 m"

definition client_connect_default :: "'w env \<Rightarrow> address \<Rightarrow> u8 \<Rightarrow> 'w machine \<Rightarrow> socket option \<times> 'w machine" where
  "client_connect_default e addr channel m = client_connect e addr channel 10000 m"

definition client_connect_by_sdp_default ::
  "'w env \<Rightarrow> address \<Rightarrow> uuid \<Rightarrow> 'w machine \<Rightarrow> (ub + socket option) \<times> 'w machine" where
  "client_connect_by_sdp_default e addr u m = client_connect_by_sdp e addr u 10000 m"

definition serial_open_default ::
  "'w env \<Rightarrow> serial_port \<Rightarrow> address \<Rightarrow> u8 \<Rightarrow> 'w machine \<Rightarrow> ((ub + bool) \<times> serial_port) \<times> 'w machine" where
  "serial_open_default e p addr channel m = serial_open e p addr channel 5000 m"

definition serial_open_mac_default ::
  "'w env \<Rightarrow> serial_port \<Rightarrow> string \<Rightarrow> u8 \<Rightarrow> 'w machine \<Rightarrow> ((ub + bool) \<times> serial_port) \<times> 'w machine" where
  "serial_open_mac_default e p mac channel m = serial_open_mac e p mac channel 5000 m"

definition serial_open_by_uuid_default ::
  "'w env \<Rightarrow> serial_port \<Rightarrow> address \<Rightarrow> 'w machine \<Rightarrow> ((ub + bool) \<times> serial_port) \<times> 'w machine" where
  "serial_open_by_uuid_default e p addr m = serial_open_by_uuid e p addr uuid_serial_port 5000 m"

definition serial_open_by_uuid_text_default ::
  "'w env \<Rightarrow> serial_port \<Rightarrow> string \<Rightarrow> string \<Rightarrow> 'w machine \<Rightarrow> ((ub + bool) \<times> serial_port) \<times> 'w machine" where
  "serial_open_by_uuid_text_default e p mac uuid_str m = serial_open_by_uuid_text e p mac uuid_str 5000 m"

definition serial_read_line_default ::
  "'w env \<Rightarrow> serial_port \<Rightarrow> 'w machine \<Rightarrow> ((string \<times> serial_port) \<times> 'w machine) option" where
  "serial_read_line_default e p m = serial_read_line e p (CHR 0x0A) 5000 m"

definition serial_write_line_default :: "'w env \<Rightarrow> serial_port \<Rightarrow> string \<Rightarrow> 'w machine \<Rightarrow> bool \<times> 'w machine" where
  "serial_write_line_default e p line m = serial_write_line e p line [CHR 0x0D, CHR 0x0A] m"

definition serial_purge_default :: "'w env \<Rightarrow> serial_port \<Rightarrow> 'w machine \<Rightarrow> (serial_port \<times> 'w machine) option" where
  "serial_purge_default e p m = serial_purge e p PurgeAll m"

definition serial_bytes_available :: "'w env \<Rightarrow> serial_port \<Rightarrow> 'w machine \<Rightarrow> u64 \<times> 'w machine" where
  "serial_bytes_available e p m = serial_get_rx_queue_status e p m"

section \<open>Raw buffers\<close>

text \<open>\<open>mem\<close> is the memory from the pointer on, of which the call may touch the first \<open>nbytes\<close>.\<close>

definition serial_read_raw ::
  "'w env \<Rightarrow> serial_port \<Rightarrow> u8 list \<Rightarrow> nat \<Rightarrow> 'w machine \<Rightarrow> ((nat \<times> u8 list) \<times> serial_port) \<times> 'w machine" where
  "serial_read_raw e p mem nbytes m =
     (let (((n, span), p), m) = serial_read e p (take nbytes mem) m in (((n, span @ drop nbytes mem), p), m))"

definition serial_write_raw :: "'w env \<Rightarrow> serial_port \<Rightarrow> u8 list \<Rightarrow> nat \<Rightarrow> 'w machine \<Rightarrow> nat \<times> 'w machine" where
  "serial_write_raw e p mem nbytes m = serial_write e p (take nbytes mem) m"

text \<open>A read into memory stays within its size and stores the next bytes of the stream.\<close>

lemma serial_read_raw_effect:
  assumes "recv_bounded e" "cache_sound p m" "nbytes \<le> length mem" "serial_read_raw e p mem nbytes m = (((n, mem'), p'), m')"
  shows "cache_sound p' m' \<and> n \<le> nbytes \<and> length mem' = length mem \<and> drop n mem' = drop n mem
    \<and> consumed p' m' = consumed p m @ take n mem'"
proof -
  obtain span where r: "serial_read e p (take nbytes mem) m = (((n, span), p'), m')" "mem' = span @ drop nbytes mem"
    using assms(4) by (auto simp: serial_read_raw_def split: prod.splits)
  note eff = serial_read_effect [OF assms(1,2) r(1)]
  have "length (take nbytes mem) = nbytes" using assms(3) by simp
  with eff have n: "n \<le> nbytes" "length span = nbytes" "drop n span = drop n (take nbytes mem)" by simp_all
  then have "drop n mem' = drop n (take nbytes mem @ drop nbytes mem)" using r(2) assms(3) by (simp only: drop_append) simp
  with eff n r(2) assms(3) show ?thesis by simp
qed

end
