(* ===== verification/Server_Contract.thy ===== *)
theory Server_Contract
  imports Server_Facts Server_Win_Facts
begin

text \<open>
  The abstract server: idle, listening on a channel, or listening with its service published. The
  Linux and the Windows model of \<open>class Server\<close> both refine it: every sequence of calls on either gives
  answers that the abstract server can give.
\<close>

section \<open>The abstract server\<close>

datatype server_phase = Idle | Listening u8 | Published u8

datatype server_call =
    CallListen u8 int
  | CallPublish uuid string u8 int
  | CallAccept
  | CallClose
  | AskListening
  | AskChannel

datatype server_answer = AnsBool bool | AnsChannel u8 | AnsNone | AnsUndefined ub

fun phase_channel :: "server_phase \<Rightarrow> u8" where
  "phase_channel Idle = 0"
| "phase_channel (Listening c) = c"
| "phase_channel (Published c) = c"

text \<open>The channel granted is the one asked for; asked to choose, the server takes one from 1 to 30.\<close>

definition granted :: "u8 \<Rightarrow> u8 \<Rightarrow> bool" where
  "granted ch c \<longleftrightarrow> (if ch = 0 then 1 \<le> c \<and> c \<le> 30 else c = ch)"

inductive phase_step :: "server_phase \<Rightarrow> server_call \<Rightarrow> server_answer \<Rightarrow> server_phase \<Rightarrow> bool" where
  listened: "granted ch c \<Longrightarrow> phase_step ph (CallListen ch n) (AnsBool True) (Listening c)"
| listen_failed: "phase_step ph (CallListen ch n) (AnsBool False) Idle"
| was_published: "granted ch c \<Longrightarrow> phase_step ph (CallPublish u name ch n) (AnsBool True) (Published c)"
| publish_failed: "phase_step ph (CallPublish u name ch n) (AnsBool False) Idle"
| accepted: "(ph = Idle \<Longrightarrow> \<not> b) \<Longrightarrow> phase_step ph CallAccept (AnsBool b) ph"
| closed: "phase_step ph CallClose AnsNone Idle"
| ask_listening: "phase_step ph AskListening (AnsBool (ph \<noteq> Idle)) ph"
| ask_channel: "phase_step ph AskChannel (AnsChannel (phase_channel ph)) ph"

inductive phase_run :: "server_phase \<Rightarrow> (server_call \<times> server_answer) list \<Rightarrow> server_phase \<Rightarrow> bool" where
  run_nil: "phase_run ph [] ph"
| run_cons: "phase_step ph c a ph' \<Longrightarrow> phase_run ph' cas ph'' \<Longrightarrow> phase_run ph ((c, a) # cas) ph''"

inductive_cases phase_run_consE: "phase_run ph ((c, a) # cas) ph'"
inductive_cases phase_run_nilE: "phase_run ph [] ph'"

section \<open>The contract\<close>

text \<open>A sequence of calls on one object, with the answers.\<close>

fun run_calls :: "(server_call \<Rightarrow> 's \<Rightarrow> 'm \<Rightarrow> (server_answer \<times> 's) \<times> 'm) \<Rightarrow> server_call list \<Rightarrow> 's \<Rightarrow> 'm \<Rightarrow>
    (server_answer list \<times> 's) \<times> 'm" where
  "run_calls call [] s m = (([], s), m)"
| "run_calls call (c # cs) s m =
     (let ((a, s), m) = call c s m; ((as, s), m) = run_calls call cs s m in ((a # as, s), m))"

locale server_contract =
  fixes call :: "'e \<Rightarrow> server_call \<Rightarrow> 's \<Rightarrow> 'm \<Rightarrow> (server_answer \<times> 's) \<times> 'm"
    and phase :: "'s \<Rightarrow> server_phase"
    and ok :: "'s \<Rightarrow> 'm \<Rightarrow> bool"
    and good :: "'e \<Rightarrow> bool"
  assumes call_sim: "good e \<Longrightarrow> ok s m \<Longrightarrow> call e c s m = ((a, s'), m') \<Longrightarrow>
      ok s' m' \<and> phase_step (phase s) c a (phase s')"
begin

lemma run_refines:
  assumes "good e" "ok s m" "run_calls (call e) cs s m = ((as, s'), m')"
  shows "ok s' m' \<and> length as = length cs \<and> phase_run (phase s) (zip cs as) (phase s')"
  using assms(2,3)
proof (induction cs arbitrary: s m as)
  case Nil
  then show ?case by (auto intro: run_nil)
next
  case (Cons c cs)
  obtain a s1 m1 where c: "call e c s m = ((a, s1), m1)" by (metis prod.collapse)
  obtain as1 where r: "run_calls (call e) cs s1 m1 = ((as1, s'), m')" "as = a # as1"
    using Cons.prems(2) c by (auto split: prod.splits)
  from call_sim [OF assms(1) Cons.prems(1) c] Cons.IH [OF _ r(1)] r(2)
  show ?case by (auto intro: run_cons)
qed

end

section \<open>The Linux server\<close>

definition phase_of :: "server \<Rightarrow> server_phase" where
  "phase_of s =
     (if \<not> server_is_listening s then Idle
      else if registration_is_registered (server_reg s) then Published (server_channel s)
      else Listening (server_channel s))"

fun answer_of :: "(ub + bool) \<Rightarrow> server_answer" where
  "answer_of (Inl b) = AnsUndefined b"
| "answer_of (Inr x) = AnsBool x"

text \<open>The methods behind one interface. An accepted socket is the caller's.\<close>

fun server_do :: "'w env \<Rightarrow> server_call \<Rightarrow> server \<Rightarrow> 'w machine \<Rightarrow> (server_answer \<times> server) \<times> 'w machine" where
  "server_do e (CallListen ch n) s m =
     (case server_listen e s ch n m of ((r, s), m) \<Rightarrow> ((answer_of r, s), m))"
| "server_do e (CallPublish u name ch n) s m =
     (case server_listen_with_sdp e s u name ch n m of ((r, s), m) \<Rightarrow> ((answer_of r, s), m))"
| "server_do e CallAccept s m =
     (case server_accept e s m of (r, m) \<Rightarrow> ((AnsBool (r \<noteq> None), s), m))"
| "server_do e CallClose s m = (case server_close e s m of (s, m) \<Rightarrow> ((AnsNone, s), m))"
| "server_do e AskListening s m = ((AnsBool (server_is_listening s), s), m)"
| "server_do e AskChannel s m = ((AnsChannel (server_channel s), s), m)"

definition server_ready :: "server \<Rightarrow> 'w machine \<Rightarrow> bool" where
  "server_ready s m \<longleftrightarrow> server_owned s m \<and> server_pimpl s \<noteq> None"

lemma server_listen_kept: "server_listen e s ch n m = ((Inr b, s'), m') \<Longrightarrow> server_pimpl s' \<noteq> None"
  by (auto simp: server_listen_def Let_def split: option.splits prod.splits if_splits)

lemma server_publish_kept:
  "server_listen_with_sdp e s u name ch n m = ((Inr b, s'), m') \<Longrightarrow> server_pimpl s' \<noteq> None"
  by (auto simp: server_listen_with_sdp_def Let_def dest: server_listen_kept
      split: option.splits prod.splits if_splits sum.splits bool.splits)

lemma word_le_30: "1 \<le> (c :: u8) \<longleftrightarrow> c \<noteq> 0"
  by (simp add: word_le_nat_alt Suc_le_eq unat_gt_0)

lemma server_listen_refines:
  assumes "server_ready s m" "server_listen e s ch n m = ((r, s'), m')"
  shows "server_ready s' m' \<and> phase_step (phase_of s) (CallListen ch n) (answer_of r) (phase_of s')"
proof -
  have o: "server_owned s m" "server_pimpl s \<noteq> None" using assms(1) by (simp_all add: server_ready_def)
  obtain s0 m0 where c: "server_close e s m = (s0, m0)" by (metis prod.collapse)
  have v: "server_valid s" using o(1) by (simp add: server_owned_def)
  note eff = server_listen_effect(1,2,3) [OF v c o(2) assms(2)] and own = server_listen_owned [OF o assms(2)]
  have "server_pimpl s' \<noteq> None" using assms(2) unfolding eff(2) by (rule server_listen_kept)
  moreover have "phase_of s' = (if server_is_listening s' then Listening (server_channel s') else Idle)"
    using eff(3) by (simp add: phase_of_def)
  moreover have "server_is_listening s' \<Longrightarrow> granted ch (server_channel s')"
    using own server_listening_channel [OF eff(1)] by (auto simp: granted_def word_le_30)
  ultimately show ?thesis
    using own by (cases "server_is_listening s'") (auto simp: server_ready_def intro: phase_step.intros)
qed

lemma server_publish_refines:
  assumes "server_ready s m" "server_listen_with_sdp e s u name ch n m = ((r, s'), m')"
  shows "server_ready s' m' \<and> phase_step (phase_of s) (CallPublish u name ch n) (answer_of r) (phase_of s')"
proof -
  have o: "server_owned s m" "server_pimpl s \<noteq> None" using assms(1) by (simp_all add: server_ready_def)
  note eff = server_listen_with_sdp_effect [OF o assms(2)]
  have "server_pimpl s' \<noteq> None" using assms(2) unfolding conjunct1 [OF eff] by (rule server_publish_kept)
  moreover have "phase_of s' = (if server_is_listening s' then Published (server_channel s') else Idle)"
    using eff by (simp add: phase_of_def)
  moreover have "server_is_listening s' \<Longrightarrow> granted ch (server_channel s')"
    using eff server_listening_channel [of s'] by (auto simp: granted_def word_le_30 server_owned_def)
  ultimately show ?thesis
    using eff by (cases "server_is_listening s'") (auto simp: server_ready_def intro: phase_step.intros)
qed

interpretation linux_server: server_contract server_do phase_of server_ready "\<lambda>_. True"
proof
  fix e :: "'w env" and s s' :: server and m m' :: "'w machine" and c a
  assume ready: "server_ready s m" and call: "server_do e c s m = ((a, s'), m')"
  have o: "server_owned s m" "server_pimpl s \<noteq> None" "server_valid s"
    using ready by (simp_all add: server_ready_def server_owned_def)
  show "server_ready s' m' \<and> phase_step (phase_of s) c a (phase_of s')"
  proof (cases c)
    case (CallListen ch n)
    with call server_listen_refines [OF ready] show ?thesis by (auto split: prod.splits)
  next
    case (CallPublish u name ch n)
    with call server_publish_refines [OF ready] show ?thesis by (auto split: prod.splits)
  next
    case CallAccept
    then obtain r where r: "server_accept e s m = (r, m')" "s' = s" "a = AnsBool (r \<noteq> None)"
      using call by (auto split: prod.splits)
    have "server_owned s m'"
      using server_accept_effect [OF o(3) r(1)] o(1)
      by (cases r) (auto simp: server_owned_def same_sdp_def
          intro: subset_mset.order_trans [OF _ mset_subset_eq_add_left])
    moreover have "r \<noteq> None \<Longrightarrow> server_is_listening s"
      using server_accept_effect [OF o(3) r(1)] by auto
    ultimately show ?thesis
      using r o(2) CallAccept by (auto simp: server_ready_def phase_of_def intro: phase_step.accepted)
  next
    case CallClose
    then have cl: "server_close e s m = (s', m')" "a = AnsNone" using call by (auto split: prod.splits)
    note res = server_close_result [OF o(3) cl(1)] and own = server_close_owned [OF o(1) cl(1)]
    show ?thesis
      using res own o(2) CallClose cl(2)
      by (auto simp: server_ready_def server_owned_def phase_of_def intro: phase_step.closed)
  next
    case AskListening
    moreover have "server_is_listening s = (phase_of s \<noteq> Idle)" by (simp add: phase_of_def)
    ultimately show ?thesis using call ready phase_step.ask_listening [of "phase_of s"] by auto
  next
    case AskChannel
    have "server_channel s = phase_channel (phase_of s)"
      using o(3) by (auto simp: phase_of_def server_defs split: option.splits)
    with AskChannel show ?thesis using call ready phase_step.ask_channel [of "phase_of s"] by auto
  qed
qed

text \<open>
  C19. Refinement: whatever calls are made on a Linux server that has not been moved from, and whatever
  the kernel and BlueZ answer, the answers are ones that the abstract server can give from the same
  phase, and the server ends in the phase that the abstract one reaches.
\<close>

theorem server_refines_lifecycle:
  assumes "server_ready s m" "run_calls (server_do e) cs s m = ((as, s'), m')"
  shows "server_ready s' m' \<and> length as = length cs \<and> phase_run (phase_of s) (zip cs as) (phase_of s')"
  by (rule linux_server.run_refines [OF TrueI assms])

theorem server_refines_lifecycle_witness:
  "fst (fst (run_calls (server_do sim_env)
      [AskChannel, CallListen 5 4, AskChannel, CallPublish uuid_serial_port ''A'' 0 4, AskListening, CallAccept, CallClose,
       CallAccept] server_new (boot sim_start)))
     = [AnsChannel 0, AnsBool True, AnsChannel 5, AnsBool True, AnsBool True, AnsBool True, AnsNone, AnsBool False]
   \<and> phase_run Idle (zip
      [AskChannel, CallListen 5 4, AskChannel, CallPublish uuid_serial_port ''A'' 0 4, AskListening, CallAccept, CallClose,
       CallAccept]
      [AnsChannel 0, AnsBool True, AnsChannel 5, AnsBool True, AnsBool True, AnsBool True, AnsNone, AnsBool False]) Idle"
proof -
  let ?cs = "[AskChannel, CallListen 5 4, AskChannel, CallPublish uuid_serial_port ''A'' 0 4, AskListening, CallAccept,
      CallClose, CallAccept]"
  let ?as = "[AnsChannel 0, AnsBool True, AnsChannel 5, AnsBool True, AnsBool True, AnsBool True, AnsNone, AnsBool False]"
  let ?r = "run_calls (server_do sim_env) ?cs server_new (boot sim_start)"
  have v: "fst (fst ?r) = ?as" "\<not> server_is_listening (snd (fst ?r))" by code_simp+
  obtain as s' m' where r: "?r = ((as, s'), m')" by (metis prod.collapse)
  have "server_ready server_new (boot sim_start)"
    by (simp add: server_ready_def server_owned_def) (simp add: server_new_def)
  from server_refines_lifecycle [OF this r] v r show ?thesis by (simp add: phase_of_def)
qed

section \<open>The Windows server\<close>

text \<open>
  Winsock names a socket after the port it was bound to, and chooses a port from 1 to 30 when asked to.
\<close>

definition win_names_bound :: "'w wenv \<Rightarrow> bool" where
  "win_names_bound e \<longleftrightarrow> (\<forall>h a w w' sa w''. w_bind e h a w = (0, w') \<longrightarrow> w_getsockname e h w' = ((0, sa), w'') \<longrightarrow>
     (if bth_port a = BT_PORT_ANY then 1 \<le> bth_port sa \<and> bth_port sa \<le> 30 else bth_port sa = bth_port a))"

lemma ucast_port_30: "(1 :: u32) \<le> p \<Longrightarrow> p \<le> 30 \<Longrightarrow> (1 :: u8) \<le> ucast p \<and> (ucast p :: u8) \<le> 30"
  by (simp add: word_le_nat_alt unsigned_ucast_eq take_bit_nat_eq_self)

lemma ucast_channel_not_any: "(ucast (c :: u8) :: u32) \<noteq> BT_PORT_ANY"
proof
  assume eq: "(ucast c :: u32) = BT_PORT_ANY"
  have "\<not> bit (ucast c :: u32) 31" by (auto simp: bit_simps dest: bit_imp_le_length)
  then show False unfolding eq by (simp add: BT_PORT_ANY_def bit_simps)
qed

lemma ucast_channel_back [simp]: "(ucast (ucast (c :: u8) :: u32) :: u8) = c"
  by (rule bit_word_eqI) (auto simp: bit_simps)

lemma bound_on_granted:
  assumes "win_names_bound e" "bound_on e h ch c"
  shows "granted ch c"
proof -
  obtain w w' sa w'' where b: "w_bind e h (bound_address ch) w = (0, w')" "w_getsockname e h w' = ((0, sa), w'')"
    "c = ucast (bth_port sa)" using assms(2) by (auto simp: bound_on_def)
  have port: "bth_port (bound_address ch) = (if ch = 0 then BT_PORT_ANY else ucast ch)"
    by (simp add: bound_address_def)
  have "if bth_port (bound_address ch) = BT_PORT_ANY then 1 \<le> bth_port sa \<and> bth_port sa \<le> 30
      else bth_port sa = bth_port (bound_address ch)"
    using assms(1) b(1,2) unfolding win_names_bound_def by blast
  with port b(3) ucast_channel_not_any [of ch] show ?thesis
    by (auto simp: granted_def ucast_port_30 split: if_splits)
qed

definition wserver_published :: "wserver \<Rightarrow> bool" where
  "wserver_published s \<longleftrightarrow> wserver_services s \<noteq> {#}"

definition wphase_of :: "wserver \<Rightarrow> server_phase" where
  "wphase_of s =
     (if \<not> wserver_is_listening s then Idle
      else if wserver_published s then Published (wserver_channel s)
      else Listening (wserver_channel s))"

fun wserver_do :: "'w wenv \<Rightarrow> server_call \<Rightarrow> wserver \<Rightarrow> 'w wmachine \<Rightarrow> (server_answer \<times> wserver) \<times> 'w wmachine" where
  "wserver_do e (CallListen ch n) s m =
     (case wserver_listen e s ch n m of ((r, s), m) \<Rightarrow> ((answer_of r, s), m))"
| "wserver_do e (CallPublish u name ch n) s m =
     (case wserver_listen_with_sdp e s u name ch n m of ((r, s), m) \<Rightarrow> ((answer_of r, s), m))"
| "wserver_do e CallAccept s m =
     (case wserver_accept e s m of (r, m) \<Rightarrow> ((AnsBool (r \<noteq> None), s), m))"
| "wserver_do e CallClose s m = (case wserver_close e s m of (s, m) \<Rightarrow> ((AnsNone, s), m))"
| "wserver_do e AskListening s m = ((AnsBool (wserver_is_listening s), s), m)"
| "wserver_do e AskChannel s m = ((AnsChannel (wserver_channel s), s), m)"

definition wserver_ready :: "wserver \<Rightarrow> 'w wmachine \<Rightarrow> bool" where
  "wserver_ready s m \<longleftrightarrow> wserver_owned s m \<and> wserver_pimpl s \<noteq> None"

lemma wserver_listen_refines:
  assumes "win_names_bound e" "wserver_ready s m" "wserver_listen e s ch n m = ((r, s'), m')"
  shows "wserver_ready s' m' \<and> phase_step (wphase_of s) (CallListen ch n) (answer_of r) (wphase_of s')"
proof -
  have o: "wserver_owned s m" "wserver_pimpl s \<noteq> None" using assms(2) by (simp_all add: wserver_ready_def)
  obtain s0 m0 where c: "wserver_close e s m = (s0, m0)" by (metis prod.collapse)
  note eff = wserver_listen_effect [OF c o(2) assms(3)] and acc = wserver_close_accounts [OF o(1) c]
  have "wserver_ready s' m'" using eff acc by (auto simp: wserver_ready_def wserver_owned_def)
  moreover have "wphase_of s' = (if wserver_is_listening s' then Listening (wserver_channel s') else Idle)"
    using eff by (simp add: wphase_of_def wserver_published_def)
  moreover have "wserver_is_listening s' \<Longrightarrow> granted ch (wserver_channel s')"
    using eff bound_on_granted [OF assms(1) listened_at_bound] by blast
  ultimately show ?thesis
    using eff by (cases "wserver_is_listening s'") (auto intro: phase_step.intros)
qed

lemma wserver_publish_refines:
  assumes "win_names_bound e" "wserver_ready s m" "wserver_listen_with_sdp e s u name ch n m = ((r, s'), m')"
  shows "wserver_ready s' m' \<and> phase_step (wphase_of s) (CallPublish u name ch n) (answer_of r) (wphase_of s')"
proof -
  have o: "wserver_owned s m" "wserver_pimpl s \<noteq> None" using assms(2) by (simp_all add: wserver_ready_def)
  obtain s0 m0 where c: "wserver_close e s m = (s0, m0)" by (metis prod.collapse)
  note eff = wserver_publish_effect [OF o c assms(3)]
  have "wphase_of s' = (if wserver_is_listening s' then Published (wserver_channel s') else Idle)"
    using eff by (simp add: wphase_of_def wserver_published_def)
  moreover have "wserver_is_listening s' \<Longrightarrow> granted ch (wserver_channel s')"
    using eff bound_on_granted [OF assms(1) wpublished_at_bound] by blast
  ultimately show ?thesis
    using eff by (cases "wserver_is_listening s'") (auto simp: wserver_ready_def intro: phase_step.intros)
qed

interpretation win_server: server_contract wserver_do wphase_of wserver_ready win_names_bound
proof
  fix e :: "'w wenv" and s s' :: wserver and m m' :: "'w wmachine" and c a
  assume good: "win_names_bound e" and ready: "wserver_ready s m" and call: "wserver_do e c s m = ((a, s'), m')"
  have o: "wserver_owned s m" "wserver_pimpl s \<noteq> None" "wserver_valid s"
    using ready by (simp_all add: wserver_ready_def wserver_owned_def)
  show "wserver_ready s' m' \<and> phase_step (wphase_of s) c a (wphase_of s')"
  proof (cases c)
    case (CallListen ch n)
    with call wserver_listen_refines [OF good ready] show ?thesis by (auto split: prod.splits)
  next
    case (CallPublish u name ch n)
    with call wserver_publish_refines [OF good ready] show ?thesis by (auto split: prod.splits)
  next
    case CallAccept
    then obtain r where r: "wserver_accept e s m = (r, m')" "s' = s" "a = AnsBool (r \<noteq> None)"
      using call by (auto split: prod.splits)
    have "wserver_owned s m'"
      using wserver_accept_effect [OF o(1) r(1)] o(1)
      by (cases r) (auto simp: wserver_owned_def intro: subset_mset.order_trans [OF _ mset_subset_eq_add_left])
    moreover have "r \<noteq> None \<Longrightarrow> wserver_is_listening s"
      using r(1) by (auto simp: wserver_accept_def split: option.splits if_splits)
    ultimately show ?thesis
      using r o(2) CallAccept by (auto simp: wserver_ready_def wphase_of_def intro: phase_step.accepted)
  next
    case CallClose
    then have cl: "wserver_close e s m = (s', m')" "a = AnsNone" using call by (auto split: prod.splits)
    note res = wserver_close_effect [OF cl(1)] and acc = wserver_close_accounts [OF o(1) cl(1)]
    show ?thesis
      using res acc o(2) CallClose cl(2)
      by (auto simp: wserver_ready_def wserver_owned_def wphase_of_def intro: phase_step.closed)
  next
    case AskListening
    moreover have "wserver_is_listening s = (wphase_of s \<noteq> Idle)" by (simp add: wphase_of_def)
    ultimately show ?thesis using call ready phase_step.ask_listening [of "wphase_of s"] by auto
  next
    case AskChannel
    have "wserver_channel s = phase_channel (wphase_of s)"
      using o(3) by (auto simp: wphase_of_def wserver_defs split: option.splits)
    with AskChannel show ?thesis using call ready phase_step.ask_channel [of "wphase_of s"] by auto
  qed
qed

text \<open>
  C20. Refinement on Windows: where Winsock names a socket after the port it was bound to, the Windows
  server gives, over any sequence of calls, only answers of the same abstract server. A program that
  relies on the abstract server alone runs on both systems.
\<close>

theorem wserver_refines_lifecycle:
  assumes "win_names_bound e" "wserver_ready s m" "run_calls (wserver_do e) cs s m = ((as, s'), m')"
  shows "wserver_ready s' m' \<and> length as = length cs \<and> phase_run (wphase_of s) (zip cs as) (wphase_of s')"
  by (rule win_server.run_refines [OF assms])

lemma win_sim_names_bound: "win_names_bound win_sim"
  by (auto simp: win_names_bound_def win_sim_def)

theorem wserver_refines_lifecycle_witness:
  "let n = wserver_new win_sim (wboot wsim_start);
       cs = [CallListen 7 4, AskChannel, CallPublish uuid_serial_port ''A'' 0 4, AskChannel, CallClose, AskListening];
       as = [AnsBool True, AnsChannel 7, AnsBool True, AnsChannel 5, AnsNone, AnsBool False]
   in fst (fst (run_calls (wserver_do win_sim) cs (fst n) (snd n))) = as \<and> phase_run Idle (zip cs as) Idle"
proof -
  let ?n = "wserver_new win_sim (wboot wsim_start)"
  let ?cs = "[CallListen 7 4, AskChannel, CallPublish uuid_serial_port ''A'' 0 4, AskChannel, CallClose, AskListening]"
  let ?as = "[AnsBool True, AnsChannel 7, AnsBool True, AnsChannel 5, AnsNone, AnsBool False]"
  let ?r = "run_calls (wserver_do win_sim) ?cs (fst ?n) (snd ?n)"
  have v: "fst (fst ?r) = ?as" by code_simp
  have l: "\<not> wserver_is_listening (snd (fst ?r))" by code_simp
  obtain as s' m' where r: "?r = ((as, s'), m')" by (metis prod.collapse)
  have "wserver_ready (fst ?n) (snd ?n)" "wphase_of (fst ?n) = Idle"
    by (simp_all add: wserver_ready_def wserver_owned_def wphase_of_def wserver_new_def wserver_defs)
  moreover have "as = ?as" using v unfolding r by simp
  moreover have "wphase_of s' = Idle" using l unfolding r by (simp add: wphase_of_def)
  ultimately have "phase_run Idle (zip ?cs ?as) Idle"
    using wserver_refines_lifecycle [OF win_sim_names_bound _ r] by metis
  with v show ?thesis by (simp only: Let_def)
qed

end
