(* ===== verification/Program_Args.thy ===== *)
theory Program_Args
  imports Client_Model Server_Model
begin

text \<open>
  What the example programs share: the conversions of the standard library that read their numeric
  arguments, and how a program ends.
\<close>

section \<open>Ends of a program\<close>

text \<open>The service of both benchmark programs.\<close>

definition DEFAULT_BENCH_UUID :: string where
  "DEFAULT_BENCH_UUID = ''e3b0c442-98fc-1c14-9afe-4c9c2e0b5f12''"

text \<open>\<open>main\<close> returns an exit code, or an exception that nothing catches ends the program.\<close>

datatype std_exception = FromParse parse_error | NoConversion | OutOfRange

datatype outcome = Exit int | Uncaught std_exception

section \<open>Numbers in arguments\<close>

text \<open>
  \<open>strtol\<close> in base ten: white space, an optional sign, then as many digits as there are. Trailing text is
  ignored; without a digit there is no conversion.
\<close>

definition is_c_space :: "char \<Rightarrow> bool" where
  "is_c_space c \<longleftrightarrow> c \<in> set [CHR 0x20, CHR 0x09, CHR 0x0A, CHR 0x0B, CHR 0x0C, CHR 0x0D]"

definition is_decimal :: "char \<Rightarrow> bool" where
  "is_decimal c \<longleftrightarrow> 48 \<le> (of_char c :: nat) \<and> (of_char c :: nat) \<le> 57"

definition decimal_value :: "string \<Rightarrow> nat" where
  "decimal_value ds = foldl (\<lambda>v d. 10 * v + (of_char d - 48)) 0 ds"

definition c_number :: "string \<Rightarrow> (bool \<times> nat) option" where
  "c_number s =
     (let s = dropWhile is_c_space s;
          (neg, s) = (case s of [] \<Rightarrow> (False, [])
                      | c # cs \<Rightarrow> if c = CHR ''-'' then (True, cs) else if c = CHR ''+'' then (False, cs) else (False, s));
          ds = takeWhile is_decimal s
      in if ds = [] then None else Some (neg, decimal_value ds))"

text \<open>\<open>std::stoi\<close> converts to a \<open>long\<close> and then requires the range of \<open>int\<close>.\<close>

definition stoi :: "string \<Rightarrow> std_exception + int" where
  "stoi s =
     (case c_number s of
        None \<Rightarrow> Inl NoConversion
      | Some (neg, n) \<Rightarrow>
          let v = (if neg then - int n else int n)
          in if - (2 ^ 31) \<le> v \<and> v < 2 ^ 31 then Inr v else Inl OutOfRange)"

text \<open>\<open>std::stoul\<close>, where \<open>unsigned long\<close> has 64 bits: a sign negates modulo \<open>2 ^ 64\<close>.\<close>

definition stoul :: "string \<Rightarrow> std_exception + u64" where
  "stoul s =
     (case c_number s of
        None \<Rightarrow> Inl NoConversion
      | Some (neg, n) \<Rightarrow>
          if 2 ^ 64 \<le> n then Inl OutOfRange
          else Inr (if neg then - word_of_nat n else word_of_nat n))"

lemma stoi_range: "stoi s = Inr v \<Longrightarrow> - (2 ^ 31) \<le> v \<and> v < 2 ^ 31"
  by (auto simp: stoi_def Let_def split: option.splits if_splits)

end
