(* ===== verification/Client_Bench.thy ===== *)
theory Client_Bench
  imports Program_Args
begin

text \<open>
  \<open>examples/client_bench.cpp\<close>: a benchmark client that connects to a service, by channel or by SDP, and
  sends a number of bytes in chunks, in echo mode reading each chunk back. Console output is left out;
  the readings of the clock are kept. The size in megabytes is a \<open>double\<close>: its type, \<open>std::stod\<close> and the
  conversion of the size to bytes are the parameter \<open>floats\<close>.
\<close>

section \<open>Arguments\<close>

record 'd floats =
  f_two :: 'd
  f_stod :: "string \<Rightarrow> std_exception + 'd"
  f_bytes :: "'d \<Rightarrow> u64"

record 'd client_opts =
  co_target :: string
  co_uuid :: string
  co_channel :: int
  co_size_mb :: 'd
  co_chunk_kb :: u64
  co_echo :: bool

definition client_opts_default :: "'d floats \<Rightarrow> string \<Rightarrow> 'd client_opts" where
  "client_opts_default fl target =
     \<lparr>co_target = target, co_uuid = DEFAULT_BENCH_UUID, co_channel = 0, co_size_mb = f_two fl,
      co_chunk_kb = 16, co_echo = False\<rparr>"

text \<open>The loop over the arguments after the target. An option at the very end has no value and is ignored.\<close>

fun client_args :: "'d floats \<Rightarrow> string list \<Rightarrow> 'd client_opts \<Rightarrow> std_exception + 'd client_opts" where
  "client_args fl [] opts = Inr opts"
| "client_args fl (arg # rest) opts =
     (if arg = ''--echo'' then client_args fl rest (opts\<lparr>co_echo := True\<rparr>)
      else
        case rest of
          [] \<Rightarrow> client_args fl rest opts
        | v # rest' \<Rightarrow>
            if arg = ''--uuid'' then client_args fl rest' (opts\<lparr>co_uuid := v\<rparr>)
            else if arg = ''--channel'' then
              (case stoi v of Inl x \<Rightarrow> Inl x | Inr n \<Rightarrow> client_args fl rest' (opts\<lparr>co_channel := n\<rparr>))
            else if arg = ''--size'' then
              (case f_stod fl v of Inl x \<Rightarrow> Inl x | Inr d \<Rightarrow> client_args fl rest' (opts\<lparr>co_size_mb := d\<rparr>))
            else if arg = ''--chunk'' then
              (case stoul v of Inl x \<Rightarrow> Inl x | Inr n \<Rightarrow> client_args fl rest' (opts\<lparr>co_chunk_kb := n\<rparr>))
            else client_args fl rest opts)"

section \<open>The transfer\<close>

text \<open>The pseudo-random pattern of the buffer.\<close>

definition pattern_byte :: "nat \<Rightarrow> u8" where
  "pattern_byte i = ucast ((word_of_nat i * 73 + 19 :: u64) AND 0xFF)"

definition tx_pattern :: "nat \<Rightarrow> u8 list" where
  "tx_pattern n = map pattern_byte [0..<n]"

text \<open>
  The loop of the benchmark, with the bytes sent so far and the round-trip samples in nanoseconds. It
  ends at the goal or at the first call that fails; \<open>None\<close> means that it does not end.
\<close>

partial_function (option) bench_transfer ::
  "'w env \<Rightarrow> socket \<Rightarrow> bool \<Rightarrow> u8 list \<Rightarrow> nat \<Rightarrow> nat \<Rightarrow> u8 list \<Rightarrow> int list \<Rightarrow> 'w machine \<Rightarrow>
     ((nat \<times> int list) \<times> 'w machine) option" where
  "bench_transfer e sock echo tx goal sent rx rtt m =
     (if sent < goal then
        let cur = min (length tx) (goal - sent);
            (chunk_start, m) = sys_now e m;
            (ok, m) = socket_send_all e sock (take cur tx) m
        in if \<not> ok then Some ((sent, rtt), m)
           else if echo then
             let ((ok, reply), m) = socket_recv_all e sock (take cur rx) m
             in if \<not> ok then Some ((sent + cur, rtt), m)
                else
                  let (chunk_end, m) = sys_now e m
                  in bench_transfer e sock echo tx goal (sent + cur) (overlay reply rx)
                       (rtt @ [chunk_end - chunk_start]) m
           else bench_transfer e sock echo tx goal (sent + cur) rx rtt m
      else Some ((sent, rtt), m))"

declare bench_transfer.simps [code]

section \<open>The program\<close>

text \<open>Connecting to the channel given, or to the one that SDP resolves.\<close>

definition bench_connect ::
  "'w env \<Rightarrow> address \<Rightarrow> uuid \<Rightarrow> int \<Rightarrow> 'w machine \<Rightarrow> (ub + socket option) \<times> 'w machine" where
  "bench_connect e target u direct_channel m =
     (if 0 < direct_channel then
        let (s, m) = client_connect e target (word_of_int direct_channel) 10000 m in (Inr s, m)
      else
        let (_, m) = sys_now e m;
            (r, m) = client_connect_by_sdp e target u 10000 m
        in case r of Inl b \<Rightarrow> (Inl b, m) | Inr s \<Rightarrow> let (_, m) = sys_now e m in (Inr s, m))"

definition bench_run ::
  "'d floats \<Rightarrow> 'w env \<Rightarrow> 'd client_opts \<Rightarrow> socket \<Rightarrow> 'w machine \<Rightarrow> ((outcome \<times> nat) \<times> 'w machine) option" where
  "bench_run fl e opts sock m =
     (let chunk_bytes = unat (co_chunk_kb opts * 1024);
          goal = unat (f_bytes fl (co_size_mb opts));
          tx = tx_pattern chunk_bytes;
          rx = (if co_echo opts then replicate chunk_bytes 0 else []);
          (_, m) = sys_now e m
      in case bench_transfer e sock (co_echo opts) tx goal 0 rx [] m of
           None \<Rightarrow> None
         | Some ((sent, rtt), m) \<Rightarrow>
             let (_, m) = sys_now e m;
                 (sock, m) = socket_close e sock m
             in Some ((Exit 0, sent), socket_destroy e sock m))"

definition client_bench_main ::
  "'d floats \<Rightarrow> 'w env \<Rightarrow> string list \<Rightarrow> 'w machine \<Rightarrow> ((ub + outcome \<times> nat) \<times> 'w machine) option" where
  "client_bench_main fl e argv m =
     (if length argv < 2 then Some ((Inr (Exit 1, 0)), m)
      else
        case client_args fl (drop 2 argv) (client_opts_default fl (argv ! 1)) of
          Inl x \<Rightarrow> Some (Inr (Uncaught x, 0), m)
        | Inr opts \<Rightarrow>
            (case address_parse (co_target opts) of
               Inl x \<Rightarrow> Some (Inr (Uncaught (FromParse x), 0), m)
             | Inr target \<Rightarrow>
                 (case uuid_parse (co_uuid opts) of
                    Inl x \<Rightarrow> Some (Inr (Uncaught (FromParse x), 0), m)
                  | Inr u \<Rightarrow>
                      (case bench_connect e target u (co_channel opts) m of
                         (Inl b, m) \<Rightarrow> Some (Inl b, m)
                       | (Inr None, m) \<Rightarrow> Some (Inr (Exit 1, 0), m)
                       | (Inr (Some sock), m) \<Rightarrow> map_option (\<lambda>(r, m). (Inr r, m)) (bench_run fl e opts sock m)))))"

end
