(* ===== verification/Program_Clean.thy ===== *)
theory Program_Clean
  imports Api_System Transfer_Frame
begin

text \<open>
  The invariant of a program that uses the library, step by step: what a call of the API, a reading of
  the clock and the end of an object's life do to the ownership of the objects in scope. A program that
  ends with no object in scope has released everything.
\<close>

lemma owned_by_perm: "mset xs = mset ys \<Longrightarrow> owned_by f xs = owned_by f ys"
  unfolding owned_by_def by (metis mset_map sum_mset_sum_list)

lemma sys_inv_perm:
  assumes "sys_inv (xs, m)" "mset xs = mset ys"
  shows "sys_inv (ys, m)"
proof -
  have "list_all obj_valid xs = list_all obj_valid ys"
    using mset_eq_setD [OF assms(2)] by (simp add: list_all_iff)
  with assms(1) show ?thesis by (simp add: sys_inv_def owned_by_perm [OF assms(2)])
qed

lemma sys_inv_now: "sys_now e m = (t, m') \<Longrightarrow> sys_inv (os, m) \<Longrightarrow> sys_inv (os, m')"
  by (auto simp: sys_now_def sys_inv_def split: prod.splits)

lemma sys_inv_call: "api_call e x m x' m' \<Longrightarrow> sys_inv (x # os, m) \<Longrightarrow> sys_inv (x' # os, m')"
  using api_step_inv [OF api_step.call [of 0 "x # os" e m x' m']] by simp

lemma sys_inv_destroy: "sys_inv (x # os, m) \<Longrightarrow> sys_inv (os, obj_destroy e x m)"
  using api_step_inv [OF api_step.destroy [of 0 "x # os" e m]] by simp

lemma sys_inv_via: "via s m m' \<Longrightarrow> sys_inv (OSock s # os, m) \<Longrightarrow> sys_inv (OSock s # os, m')"
  using sys_inv_update [of "OSock s # os" m 0 "OSock s" m'] balanced_via sys_inv_owned [of "OSock s # os" m 0]
  by force

lemma sys_inv_connect:
  "client_connect e a c t m = (r, m') \<Longrightarrow> sys_inv (os, m) \<Longrightarrow>
     sys_inv ((case r of None \<Rightarrow> [] | Some s \<Rightarrow> [OSock s]) @ os, m')"
  by (rule sys_inv_perm [OF api_step_inv [OF api_step.connect]]) auto

lemma sys_inv_connect_by_sdp:
  "client_connect_by_sdp e a u t m = (Inr r, m') \<Longrightarrow> sys_inv (os, m) \<Longrightarrow>
     sys_inv ((case r of None \<Rightarrow> [] | Some s \<Rightarrow> [OSock s]) @ os, m')"
  by (rule sys_inv_perm [OF api_step_inv [OF api_step.connect_by_sdp]]) auto

lemma sys_inv_accept:
  assumes "server_accept e v m = (r, m')" "sys_inv (OServ v # os, m)"
  shows "sys_inv ((case r of None \<Rightarrow> [] | Some s \<Rightarrow> [OSock s]) @ OServ v # os, m')"
proof (cases r)
  case None
  with assms show ?thesis using sys_inv_call [OF api_call.serv_accept_none] by auto
next
  case (Some s)
  with assms have "sys_inv ((OServ v # os) @ [OSock s], m')"
    using api_step_inv [OF api_step.accept [of 0 "OServ v # os" v e m s m']] by simp
  then have "sys_inv (OSock s # OServ v # os, m')" by (rule sys_inv_perm) simp
  with Some show ?thesis by simp
qed

lemma sys_inv_attach:
  assumes "serial_attach e p (Some s) m = ((Inr b, p'), m')" "sys_inv (OPort p # OSock s # os, m)"
  shows "sys_inv (OPort p' # os, m')"
proof -
  have "sys_inv (OPort p' # null_obj # os, m')"
    using api_step_inv [OF api_step.attach [of 0 "OPort p # OSock s # os" 1 p s e m b p' m']] assms by simp
  then show ?thesis by (simp add: sys_inv_def)
qed

lemma sys_inv_new:
  "sys_inv (os, m) \<Longrightarrow> sys_inv (OServ server_new # os, m)"
  "sys_inv (os, m) \<Longrightarrow> sys_inv (OPort serial_new # os, m)"
  by (rule sys_inv_perm [OF api_step_inv [OF api_step.new_server]], simp_all)
     (rule sys_inv_perm [OF api_step_inv [OF api_step.new_port]], simp_all)

lemma sys_inv_close_sock: "socket_close e s m = (s', m') \<Longrightarrow> sys_inv (OSock s # os, m) \<Longrightarrow> sys_inv (OSock s' # os, m')"
  by (rule sys_inv_call [OF api_call.sock_close])

lemma sys_inv_end_sock: "sys_inv (OSock s # os, m) \<Longrightarrow> sys_inv (os, socket_destroy e s m)"
  using sys_inv_destroy [of "OSock s" os m e] by simp

lemma sys_inv_end_serv: "sys_inv (OServ s # os, m) \<Longrightarrow> sys_inv (os, server_destroy e s m)"
  using sys_inv_destroy [of "OServ s" os m e] by simp

lemma sys_inv_end_port: "sys_inv (OPort s # os, m) \<Longrightarrow> sys_inv (os, serial_destroy e s m)"
  using sys_inv_destroy [of "OPort s" os m e] by simp

lemma sys_inv_start: "sys_inv ([], boot w)"
  by (rule api_reachable_inv) (rule rtranclp.rtrancl_refl)

end
