(* ===== verification/Client_Bench_Facts.thy ===== *)
theory Client_Bench_Facts
  imports Client_Bench Program_Clean
begin

text \<open>
  The benchmark client sends exactly the pattern, chunk after chunk, and always ends when its chunks are
  not empty; with empty chunks it never ends.
\<close>

section \<open>The bytes it means to send\<close>

definition bench_stream :: "u8 list \<Rightarrow> nat \<Rightarrow> u8 list" where
  "bench_stream tx n = map (\<lambda>i. tx ! (i mod length tx)) [0..<n]"

lemma length_bench_stream [simp]: "length (bench_stream tx n) = n"
  by (simp add: bench_stream_def)

lemma bench_stream_step:
  assumes "length tx dvd s" "k \<le> length tx"
  shows "bench_stream tx (s + k) = bench_stream tx s @ take k tx"
proof (rule nth_equalityI)
  show "length (bench_stream tx (s + k)) = length (bench_stream tx s @ take k tx)" using assms(2) by simp
  fix i assume "i < length (bench_stream tx (s + k))"
  then have i: "i < s + k" by simp
  show "bench_stream tx (s + k) ! i = (bench_stream tx s @ take k tx) ! i"
  proof (cases "i < s")
    case True
    with i show ?thesis by (simp add: bench_stream_def nth_append)
  next
    case False
    then obtain j where j: "i = s + j" "j < k" using i by (metis le_Suc_ex nat_add_left_cancel_less not_less)
    have "(s + j) mod length tx = j"
      using assms j(2) by (simp add: mod_eq_0_iff_dvd [symmetric] mod_add_left_eq [symmetric])
    with j show ?thesis by (simp add: bench_stream_def nth_append)
  qed
qed

lemma send_all_prefix:
  assumes "send_bounded e" "socket_send_all e s d m = (ok, m')"
  obtains k where "k \<le> length d" "ok \<longleftrightarrow> k = length d"
    "accepted (socket_fd s) m' = accepted (socket_fd s) m @ take k d" "arrived (socket_fd s) m' = arrived (socket_fd s) m"
  using socket_send_all_effect [OF assms] send_all_keeps_arrived [OF assms(2)] by blast

section \<open>The loop\<close>

text \<open>
  What the loop leaves behind when it has counted \<open>sent'\<close> bytes: \<open>out\<close> completes the stream up to \<open>k\<close>, at
  most one unfinished chunk beyond the count, and \<open>got\<close> came back.
\<close>

definition bench_result ::
  "socket \<Rightarrow> bool \<Rightarrow> u8 list \<Rightarrow> nat \<Rightarrow> nat \<Rightarrow> 'w machine \<Rightarrow> nat \<Rightarrow> 'w machine \<Rightarrow> bool" where
  "bench_result s echo tx goal sent m sent' m' \<longleftrightarrow>
     (\<exists>k out got. sent \<le> sent' \<and> sent' \<le> k \<and> k \<le> goal \<and> k < sent' + length tx \<and> (sent' = goal \<longleftrightarrow> k = goal)
        \<and> accepted (socket_fd s) m' = accepted (socket_fd s) m @ out
        \<and> bench_stream tx sent @ out = bench_stream tx k
        \<and> arrived (socket_fd s) m' = arrived (socket_fd s) m @ got
        \<and> sent + length got \<le> sent' \<and> (\<not> echo \<longrightarrow> got = []))"

lemma bench_result_here:
  assumes "tx \<noteq> []" "sent \<le> goal"
    and "accepted (socket_fd s) m' = accepted (socket_fd s) m" "arrived (socket_fd s) m' = arrived (socket_fd s) m"
  shows "bench_result s echo tx goal sent m sent m'"
  unfolding bench_result_def
  by (rule exI [of _ sent], rule exI [of _ "[]"], rule exI [of _ "[]"]) (use assms in simp)

lemma bench_result_trans:
  assumes "bench_result s echo tx goal sent1 m1 sent' m'" "sent \<le> sent1"
    and "accepted (socket_fd s) m1 = accepted (socket_fd s) m @ out" "bench_stream tx sent @ out = bench_stream tx sent1"
    and "arrived (socket_fd s) m1 = arrived (socket_fd s) m @ got" "sent + length got \<le> sent1" "\<not> echo \<longrightarrow> got = []"
  shows "bench_result s echo tx goal sent m sent' m'"
proof -
  obtain k o2 g2 where r: "sent1 \<le> sent'" "sent' \<le> k" "k \<le> goal" "k < sent' + length tx" "sent' = goal \<longleftrightarrow> k = goal"
    "accepted (socket_fd s) m' = accepted (socket_fd s) m1 @ o2" "bench_stream tx sent1 @ o2 = bench_stream tx k"
    "arrived (socket_fd s) m' = arrived (socket_fd s) m1 @ g2" "sent1 + length g2 \<le> sent'" "\<not> echo \<longrightarrow> g2 = []"
    using assms(1) unfolding bench_result_def by blast
  have "bench_stream tx sent @ out @ o2 = bench_stream tx k" using r(7) by (simp flip: assms(4))
  then show ?thesis
    unfolding bench_result_def
    by (intro exI [of _ k] exI [of _ "out @ o2"] exI [of _ "got @ g2"]) (use assms r in simp)
qed

lemma bench_transfer_ends:
  assumes "send_bounded e" "recv_bounded e" "tx \<noteq> []" "length tx = length rx \<or> \<not> echo"
    and "sent \<le> goal" "sent < goal \<longrightarrow> length tx dvd sent"
  shows "\<exists>sent' rtt' m'. bench_transfer e s echo tx goal sent rx rtt m = Some ((sent', rtt'), m')
    \<and> bench_result s echo tx goal sent m sent' m'"
  using assms(4-6)
proof (induction "goal - sent" arbitrary: sent rx rtt m rule: less_induct)
  case less
  show ?case
  proof (cases "sent < goal")
    case False
    then show ?thesis
      using less.prems(2) assms(3) by (subst bench_transfer.simps) (simp add: bench_result_here)
  next
    case True
    define cur where "cur = min (length tx) (goal - sent)"
    have cur: "0 < cur" "cur \<le> length tx" "sent + cur \<le> goal" using True assms(3) by (auto simp: cur_def)
    have dvd: "sent + cur < goal \<longrightarrow> length tx dvd sent + cur"
      using less.prems(3) True by (auto simp: cur_def min_def)
    obtain t m1 where n: "sys_now e m = (t, m1)" by (metis prod.collapse)
    obtain ok m2 where sd: "socket_send_all e s (take cur tx) m1 = (ok, m2)" by (metis prod.collapse)
    from send_all_prefix [OF assms(1) sd] obtain k where k: "k \<le> cur" "ok \<longleftrightarrow> k = cur"
      "accepted (socket_fd s) m2 = accepted (socket_fd s) m @ take k tx"
      "arrived (socket_fd s) m2 = arrived (socket_fd s) m"
      using now_keeps_bytes [OF n, of "socket_fd s"] cur(2) by (auto simp: min_absorb2)
    have step: "bench_stream tx sent @ take k tx = bench_stream tx (sent + k)"
      using bench_stream_step [of tx sent k] less.prems(3) True k(1) cur(2) by simp
    note eval = bench_transfer.simps [of e s echo tx goal sent rx rtt m] True n sd cur_def [symmetric] Let_def
    show ?thesis
    proof (cases ok)
      case False
      then have "bench_transfer e s echo tx goal sent rx rtt m = Some ((sent, rtt), m2)" by (simp add: eval)
      moreover have "k < cur" using False k by simp
      then have "bench_result s echo tx goal sent m sent m2"
        unfolding bench_result_def
        by (intro exI [of _ "sent + k"] exI [of _ "take k tx"] exI [of _ "[]"]) (use k step cur True in simp)
      ultimately show ?thesis by blast
    next
      case sent_ok: True
      then have full: "bench_stream tx sent @ take cur tx = bench_stream tx (sent + cur)"
        "accepted (socket_fd s) m2 = accepted (socket_fd s) m @ take cur tx" using step k by auto
      have smaller: "goal - (sent + cur) < goal - sent" using cur by simp
      show ?thesis
      proof (cases echo)
        case False
        from less.hyps [OF smaller _ cur(3) dvd, of rx rtt m2] False
        obtain sent' rtt' m' where r: "bench_transfer e s echo tx goal (sent + cur) rx rtt m2 = Some ((sent', rtt'), m')"
          "bench_result s echo tx goal (sent + cur) m2 sent' m'" by auto
        have "bench_result s echo tx goal sent m sent' m'"
          by (rule bench_result_trans [OF r(2) _ full(2,1), of "[]"]) (use k in simp_all)
        moreover have "bench_transfer e s echo tx goal sent rx rtt m = Some ((sent', rtt'), m')"
          by (subst bench_transfer.simps) (use r(1) sent_ok False eval(2-) in simp)
        ultimately show ?thesis by blast
      next
        case echo: True
        obtain ok2 reply m3 where rc: "socket_recv_all e s (take cur rx) m2 = ((ok2, reply), m3)"
          by (metis prod.collapse)
        have rx: "length (take cur rx) = cur" using less.prems(1) echo cur(2) by simp
        from socket_recv_all_effect [OF assms(2) rc] obtain g where g: "g \<le> cur"
          "arrived (socket_fd s) m3 = arrived (socket_fd s) m @ take g reply" "length reply = cur"
          using k(4) rx by auto
        have acc3: "accepted (socket_fd s) m3 = accepted (socket_fd s) m @ take cur tx"
          using recv_all_keeps_accepted [OF rc] full(2) by simp
        show ?thesis
        proof (cases ok2)
          case False
          then have "bench_transfer e s echo tx goal sent rx rtt m = Some ((sent + cur, rtt), m3)"
            by (subst bench_transfer.simps) (use sent_ok echo rc False eval(2-) in simp)
          moreover have "bench_result s echo tx goal sent m (sent + cur) m3"
            by (rule bench_result_trans [OF bench_result_here [OF assms(3) cur(3) refl refl] _ acc3 full(1) g(2)])
              (use g echo in simp_all)
          ultimately show ?thesis by blast
        next
          case True
          obtain t2 m4 where n2: "sys_now e m3 = (t2, m4)" by (metis prod.collapse)
          from less.hyps [OF smaller _ cur(3) dvd, of "overlay reply rx" "rtt @ [t2 - t]" m4] less.prems(1)
          obtain sent' rtt' m' where r:
            "bench_transfer e s echo tx goal (sent + cur) (overlay reply rx) (rtt @ [t2 - t]) m4 = Some ((sent', rtt'), m')"
            "bench_result s echo tx goal (sent + cur) m4 sent' m'" by auto
          have "bench_result s echo tx goal sent m sent' m'"
            by (rule bench_result_trans [OF r(2) _ _ full(1), of m "take g reply"])
              (use g acc3 echo now_keeps_bytes [OF n2, of "socket_fd s"] in simp_all)
          moreover have "bench_transfer e s echo tx goal sent rx rtt m = Some ((sent', rtt'), m')"
            by (subst bench_transfer.simps) (use r(1) sent_ok echo True rc n2 eval(2-) in simp)
          ultimately show ?thesis by blast
        qed
      qed
    qed
  qed
qed


text \<open>With empty chunks the count never moves.\<close>

lemma bench_transfer_stuck:
  assumes "sent < goal"
  shows "bench_transfer e s echo [] goal sent rx rtt m = None"
proof (rule ccontr)
  assume "bench_transfer e s echo [] goal sent rx rtt m \<noteq> None"
  then obtain y where "bench_transfer e s echo [] goal sent rx rtt m = Some y" by blast
  then have "[] = ([] :: u8 list) \<longrightarrow> \<not> sent < goal"
  proof (rule bench_transfer.raw_induct [where P = "\<lambda>e s echo tx goal sent rx rtt m y. tx = [] \<longrightarrow> \<not> sent < goal",
        rotated])
    fix rec e s echo and tx :: "u8 list" and goal sent rx rtt y and m :: "'a machine"
    assume rec: "\<And>e s echo tx goal sent rx rtt m y. rec e s echo tx goal sent rx rtt m = Some y \<Longrightarrow>
        tx = [] \<longrightarrow> \<not> sent < goal"
      and turn: "(if sent < goal then
          let cur = min (length tx) (goal - sent); (chunk_start, m) = sys_now e m;
              (ok, m) = socket_send_all e s (take cur tx) m
          in if \<not> ok then Some ((sent, rtt), m)
             else if echo then
               let ((ok, reply), m) = socket_recv_all e s (take cur rx) m
               in if \<not> ok then Some ((sent + cur, rtt), m)
                  else let (chunk_end, m) = sys_now e m
                    in rec e s echo tx goal (sent + cur) (overlay reply rx) (rtt @ [chunk_end - chunk_start]) m
             else rec e s echo tx goal (sent + cur) rx rtt m
        else Some ((sent, rtt), m)) = Some y"
    show "tx = [] \<longrightarrow> \<not> sent < goal"
      using turn by (auto simp: Let_def split: if_splits prod.splits dest!: rec)
  qed
  with assms show False by simp
qed

text \<open>A run of the loop stays on the descriptor of its socket.\<close>

lemma bench_transfer_via:
  assumes "bench_transfer e s echo tx goal sent rx rtt m = Some (r, m')" "socket_is_open s"
  shows "via s m m'"
proof -
  have "socket_is_open s \<longrightarrow> via s m (snd (r, m'))"
    using assms(1)
  proof (rule bench_transfer.raw_induct [where P = "\<lambda>e s echo tx goal sent rx rtt m y.
        socket_is_open s \<longrightarrow> via s m (snd y)", rotated])
    fix rec e s echo and tx :: "u8 list" and goal sent rx rtt y and m :: "'a machine"
    assume rec: "\<And>e s echo tx goal sent rx rtt m y. rec e s echo tx goal sent rx rtt m = Some y \<Longrightarrow>
        socket_is_open s \<longrightarrow> via s m (snd y)"
      and turn: "(if sent < goal then
          let cur = min (length tx) (goal - sent); (chunk_start, m) = sys_now e m;
              (ok, m) = socket_send_all e s (take cur tx) m
          in if \<not> ok then Some ((sent, rtt), m)
             else if echo then
               let ((ok, reply), m) = socket_recv_all e s (take cur rx) m
               in if \<not> ok then Some ((sent + cur, rtt), m)
                  else let (chunk_end, m) = sys_now e m
                    in rec e s echo tx goal (sent + cur) (overlay reply rx) (rtt @ [chunk_end - chunk_start]) m
             else rec e s echo tx goal (sent + cur) rx rtt m
        else Some ((sent, rtt), m)) = Some y"
    show "socket_is_open s \<longrightarrow> via s m (snd y)"
      using turn by (auto simp: Let_def split: if_splits prod.splits
          dest!: rec) (meson via_now via_send_all via_recv_all via_trans)+
  qed
  with assms(2) show ?thesis by simp
qed


section \<open>The program\<close>

lemma bench_transfer_result:
  assumes "send_bounded e" "recv_bounded e" "tx \<noteq> []" "length tx = length rx \<or> \<not> echo"
  obtains sent rtt m' where "bench_transfer e s echo tx goal 0 rx [] m = Some ((sent, rtt), m')"
    "bench_result s echo tx goal 0 m sent m'"
  using bench_transfer_ends [OF assms, of 0 goal s "[]" m] by auto

lemma length_tx_pattern [simp]: "length (tx_pattern n) = n"
  by (simp add: tx_pattern_def)

lemma tx_pattern_empty [simp]: "tx_pattern n = [] \<longleftrightarrow> n = 0"
  by (simp flip: length_0_conv)

text \<open>
  C30. The transfer loop of the benchmark client, over any kernel that respects the lengths it is given:
  with a chunk that is not empty it ends, and the bytes it has put on the wire are exactly a prefix of
  the pattern repeated, whole when it counts the goal as sent and otherwise at most one unfinished chunk
  beyond its count; in echo mode it reads at most as many bytes as it counts, otherwise none.
\<close>

theorem bench_transfer_correct:
  assumes "send_bounded e" "recv_bounded e" "tx \<noteq> []" "length tx = length rx \<or> \<not> echo"
  shows "\<exists>sent rtt m' k got. bench_transfer e s echo tx goal 0 rx [] m = Some ((sent, rtt), m')
    \<and> accepted (socket_fd s) m' = accepted (socket_fd s) m @ bench_stream tx k
    \<and> sent \<le> k \<and> k \<le> goal \<and> k < sent + length tx \<and> (sent = goal \<longleftrightarrow> k = goal)
    \<and> arrived (socket_fd s) m' = arrived (socket_fd s) m @ got \<and> length got \<le> sent \<and> (echo \<or> got = [])"
proof -
  obtain sent rtt m' where r: "bench_transfer e s echo tx goal 0 rx [] m = Some ((sent, rtt), m')"
    "bench_result s echo tx goal 0 m sent m'" using bench_transfer_result [OF assms] by metis
  have "bench_stream tx 0 = []" by (simp add: bench_stream_def)
  with r show ?thesis unfolding bench_result_def by simp blast
qed

theorem bench_transfer_correct_witness:
  "\<exists>sent rtt m'. bench_transfer sim_env sample_socket False [1, 2, 3] 7 0 [] [] (boot sim_start) = Some ((sent, rtt), m')
     \<and> accepted 3 m' = [1, 2, 3, 1, 2, 3, 1]"
proof -
  let ?m = "boot sim_start"
  have b: "send_bounded sim_env" "recv_bounded sim_env" by simp_all
  obtain sent rtt m' k got where r:
    "bench_transfer sim_env sample_socket False [1, 2, 3] 7 0 [] [] ?m = Some ((sent, rtt), m')"
    "accepted (socket_fd sample_socket) m' = accepted (socket_fd sample_socket) ?m @ bench_stream [1, 2, 3] k"
    "sent = 7 \<longleftrightarrow> k = 7"
    using bench_transfer_correct [OF b, of "[1, 2, 3]" "[]" False sample_socket 7 ?m] by auto
  have "map_option (fst \<circ> fst) (bench_transfer sim_env sample_socket False [1, 2, 3] 7 0 [] [] ?m) = Some 7"
    by code_simp
  with r have "k = 7" by simp
  moreover have "bench_stream [1, 2, 3] 7 = [1, 2, 3, 1, 2, 3, 1]" "accepted (socket_fd sample_socket) ?m = []"
    "socket_fd sample_socket = 3" by code_simp+
  ultimately show ?thesis using r by auto
qed


text \<open>A run after the connection, and what it does with the socket it is given.\<close>

lemma bench_run_None:
  "bench_run fl e opts s m = None \<longleftrightarrow>
     bench_transfer e s (co_echo opts) (tx_pattern (unat (co_chunk_kb opts * 1024)))
       (unat (f_bytes fl (co_size_mb opts))) 0
       (if co_echo opts then replicate (unat (co_chunk_kb opts * 1024)) 0 else []) [] (snd (sys_now e m)) = None"
  by (auto simp: bench_run_def Let_def split: option.splits prod.splits)

lemma bench_run_owned:
  assumes "bench_run fl e opts s m = Some (r, m')" "socket_is_open s" "sys_inv ([OSock s], m)"
  shows "sys_inv ([], m')" "fst r = Exit 0"
proof -
  obtain t1 m1 where n1: "sys_now e m = (t1, m1)" by (metis prod.collapse)
  obtain sent rtt m2 where b: "bench_transfer e s (co_echo opts) (tx_pattern (unat (co_chunk_kb opts * 1024)))
      (unat (f_bytes fl (co_size_mb opts))) 0
      (if co_echo opts then replicate (unat (co_chunk_kb opts * 1024)) 0 else []) [] m1 = Some ((sent, rtt), m2)"
    using assms(1) n1 by (auto simp: bench_run_def Let_def split: option.splits prod.splits)
  obtain t2 m3 where n2: "sys_now e m2 = (t2, m3)" by (metis prod.collapse)
  obtain s' m4 where c: "socket_close e s m3 = (s', m4)" by (metis prod.collapse)
  have m': "m' = socket_destroy e s' m4" "r = (Exit 0, sent)"
    using assms(1) n1 b n2 c by (auto simp: bench_run_def Let_def)
  have "sys_inv ([OSock s], m2)"
    using bench_transfer_via [OF b assms(2)] sys_inv_now [OF n1 assms(3)] by (rule sys_inv_via)
  then have "sys_inv ([OSock s'], m4)" by (intro sys_inv_close_sock [OF c] sys_inv_now [OF n2])
  with m' show "sys_inv ([], m')" "fst r = Exit 0" by (simp_all add: sys_inv_end_sock)
qed

lemma bench_connect_owned:
  assumes "bench_connect e a u ch m = (Inr r, m')" "sys_inv ([], m)"
  shows "sys_inv ((case r of None \<Rightarrow> [] | Some s \<Rightarrow> [OSock s]), m')" "pred_option socket_is_open r"
proof -
  have "sys_inv ((case r of None \<Rightarrow> [] | Some s \<Rightarrow> [OSock s]), m') \<and> pred_option socket_is_open r"
  proof (cases "0 < ch")
    case True
    then have c: "client_connect e a (word_of_int ch) 10000 m = (r, m')"
      using assms(1) by (auto simp: bench_connect_def split: prod.splits)
    then show ?thesis
      using sys_inv_connect [OF c assms(2)] client_connect_effect [OF c] by (auto split: option.splits)
  next
    case False
    obtain t1 m1 where n1: "sys_now e m = (t1, m1)" by (metis prod.collapse)
    obtain m2 where c: "client_connect_by_sdp e a u 10000 m1 = (Inr r, m2)" and m': "m' = snd (sys_now e m2)"
      using assms(1) False n1 by (auto simp: bench_connect_def split: prod.splits sum.splits)
    have "sys_inv ((case r of None \<Rightarrow> [] | Some s \<Rightarrow> [OSock s]), m2)"
      using sys_inv_connect_by_sdp [OF c sys_inv_now [OF n1 assms(2)]] by simp
    then show ?thesis
      using m' client_connect_by_sdp_effect [OF c] sys_inv_now [of e m2 "fst (sys_now e m2)" m']
      by (auto split: option.splits)
  qed
  then show "sys_inv ((case r of None \<Rightarrow> [] | Some s \<Rightarrow> [OSock s]), m')" "pred_option socket_is_open r" by blast+
qed

text \<open>
  C32. The benchmark client runs forever for exactly one reason: its chunk size in bytes, which wraps
  around at \<open>2 ^ 64\<close>, is zero and there is something to send. Otherwise the run ends, over every kernel that
  respects the lengths it is given, whatever the peer does.
\<close>

theorem bench_run_endless_iff:
  assumes "send_bounded e" "recv_bounded e"
  shows "bench_run fl e opts s m = None \<longleftrightarrow> co_chunk_kb opts * 1024 = 0 \<and> f_bytes fl (co_size_mb opts) \<noteq> 0"
proof (cases "co_chunk_kb opts * 1024 = 0")
  case True
  have "bench_transfer e s echo [] goal 0 [] [] m' = None \<longleftrightarrow> 0 < goal" for echo goal m'
    using bench_transfer_stuck [of 0 goal e s echo "[]" "[]" m'] by (cases "0 < goal") (simp_all add: bench_transfer.simps)
  then show ?thesis
    using True by (simp add: bench_run_None tx_pattern_def unat_gt_0)
next
  case False
  then have "tx_pattern (unat (co_chunk_kb opts * 1024)) \<noteq> []" by (simp add: unat_gt_0)
  from bench_transfer_result [OF assms this, of _ "co_echo opts"] False show ?thesis
    by (simp add: bench_run_None) (metis length_replicate length_tx_pattern option.distinct(1))
qed


definition exact_bytes :: "u64 floats" where
  "exact_bytes = \<lparr>f_two = 2097152, f_stod = stoul, f_bytes = id\<rparr>"

theorem bench_run_endless_iff_witness:
  "bench_run exact_bytes sim_env (client_opts_default exact_bytes []\<lparr>co_chunk_kb := 2 ^ 54\<rparr>) sample_socket (boot sim_start) = None
   \<and> bench_run exact_bytes sim_env (client_opts_default exact_bytes []) sample_socket (boot sim_start) \<noteq> None"
  using bench_run_endless_iff [of sim_env exact_bytes
      "client_opts_default exact_bytes []\<lparr>co_chunk_kb := 2 ^ 54\<rparr>" sample_socket "boot sim_start"]
    bench_run_endless_iff [of sim_env exact_bytes "client_opts_default exact_bytes []" sample_socket "boot sim_start"]
  by (simp add: client_opts_default_def exact_bytes_def)

text \<open>
  However the benchmark client is called and however it ends, it has released everything it acquired:
  no descriptor, no SDP session and no record is left, and none was used after its release. It reports
  failure by its exit code only when it could not connect: a transfer that breaks off ends with exit code 0.
\<close>

theorem client_bench_releases:
  assumes "client_bench_main fl e argv (boot w) = Some (Inr (out, sent), m')"
  shows "live_fds m' = {#} \<and> live_sessions m' = {#} \<and> published m' = {#}
    \<and> fds_respected m' \<and> sessions_respected m' \<and> (out = Exit 1 \<longrightarrow> sent = 0)
    \<and> (out = Exit 0 \<or> out = Exit 1 \<or> (\<exists>x. out = Uncaught x \<and> trace m' = []))"
proof -
  have start: "sys_inv ([], boot w)" by (rule sys_inv_start)
  have none: "sys_inv ([], m1)" if "bench_connect e a u ch (boot w) = (Inr None, m1)" for a u ch m1
    using bench_connect_owned [OF that start] by simp
  have some: "sys_inv ([], m') \<and> fst r = Exit 0"
    if "bench_connect e a u ch (boot w) = (Inr (Some s), m1)" "bench_run fl e opts s m1 = Some (r, m')"
    for a u ch s m1 opts r
    using bench_connect_owned [OF that(1) start] bench_run_owned [OF that(2)] by simp
  have "sys_inv ([], m') \<and> (out = Exit 1 \<longrightarrow> sent = 0)
    \<and> (out = Exit 0 \<or> out = Exit 1 \<or> (\<exists>x. out = Uncaught x \<and> m' = boot w))"
    using assms start none some
    by (auto simp: client_bench_main_def split: if_splits sum.splits prod.splits option.splits)
      (fastforce dest: some)
  then show ?thesis by (auto simp: sys_inv_def boot_def)
qed

text \<open>A run over a kernel that answers every call, by way of the channel given.\<close>

definition bench_argv :: "string list" where
  "bench_argv = [''client_bench'', ''9C:C7:D3:F6:E6:A8'', ''--channel'', ''3'', ''--echo'']"

lemma bench_argv_connects:
  "case bench_connect sim_env (Address [0x9C, 0xC7, 0xD3, 0xF6, 0xE6, 0xA8]) u 3 (boot w) of
     (Inr (Some s), _) \<Rightarrow> True | (Inr None, _) \<Rightarrow> True | _ \<Rightarrow> False"
  by (simp add: bench_connect_def split: prod.splits option.splits)

theorem client_bench_releases_witness:
  "\<exists>out sent m'. client_bench_main exact_bytes sim_env bench_argv (boot sim_start) = Some (Inr (out, sent), m')
     \<and> live_fds m' = {#}"
proof -
  let ?opts = "client_opts_default exact_bytes ''9C:C7:D3:F6:E6:A8''\<lparr>co_channel := 3, co_echo := True\<rparr>"
  have args: "client_args exact_bytes (drop 2 bench_argv) (client_opts_default exact_bytes (bench_argv ! 1)) = Inr ?opts"
    "address_parse (co_target ?opts) = Inr (Address [0x9C, 0xC7, 0xD3, 0xF6, 0xE6, 0xA8])"
    "co_channel ?opts = 3" "length bench_argv = 5" by code_simp+
  have "\<not> isl (uuid_parse (co_uuid ?opts))" by code_simp
  then obtain u where u: "uuid_parse (co_uuid ?opts) = Inr u" by (cases "uuid_parse (co_uuid ?opts)") auto
  have more: "bench_run exact_bytes sim_env ?opts s m \<noteq> None" for s m
    using bench_run_None [of exact_bytes sim_env ?opts s m]
      bench_transfer_result [of sim_env "tx_pattern 16384" "replicate 16384 0" True]
    by (simp add: client_opts_default_def) (metis length_replicate length_tx_pattern option.distinct(1))
  obtain r m' where "client_bench_main exact_bytes sim_env bench_argv (boot sim_start) = Some (Inr r, m')"
    using args u bench_argv_connects [of u sim_start] more
    by (simp add: client_bench_main_def split: prod.splits sum.splits option.splits) blast
  with client_bench_releases show ?thesis by (metis prod.collapse)
qed

lemma bench_channel_truncated:
  "bench_connect e a u 256 m = (let (s, m) = client_connect e a 0 10000 m in (Inr s, m))"
proof -
  have "word_of_int 256 = (0 :: u8)" by code_simp
  then show ?thesis by (simp only: bench_connect_def) simp
qed

end
