(* ===== verification/Server_Bench.thy ===== *)
theory Server_Bench
  imports Program_Args
begin

text \<open>
  \<open>examples/server_bench.cpp\<close>: a benchmark server that publishes a service, takes one client after another
  and reads what each sends, in echo mode sending it back. Console output is left out; the readings of
  the clock are kept.
\<close>

section \<open>Arguments\<close>

record server_opts =
  so_uuid :: string
  so_name :: string
  so_channel :: u8
  so_echo :: bool

definition server_opts_default :: server_opts where
  "server_opts_default =
     \<lparr>so_uuid = DEFAULT_BENCH_UUID, so_name = ''SimpleRFCOMM HighSpeed Bench'', so_channel = 0, so_echo = False\<rparr>"

text \<open>The loop over the arguments; \<open>--help\<close> and an exception end the program at once.\<close>

fun server_args :: "string list \<Rightarrow> server_opts \<Rightarrow> outcome + server_opts" where
  "server_args [] opts = Inr opts"
| "server_args (arg # rest) opts =
     (if arg = ''--echo'' then server_args rest (opts\<lparr>so_echo := True\<rparr>)
      else if arg = ''--help'' \<or> arg = ''-h'' then Inl (Exit 0)
      else
        case rest of
          [] \<Rightarrow> server_args rest opts
        | v # rest' \<Rightarrow>
            if arg = ''--uuid'' then server_args rest' (opts\<lparr>so_uuid := v\<rparr>)
            else if arg = ''--channel'' then
              (case stoi v of
                 Inl x \<Rightarrow> Inl (Uncaught x)
               | Inr n \<Rightarrow> server_args rest' (opts\<lparr>so_channel := word_of_int n\<rparr>))
            else if arg = ''--name'' then server_args rest' (opts\<lparr>so_name := v\<rparr>)
            else server_args rest opts)"

section \<open>One client\<close>

text \<open>
  The loop over one connection, with the buffer and the number of bytes received so far. It ends when
  nothing is received or the echo fails.
\<close>

partial_function (option) bench_serve ::
  "'w env \<Rightarrow> socket \<Rightarrow> bool \<Rightarrow> u8 list \<Rightarrow> u64 \<Rightarrow> 'w machine \<Rightarrow> (u64 \<times> 'w machine) option" where
  "bench_serve e sock echo buffer total_bytes m =
     (let ((r, buffer), m) = socket_recv e sock buffer m
      in if r \<le> 0 then Some (total_bytes, m)
         else
           let total_bytes = total_bytes + word_of_int r
           in if echo then
                let (ok, m) = socket_send_all e sock (take (nat r) buffer) m
                in if \<not> ok then Some (total_bytes, m)
                   else bench_serve e sock echo buffer total_bytes m
              else bench_serve e sock echo buffer total_bytes m)"

declare bench_serve.simps [code]

text \<open>The body of the loop over the clients, from the accepted connection to its destruction.\<close>

definition bench_client :: "'w env \<Rightarrow> bool \<Rightarrow> socket \<Rightarrow> 'w machine \<Rightarrow> (u64 \<times> 'w machine) option" where
  "bench_client e echo sock m =
     (let (_, m) = sys_now e m
      in case bench_serve e sock echo (replicate (32 * 1024) 0) 0 m of
           None \<Rightarrow> None
         | Some (total_bytes, m) \<Rightarrow>
             let (_, m) = sys_now e m in Some (total_bytes, socket_destroy e sock m))"

section \<open>All clients\<close>

text \<open>The bytes received from each client, in order, until an \<open>accept\<close> fails.\<close>

partial_function (option) bench_accept ::
  "'w env \<Rightarrow> bool \<Rightarrow> server \<Rightarrow> u64 list \<Rightarrow> 'w machine \<Rightarrow> (u64 list \<times> 'w machine) option" where
  "bench_accept e echo srv totals m =
     (case server_accept e srv m of
        (None, m) \<Rightarrow> Some (totals, m)
      | (Some sock, m) \<Rightarrow>
          (case bench_client e echo sock m of
             None \<Rightarrow> None
           | Some (total_bytes, m) \<Rightarrow> bench_accept e echo srv (totals @ [total_bytes]) m))"

declare bench_accept.simps [code]

definition server_bench_main ::
  "'w env \<Rightarrow> string list \<Rightarrow> 'w machine \<Rightarrow> ((ub + outcome \<times> u64 list) \<times> 'w machine) option" where
  "server_bench_main e argv m =
     (case server_args (drop 1 argv) server_opts_default of
        Inl out \<Rightarrow> Some (Inr (out, []), m)
      | Inr opts \<Rightarrow>
          (case uuid_parse (so_uuid opts) of
             Inl x \<Rightarrow> Some (Inr (Uncaught (FromParse x), []), m)
           | Inr u \<Rightarrow>
               (case server_listen_with_sdp e server_new u (so_name opts) (so_channel opts) 4 m of
                  ((Inl b, srv), m) \<Rightarrow> Some (Inl b, m)
                | ((Inr False, srv), m) \<Rightarrow> Some (Inr (Exit 1, []), server_destroy e srv m)
                | ((Inr True, srv), m) \<Rightarrow>
                    (case bench_accept e (so_echo opts) srv [] m of
                       None \<Rightarrow> None
                     | Some (totals, m) \<Rightarrow> Some (Inr (Exit 0, totals), server_destroy e srv m)))))"

end
