(* ===== verification/Server_Bench_Facts.thy ===== *)
theory Server_Bench_Facts
  imports Server_Bench Program_Clean
begin

text \<open>
  The benchmark server sends back what it receives, in order and nothing else, and it is done with a
  client as soon as the client's stream ends. When it gives up it has released everything.
\<close>

section \<open>Finite input\<close>

text \<open>
  Finitely many peers send finitely much: some rank of the state of the world falls with every receive
  that delivers bytes and with every connection accepted, and no call of the server raises it.
\<close>

definition peers_end :: "'w env \<Rightarrow> ('w \<Rightarrow> nat) \<Rightarrow> bool" where
  "peers_end e f \<longleftrightarrow>
     (\<forall>h n w. case k_recv e h n w of ((r, _), w') \<Rightarrow> if 0 < r then f w' < f w else f w' \<le> f w)
     \<and> (\<forall>h w. case k_accept e h w of ((c, _), w') \<Rightarrow> if 0 \<le>s c then f w' < f w else f w' \<le> f w)
     \<and> (\<forall>h d w. f (snd (k_send e h d w)) \<le> f w) \<and> (\<forall>h opt v w. f (snd (k_setsockopt e h opt v w)) \<le> f w)
     \<and> (\<forall>h w. f (snd (k_getsockname e h w)) \<le> f w) \<and> (\<forall>h w. f (k_close e h w) \<le> f w)
     \<and> (\<forall>w. f (snd (k_now e w)) \<le> f w)"

named_theorems rank_facts \<open>what the calls do to the rank\<close>

lemma rank_sys [rank_facts]:
  assumes "peers_end e f"
  shows "sys_send e h d m = (r, m') \<Longrightarrow> f (world m') \<le> f (world m)"
    and "sys_setsockopt e h opt v m = (r, m') \<Longrightarrow> f (world m') \<le> f (world m)"
    and "sys_getsockname e h m = (x, m') \<Longrightarrow> f (world m') \<le> f (world m)"
    and "sys_now e m = (t, m') \<Longrightarrow> f (world m') \<le> f (world m)"
  using assms by (auto simp: peers_end_def sys_defs split: prod.splits) (metis snd_conv)+

lemma rank_sys_close [rank_facts]: "peers_end e f \<Longrightarrow> f (world (sys_close e h m)) \<le> f (world m)"
  by (simp add: peers_end_def sys_close_def)

lemma rank_recv:
  assumes "peers_end e f" "socket_recv e s b m = ((r, b'), m')"
  shows "if 0 < r then f (world m') < f (world m) else f (world m') \<le> f (world m)"
proof -
  have "if 0 < r then f w' < f w else f w' \<le> f w" if "k_recv e h n w = ((r, d), w')" for h n w r d w'
    using assms(1) that unfolding peers_end_def by (metis (no_types, lifting) case_prod_conv)
  with assms(2) show ?thesis by (fastforce simp: socket_recv_def sys_recv_def split: if_splits prod.splits)
qed

lemma rank_sys_accept:
  assumes "peers_end e f" "sys_accept e h m = ((c, a), m')"
  shows "if 0 \<le>s c then f (world m') < f (world m) else f (world m') \<le> f (world m)"
proof -
  have "if 0 \<le>s c then f w' < f w else f w' \<le> f w" if "k_accept e h w = ((c, a), w')" for h w c a w'
    using assms(1) that unfolding peers_end_def by (metis (no_types, lifting) case_prod_conv)
  with assms(2) show ?thesis by (fastforce simp: sys_accept_def split: if_splits prod.splits)
qed

lemma rank_send [rank_facts]:
  assumes "peers_end e f" "socket_send e s d m = (r, m')"
  shows "f (world m') \<le> f (world m)"
  using assms(2) by (auto simp: socket_send_def dest: rank_sys [OF assms(1)] split: if_splits prod.splits)

lemma rank_send_all_loop:
  "peers_end e f \<Longrightarrow> socket_send_all_loop e s d n m = (r, m') \<Longrightarrow> f (world m') \<le> f (world m)"
proof (induction e s d n m rule: socket_send_all_loop.induct)
  case (1 e s d n m)
  obtain q m1 where q: "socket_send e s (drop n d) m = (q, m1)" by (metis prod.collapse)
  have le: "f (world m1) \<le> f (world m)" by (rule rank_send [OF "1.prems"(1) q])
  show ?case
  proof (cases "n < length d \<and> 0 < q")
    case True
    then have "f (world m') \<le> f (world m1)"
      using "1.prems" q "1.IH" [OF _ q [symmetric] refl]
      by (simp add: socket_send_all_loop.simps [of e s d n m])
    with le show ?thesis by simp
  next
    case False
    with "1.prems" q le show ?thesis
      by (auto simp: socket_send_all_loop.simps [of e s d n m] split: if_splits)
  qed
qed

lemma rank_send_all [rank_facts]:
  "peers_end e f \<Longrightarrow> socket_send_all e s d m = (r, m') \<Longrightarrow> f (world m') \<le> f (world m)"
  unfolding socket_send_all_def by (rule rank_send_all_loop)

lemma rank_close [rank_facts]:
  "peers_end e f \<Longrightarrow> f (world (socket_destroy e s m)) \<le> f (world m)"
  by (auto simp: socket_destroy_def socket_impl_destroy_def close_socket_handle_def rank_sys_close split: option.splits)

lemma rank_accept:
  assumes "peers_end e f" "server_accept e v m = (r, m')"
  shows "if r = None then f (world m') \<le> f (world m) else f (world m') < f (world m)"
proof -
  have "f (world m') \<le> f (world m)" if "socket_from_native e h a c m = (s, m')" for h a c s and m m' :: "'a machine"
    using that by (auto simp: socket_from_native_def socket_set_buffer_sizes_def Let_def
        dest!: rank_sys [OF assms(1)] split: prod.splits if_splits)
  then show ?thesis
    using assms(2) rank_sys_accept [OF assms(1)]
    by (fastforce simp: server_accept_def word_sless_alt word_sle_eq split: option.splits if_splits prod.splits)
qed

section \<open>One client\<close>

text \<open>What serving a client adds: \<open>got\<close> came in, and of it the first \<open>k\<close> bytes went out again.\<close>

definition served :: "socket \<Rightarrow> bool \<Rightarrow> u64 \<Rightarrow> 'w machine \<Rightarrow> u64 \<Rightarrow> 'w machine \<Rightarrow> bool" where
  "served s echo before m after m' \<longleftrightarrow>
     (\<exists>got k. arrived (socket_fd s) m' = arrived (socket_fd s) m @ got
        \<and> after = before + word_of_nat (length got)
        \<and> accepted (socket_fd s) m' = accepted (socket_fd s) m @ take k got \<and> (\<not> echo \<longrightarrow> k = 0))"

lemma served_step:
  assumes "served s echo mid m1 after m'"
    and "arrived (socket_fd s) m1 = arrived (socket_fd s) m @ got" "mid = before + word_of_nat (length got)"
    and "accepted (socket_fd s) m1 = accepted (socket_fd s) m @ (if echo then got else [])"
  shows "served s echo before m after m'"
proof -
  obtain got' k where r: "arrived (socket_fd s) m' = arrived (socket_fd s) m1 @ got'"
    "after = mid + word_of_nat (length got')"
    "accepted (socket_fd s) m' = accepted (socket_fd s) m1 @ take k got'" "\<not> echo \<longrightarrow> k = 0"
    using assms(1) unfolding served_def by blast
  show ?thesis
    unfolding served_def
    by (rule exI [of _ "got @ got'"], rule exI [of _ "if echo then length got + k else 0"])
      (use r assms(2-) in simp)
qed

lemma bench_serve_ends:
  assumes "recv_bounded e" "send_bounded e" "peers_end e f"
  shows "\<exists>n m'. bench_serve e s echo b before m = Some (n, m') \<and> served s echo before m n m'
    \<and> f (world m') \<le> f (world m)"
proof (induction "f (world m)" arbitrary: b before m rule: less_induct)
  case less
  obtain r b1 m1 where rc: "socket_recv e s b m = ((r, b1), m1)" by (metis prod.collapse)
  note eff = socket_recv_effect [OF assms(1) rc]
  define got where "got = take (nat r) b1"
  have got: "arrived (socket_fd s) m1 = arrived (socket_fd s) m @ got" "length got = nat r"
    "accepted (socket_fd s) m1 = accepted (socket_fd s) m"
    using eff recv_keeps_accepted [OF rc] by (auto simp: got_def)
  show ?case
  proof (cases "r \<le> 0")
    case True
    then have "bench_serve e s echo b before m = Some (before, m1)" by (subst bench_serve.simps) (simp add: rc)
    moreover have "served s echo before m before m1"
      unfolding served_def by (rule exI [of _ "[]"], rule exI [of _ 0]) (use True got in simp)
    ultimately show ?thesis using True rank_recv [OF assms(3) rc] by simp
  next
    case False
    then have fall: "f (world m1) < f (world m)" using rank_recv [OF assms(3) rc] by simp
    have cnt: "before + word_of_int r = before + word_of_nat (length got)" using False got(2) by simp
    obtain ok m2 where sd: "socket_send_all e s got m1 = (ok, m2)" by (metis prod.collapse)
    note sent = send_all_keeps_arrived [OF sd] rank_send_all [OF assms(3) sd]
    obtain k where k: "k \<le> length got" "ok \<longleftrightarrow> k = length got"
      "accepted (socket_fd s) m2 = accepted (socket_fd s) m @ take k got"
      using socket_send_all_effect [OF assms(2) sd] got(3) by auto
    show ?thesis
    proof (cases "echo \<and> \<not> ok")
      case True
      then have "bench_serve e s echo b before m = Some (before + word_of_int r, m2)"
        by (subst bench_serve.simps) (use False rc sd got_def in simp)
      moreover have "served s echo before m (before + word_of_int r) m2"
        unfolding served_def
        by (rule exI [of _ got], rule exI [of _ k]) (use True cnt got(1) sent(1) k(3) in simp)
      ultimately show ?thesis using fall sent(2) by auto
    next
      case nxt: False
      define m3 where "m3 = (if echo then m2 else m1)"
      have "f (world m3) < f (world m)" using fall sent(2) by (simp add: m3_def)
      from less.hyps [OF this, of b1 "before + word_of_int r"] obtain n m' where r:
        "bench_serve e s echo b1 (before + word_of_int r) m3 = Some (n, m')"
        "served s echo (before + word_of_int r) m3 n m'" "f (world m') \<le> f (world m3)" by blast
      have "bench_serve e s echo b before m = Some (n, m')"
        by (subst bench_serve.simps) (cases echo; use False rc sd got_def nxt r(1) m3_def in simp)
      moreover have "served s echo before m n m'"
        by (rule served_step [OF r(2) _ cnt]) (use got sent(1) k nxt in \<open>auto simp: m3_def\<close>)
      ultimately show ?thesis using r(3) \<open>f (world m3) < f (world m)\<close> by auto
    qed
  qed
qed


text \<open>
  C33. Serving one client, over a kernel that respects the lengths it is given and peers that send finitely
  much: the loop ends. The number it reports is the number of bytes that came in, modulo \<open>2 ^ 64\<close>; what it
  has put on the wire is a prefix of exactly those bytes in their order, and nothing outside echo mode.
\<close>

theorem bench_serve_correct:
  assumes "recv_bounded e" "send_bounded e" "peers_end e f"
  shows "\<exists>n m' got k. bench_serve e s echo buf 0 m = Some (n, m')
    \<and> arrived (socket_fd s) m' = arrived (socket_fd s) m @ got \<and> n = word_of_nat (length got)
    \<and> accepted (socket_fd s) m' = accepted (socket_fd s) m @ take k got \<and> (echo \<or> k = 0)"
proof -
  obtain n m' where "bench_serve e s echo buf 0 m = Some (n, m')" "served s echo 0 m n m'"
    using bench_serve_ends [OF assms] by blast
  then show ?thesis unfolding served_def by auto
qed

section \<open>All clients\<close>

lemma bench_client_ends:
  assumes "recv_bounded e" "send_bounded e" "peers_end e f"
  shows "\<exists>n m'. bench_client e echo s m = Some (n, m') \<and> f (world m') \<le> f (world m)"
proof -
  obtain t m1 where n1: "sys_now e m = (t, m1)" by (metis prod.collapse)
  obtain n m2 where b: "bench_serve e s echo (replicate (32 * 1024) 0) 0 m1 = Some (n, m2)"
    "f (world m2) \<le> f (world m1)" using bench_serve_ends [OF assms] by blast
  obtain t2 m3 where n2: "sys_now e m2 = (t2, m3)" by (metis prod.collapse)
  have "bench_client e echo s m = Some (n, socket_destroy e s m3)"
    unfolding bench_client_def using n1 b n2 by simp
  then show ?thesis
    using b(2) rank_sys(4) [OF assms(3) n1] rank_sys(4) [OF assms(3) n2] rank_close [OF assms(3), of s m3] by auto
qed

lemma bench_accept_ends:
  assumes "recv_bounded e" "send_bounded e" "peers_end e f"
  shows "bench_accept e echo srv totals m \<noteq> None"
proof (induction "f (world m)" arbitrary: totals m rule: less_induct)
  case less
  obtain r m1 where ac: "server_accept e srv m = (r, m1)" by (metis prod.collapse)
  show ?case
  proof (cases r)
    case None
    then show ?thesis using ac by (subst bench_accept.simps) simp
  next
    case (Some s)
    obtain n m2 where c: "bench_client e echo s m1 = Some (n, m2)" "f (world m2) \<le> f (world m1)"
      using bench_client_ends [OF assms] by blast
    then have "f (world m2) < f (world m)" using rank_accept [OF assms(3) ac] Some by simp
    from less.hyps [OF this] show ?thesis using ac Some c(1) by (subst bench_accept.simps) simp
  qed
qed


section \<open>Ownership\<close>

lemma bench_serve_via:
  assumes "bench_serve e s echo b n m = Some (k, m')"
  shows "via s m m'"
proof -
  have "via s m (snd (k, m'))"
    using assms
  proof (rule bench_serve.raw_induct [where P = "\<lambda>e s echo b n m y. via s m (snd y)", rotated])
    fix rec e s echo b n y and m :: "'a machine"
    assume rec: "\<And>e s echo b n m y. rec e s echo b n m = Some y \<Longrightarrow> via s m (snd y)"
      and turn: "(let ((r, buffer), m) = socket_recv e s b m
        in if r \<le> 0 then Some (n, m)
           else
             let total_bytes = n + word_of_int r
             in if echo then
                  let (ok, m) = socket_send_all e s (take (nat r) buffer) m
                  in if \<not> ok then Some (total_bytes, m) else rec e s echo buffer total_bytes m
                else rec e s echo buffer total_bytes m) = Some y"
    show "via s m (snd y)"
      using turn by (auto simp: Let_def split: if_splits prod.splits dest!: rec dest: via_recv)
        (meson via_recv via_send_all via_trans)+
  qed
  then show ?thesis by simp
qed

lemma bench_client_owned:
  assumes "bench_client e echo s m = Some (n, m')" "sys_inv (OSock s # os, m)"
  shows "sys_inv (os, m')"
proof -
  obtain t m1 where n1: "sys_now e m = (t, m1)" by (metis prod.collapse)
  obtain m2 where b: "bench_serve e s echo (replicate (32 * 1024) 0) 0 m1 = Some (n, m2)"
    and m': "m' = socket_destroy e s (snd (sys_now e m2))"
    using assms(1) n1 by (auto simp: bench_client_def split: option.splits prod.splits)
  have "sys_inv (OSock s # os, m2)"
    using bench_serve_via [OF b] sys_inv_now [OF n1 assms(2)] by (rule sys_inv_via)
  then have "sys_inv (OSock s # os, snd (sys_now e m2))"
    using sys_inv_now [of e m2 "fst (sys_now e m2)" "snd (sys_now e m2)"] by simp
  with m' show ?thesis by (simp add: sys_inv_end_sock)
qed

lemma bench_accept_owned:
  assumes "bench_accept e echo srv totals m = Some (ns, m')" "sys_inv ([OServ srv], m)"
  shows "sys_inv ([OServ srv], m')"
proof -
  have "sys_inv ([OServ srv], m) \<longrightarrow> sys_inv ([OServ srv], snd (ns, m'))"
    using assms(1)
  proof (rule bench_accept.raw_induct [where P = "\<lambda>e echo srv totals m y.
        sys_inv ([OServ srv], m) \<longrightarrow> sys_inv ([OServ srv], snd y)", rotated])
    fix rec e echo srv totals y and m :: "'a machine"
    assume rec: "\<And>e echo srv totals m y. rec e echo srv totals m = Some y \<Longrightarrow>
        sys_inv ([OServ srv], m) \<longrightarrow> sys_inv ([OServ srv], snd y)"
      and turn: "(case server_accept e srv m of
          (None, m) \<Rightarrow> Some (totals, m)
        | (Some sock, m) \<Rightarrow>
            (case bench_client e echo sock m of
               None \<Rightarrow> None
             | Some (total_bytes, m) \<Rightarrow> rec e echo srv (totals @ [total_bytes]) m)) = Some y"
    show "sys_inv ([OServ srv], m) \<longrightarrow> sys_inv ([OServ srv], snd y)"
    proof
      assume inv: "sys_inv ([OServ srv], m)"
      obtain r m1 where ac: "server_accept e srv m = (r, m1)" by (metis prod.collapse)
      note inv1 = sys_inv_accept [OF ac inv]
      show "sys_inv ([OServ srv], snd y)"
      proof (cases r)
        case None
        with turn ac inv1 show ?thesis by auto
      next
        case (Some s)
        then obtain n m2 where c: "bench_client e echo s m1 = Some (n, m2)"
          and y: "rec e echo srv (totals @ [n]) m2 = Some y"
          using turn ac by (auto split: option.splits)
        have "sys_inv ([OServ srv], m2)" using bench_client_owned [OF c] inv1 Some by simp
        with rec [OF y] show ?thesis by blast
      qed
    qed
  qed
  with assms(2) show ?thesis by simp
qed

section \<open>The program\<close>

lemma bench_main_listens:
  assumes "server_listen_with_sdp e server_new u nm ch n (boot w) = ((Inr ok, srv), m)"
  shows "sys_inv ([OServ srv], m)"
proof -
  have "sys_inv ([OServ server_new], boot w)" using sys_inv_new(1) [OF sys_inv_start] .
  with sys_inv_call [OF api_call.serv_listen_sdp [OF assms]] show ?thesis by blast
qed

lemma bench_main_listens_defined:
  assumes "server_listen_with_sdp e server_new u nm ch n (boot w) = ((res, srv), m)"
  obtains ok where "res = Inr ok"
proof -
  have "server_owned server_new (boot w)" "server_pimpl server_new \<noteq> None"
    by (simp_all add: server_owned_def) (simp add: server_new_def)
  from server_listen_with_sdp_effect [OF this assms] that show ?thesis by blast
qed

text \<open>
  However the benchmark server is called, over peers that come and send finitely often and a kernel
  that respects the lengths it is given, it ends, without undefined behaviour, and has released
  everything it acquired: its listening descriptor, every connection, the SDP session and the published
  record.
\<close>

theorem server_bench_releases:
  assumes "recv_bounded e" "send_bounded e" "peers_end e f"
  shows "\<exists>out totals m'. server_bench_main e argv (boot w) = Some (Inr (out, totals), m')
    \<and> live_fds m' = {#} \<and> live_sessions m' = {#} \<and> published m' = {#}
    \<and> fds_respected m' \<and> sessions_respected m'"
proof -
  have start: "sys_inv ([], boot w)" by (rule sys_inv_start)
  have "\<exists>out totals m'. server_bench_main e argv (boot w) = Some (Inr (out, totals), m') \<and> sys_inv ([], m')"
  proof (cases "\<exists>opts u. server_args (drop 1 argv) server_opts_default = Inr opts \<and> uuid_parse (so_uuid opts) = Inr u")
    case False
    then show ?thesis using start by (auto simp: server_bench_main_def split: sum.splits)
  next
    case True
    then obtain opts u where args: "server_args (drop 1 argv) server_opts_default = Inr opts"
      "uuid_parse (so_uuid opts) = Inr u" by blast
    obtain res srv m1 where l: "server_listen_with_sdp e server_new u (so_name opts) (so_channel opts) 4 (boot w)
        = ((res, srv), m1)" by (metis prod.collapse)
    then obtain ok where ok: "res = Inr ok" by (rule bench_main_listens_defined)
    have inv: "sys_inv ([OServ srv], m1)" using l ok by (blast intro: bench_main_listens)
    obtain ns m2 where a: "bench_accept e (so_echo opts) srv [] m1 = Some (ns, m2)"
      using bench_accept_ends [OF assms, of "so_echo opts" srv "[]" m1] by auto
    show ?thesis
      using sys_inv_end_serv [OF inv, of e] sys_inv_end_serv [OF bench_accept_owned [OF a inv], of e] args l a ok
      by (cases ok) (simp_all add: server_bench_main_def)
  qed
  then show ?thesis by (auto simp: sys_inv_def)
qed

text \<open>The sample environment with three connections to come.\<close>

definition visited_env :: "sim env" where
  "visited_env = sim_env\<lparr>k_accept := (\<lambda>h w. if sim_next w < 6
     then ((sim_next w, sim_peer w), w\<lparr>sim_next := sim_next w + 1\<rparr>) else ((- 1, sockaddr_zero), w))\<rparr>"

definition visited_rank :: "sim \<Rightarrow> nat" where
  "visited_rank w = length (sim_in w) + (6 - unat (sim_next w))"

lemma visited_env_ends [simp]: "peers_end visited_env visited_rank" "recv_bounded visited_env" "send_bounded visited_env"
proof -
  have "6 - unat (n + 1) < 6 - unat n" if "n < 6" for n :: handle
  proof -
    from that have "unat n < 6" by (simp add: word_less_nat_alt)
    moreover from this have "unat (n + 1) = unat n + 1" by (simp add: unat_word_ariths)
    ultimately show ?thesis by simp
  qed
  moreover have "\<not> 0 \<le>s (- 1 :: handle)" by (simp add: word_sle_eq)
  ultimately show "peers_end visited_env visited_rank"
    by (auto simp: peers_end_def visited_env_def sim_env_def visited_rank_def Let_def intro: less_imp_le)
  show "recv_bounded visited_env" "send_bounded visited_env"
    by (auto simp: recv_bounded_def send_bounded_def visited_env_def sim_env_def Let_def)
qed

theorem bench_serve_correct_witness:
  "\<exists>n m'. bench_serve visited_env sample_socket True [0, 0, 0] 0 (boot (sim_start\<lparr>sim_in := [5, 6, 7]\<rparr>)) = Some (n, m')
     \<and> n = 3 \<and> accepted 3 m' = [5, 6, 7]"
proof -
  let ?m = "boot (sim_start\<lparr>sim_in := [5, 6, 7]\<rparr>)"
  have fd: "socket_fd sample_socket = 3" "accepted 3 ?m = []" "arrived 3 ?m = []" by code_simp+
  obtain n m' got k where r: "bench_serve visited_env sample_socket True [0, 0, 0] 0 ?m = Some (n, m')"
    "arrived 3 m' = got" "n = word_of_nat (length got)" "accepted 3 m' = take k got"
    using bench_serve_correct [of visited_env visited_rank sample_socket True "[0, 0, 0]" ?m] fd by auto
  have "map_option (\<lambda>(n, m). (n, accepted 3 m))
      (bench_serve visited_env sample_socket True [0, 0, 0] 0 ?m) = Some (3, [5, 6, 7])" by code_simp
  with r show ?thesis by simp
qed

theorem server_bench_releases_witness:
  "\<exists>out totals m'. server_bench_main visited_env [''server_bench'', ''--echo''] (boot (sim_start\<lparr>sim_in := [5, 6, 7]\<rparr>))
       = Some (Inr (out, totals), m') \<and> live_fds m' = {#} \<and> published m' = {#}"
  using server_bench_releases [of visited_env visited_rank] visited_env_ends by metis

end
