(* ===== verification/Serial_Demo.thy ===== *)
theory Serial_Demo
  imports Program_Args Serial_Io
begin

text \<open>
  \<open>examples/serial_port_demo.cpp\<close>: a server that answers the lines of an AT-style protocol over a serial
  port, and a client that runs through its commands. Console output is left out. What the world does
  while the client sleeps is the parameter \<open>sleep\<close>, a function of the milliseconds and the state of the
  world.
\<close>

section \<open>The server\<close>

definition DEMO_UUID :: string where
  "DEMO_UUID = ''e3b0c442-98fc-1c14-9afe-4c9c2e0b5f14''"

definition LF :: char where "LF = CHR 0x0A"

definition CRLF :: string where "CRLF = [CHR 0x0D, CHR 0x0A]"

text \<open>
  One command of the server: the result says whether the loop goes on. The results of \<open>write_line\<close> are
  ignored.
\<close>

definition demo_command ::
  "'w env \<Rightarrow> string \<Rightarrow> serial_port \<Rightarrow> 'w machine \<Rightarrow> ((bool \<times> serial_port) \<times> 'w machine) option" where
  "demo_command e cmd p m =
     (if cmd = ''AT'' then
        let (_, m) = serial_write_line e p ''OK'' CRLF m in Some ((True, p), m)
      else if cmd = ''AT+INFO'' then
        let (_, m) = serial_write_line e p ''+INFO: SimpleRFCOMM FTDI Virtual Device v1.0'' CRLF m;
            (_, m) = serial_write_line e p ''OK'' CRLF m
        in Some ((True, p), m)
      else if cmd = ''AT+PURGE'' then
        (case serial_purge e p PurgeAll m of
           None \<Rightarrow> None
         | Some (p, m) \<Rightarrow> let (_, m) = serial_write_line e p ''OK'' CRLF m in Some ((True, p), m))
      else if cmd = ''AT+QUIT'' then
        let (_, m) = serial_write_line e p ''BYE'' CRLF m in Some ((False, p), m)
      else
        let (_, m) = serial_write_line e p ''ERROR: UNKNOWN COMMAND'' CRLF m in Some ((True, p), m))"

partial_function (option) demo_serve ::
  "'w env \<Rightarrow> serial_port \<Rightarrow> 'w machine \<Rightarrow> (serial_port \<times> 'w machine) option" where
  "demo_serve e p m =
     (if \<not> serial_is_open p then Some (p, m)
      else
        case serial_read_line e p LF 5000 m of
          None \<Rightarrow> None
        | Some ((cmd, p), m) \<Rightarrow>
            if cmd = [] then
              if \<not> serial_is_open p then Some (p, m) else demo_serve e p m
            else
              case demo_command e cmd p m of
                None \<Rightarrow> None
              | Some ((again, p), m) \<Rightarrow> if again then demo_serve e p m else Some (p, m))"

declare demo_serve.simps [code]

text \<open>Server mode, with the port that \<open>main\<close> has constructed; the server object ends before the port.\<close>

definition demo_server :: "'w env \<Rightarrow> uuid \<Rightarrow> 'w machine \<Rightarrow> ((ub + outcome) \<times> 'w machine) option" where
  "demo_server e u m =
     (case server_listen_with_sdp e server_new u ''FTDI Serial Service'' 0 4 m of
        ((Inl b, srv), m) \<Rightarrow> Some (Inl b, m)
      | ((Inr False, srv), m) \<Rightarrow>
          Some (Inr (Exit 1), serial_destroy e serial_new (server_destroy e srv m))
      | ((Inr True, srv), m) \<Rightarrow>
          (case server_accept e srv m of
             (None, m) \<Rightarrow> Some (Inr (Exit 1), serial_destroy e serial_new (server_destroy e srv m))
           | (Some raw_sock, m) \<Rightarrow>
               (case serial_attach e serial_new (Some raw_sock) m of
                  ((Inl b, p), m) \<Rightarrow> Some (Inl b, m)
                | ((Inr False, p), m) \<Rightarrow>
                    Some (Inr (Exit 1), serial_destroy e p (server_destroy e srv m))
                | ((Inr True, p), m) \<Rightarrow>
                    let (p, m) = serial_set_timeouts e p 5000 5000 m
                    in map_option (\<lambda>(p, m). (Inr (Exit 0), serial_destroy e p (server_destroy e srv m)))
                         (demo_serve e p m))))"

section \<open>The client\<close>

text \<open>Reading the lines of an answer, up to its last one or to an empty line.\<close>

definition ends_answer :: "string \<Rightarrow> bool" where
  "ends_answer resp \<longleftrightarrow> resp = ''OK'' \<or> resp = ''BYE'' \<or> take 5 resp = ''ERROR''"

partial_function (option) demo_answer ::
  "'w env \<Rightarrow> serial_port \<Rightarrow> string list \<Rightarrow> 'w machine \<Rightarrow> ((string list \<times> serial_port) \<times> 'w machine) option" where
  "demo_answer e p got m =
     (case serial_read_line e p LF 2000 m of
        None \<Rightarrow> None
      | Some ((resp, p), m) \<Rightarrow>
          if resp = [] then Some ((got, p), m)
          else if ends_answer resp then Some ((got @ [resp], p), m)
          else demo_answer e p (got @ [resp]) m)"

declare demo_answer.simps [code]

fun demo_commands ::
  "'w env \<Rightarrow> (int \<Rightarrow> 'w \<Rightarrow> 'w) \<Rightarrow> string list \<Rightarrow> serial_port \<Rightarrow> 'w machine \<Rightarrow>
     ((string list list \<times> serial_port) \<times> 'w machine) option" where
  "demo_commands e sleep [] p m = Some (([], p), m)"
| "demo_commands e sleep (cmd # cmds) p m =
     (let (_, m) = serial_write_line e p cmd CRLF m;
          m = m\<lparr>world := sleep 100 (world m)\<rparr>;
          (available, m) = serial_get_rx_queue_status e p m
      in case demo_answer e p [] m of
           None \<Rightarrow> None
         | Some ((resps, p), m) \<Rightarrow>
             map_option (\<lambda>((rest, p), m). ((resps # rest, p), m)) (demo_commands e sleep cmds p m))"

text \<open>Client mode: the lines answered to each command.\<close>

definition demo_client ::
  "'w env \<Rightarrow> (int \<Rightarrow> 'w \<Rightarrow> 'w) \<Rightarrow> string \<Rightarrow> 'w machine \<Rightarrow>
     ((ub + outcome \<times> string list list) \<times> 'w machine) option" where
  "demo_client e sleep target_mac m =
     (case serial_open_by_uuid_text e serial_new target_mac DEMO_UUID 10000 m of
        ((Inl b, p), m) \<Rightarrow> Some (Inl b, m)
      | ((Inr False, p), m) \<Rightarrow> Some (Inr (Exit 1, []), serial_destroy e p m)
      | ((Inr True, p), m) \<Rightarrow>
          let p = serial_set_baud_rate Baud115200 p;
              p = serial_set_data_characteristics Bits8 StopOne ParityNone p;
              (p, m) = serial_set_timeouts e p 3000 3000 m
          in case demo_commands e sleep [''AT'', ''AT+INFO'', ''AT+PURGE'', ''AT+QUIT''] p m of
               None \<Rightarrow> None
             | Some ((resps, p), m) \<Rightarrow>
                 let (p, m) = serial_close e p m
                 in Some (Inr (Exit 0, resps), serial_destroy e p m))"

section \<open>The program\<close>

text \<open>Any other mode ends at once with exit code 0.\<close>

definition serial_demo_main ::
  "'w env \<Rightarrow> (int \<Rightarrow> 'w \<Rightarrow> 'w) \<Rightarrow> string list \<Rightarrow> 'w machine \<Rightarrow>
     ((ub + outcome \<times> string list list) \<times> 'w machine) option" where
  "serial_demo_main e sleep argv m =
     (if length argv < 2 then Some (Inr (Exit 1, []), m)
      else
        case uuid_parse DEMO_UUID of
          Inl x \<Rightarrow> Some (Inr (Uncaught (FromParse x), []), m)
        | Inr u \<Rightarrow>
            if argv ! 1 = ''server'' then
              map_option (\<lambda>(r, m). (case r of Inl b \<Rightarrow> Inl b | Inr out \<Rightarrow> Inr (out, []), m)) (demo_server e u m)
            else if argv ! 1 = ''client'' then
              if length argv < 3 then Some (Inr (Exit 1, []), serial_destroy e serial_new m)
              else demo_client e sleep (argv ! 2) m
            else Some (Inr (Exit 0, []), serial_destroy e serial_new m))"

end
