(* ===== verification/Serial_Demo_Facts.thy ===== *)
theory Serial_Demo_Facts
  imports Serial_Demo Serial_Quiet Program_Clean
begin

text \<open>
  The demo server answers the lines of its input one by one, as the table of its protocol says, until
  \<open>AT+QUIT\<close>. When the peer has gone without it, it never ends.
\<close>

section \<open>Writing\<close>

text \<open>A kernel whose \<open>send\<close> takes all it is offered.\<close>

definition sends_all :: "'w env \<Rightarrow> bool" where
  "sends_all e \<longleftrightarrow> (\<forall>h d w. fst (k_send e h d w) = int (length d))"

lemma send_all_whole:
  assumes "sends_all e" "socket_is_open s" "socket_send_all e s d m = (ok, m')"
  shows "ok \<and> accepted (socket_fd s) m' = accepted (socket_fd s) m @ d"
proof (cases "d = []")
  case False
  obtain w where k: "k_send e (socket_fd s) d (world m) = (int (length d), w)"
    using assms(1) unfolding sends_all_def by (metis prod.collapse)
  have "socket_send_all_loop e s d (length d) m1 = (True, m1)" for m1 :: "'a machine"
    by (simp add: socket_send_all_loop.simps)
  then show ?thesis
    using assms(2,3) False k
    by (simp add: socket_send_all_def socket_send_all_loop.simps [of e s d 0 m] socket_send_def sys_send_def)
       (auto simp: accepted_emit)
qed (use assms in simp)

lemma write_line_whole:
  assumes "sends_all e" "port_ready p m" "serial_write_line e p line eol m = (ok, m')"
  shows "port_ready p m' \<and> consumed p m' = consumed p m
    \<and> accepted (serial_fd p) m' = accepted (serial_fd p) m @ map byte_of_char (line @ eol)"
proof -
  obtain im s where p: "p = SerialPort (Some im)" "ser_sock im = Some s" "socket_is_open s"
    "serial_parts p = Some (im, s)" using port_ready_open [OF assms(2)] by (rule serial_open_cases)
  then have sd: "socket_send_all e s (map byte_of_char (line @ eol)) m = (ok, m')"
    using assms(3) by (simp add: serial_write_line_def)
  have fd: "serial_fd p = socket_fd s" using p by simp
  have own: "serial_owned p m'"
    using port_io_owned [OF Serial_Frame.port_write_line [OF assms(3)]] assms(2) by (simp add: port_ready_def)
  show ?thesis
    using send_all_whole [OF assms(1) p(3) sd] send_all_keeps_arrived [OF sd] fd own assms(2)
      cache_sound_same_arrived [of p m m']
    by (simp add: port_ready_def)
qed

section \<open>The protocol\<close>

text \<open>What the server answers to a line; nothing to an empty one.\<close>

definition demo_replies :: "string \<Rightarrow> string list" where
  "demo_replies cmd =
     (if cmd = [] then []
      else if cmd = ''AT'' \<or> cmd = ''AT+PURGE'' then [''OK'']
      else if cmd = ''AT+INFO'' then [''+INFO: SimpleRFCOMM FTDI Virtual Device v1.0'', ''OK'']
      else if cmd = ''AT+QUIT'' then [''BYE'']
      else [''ERROR: UNKNOWN COMMAND''])"

definition reply_bytes :: "string \<Rightarrow> u8 list" where
  "reply_bytes cmd = map byte_of_char (concat (map (\<lambda>l. l @ CRLF) (demo_replies cmd)))"

text \<open>
  One turn: the bytes taken for the line, the line, and the bytes dropped by \<open>AT+PURGE\<close>. A session ends
  at its first \<open>AT+QUIT\<close>.
\<close>

type_synonym demo_turn = "u8 list \<times> string \<times> u8 list"

definition demo_turn_ok :: "demo_turn \<Rightarrow> bool" where
  "demo_turn_ok = (\<lambda>(got, cmd, dropped). line_of LF got cmd \<and> (cmd \<noteq> ''AT+PURGE'' \<longrightarrow> dropped = []))"

fun demo_session :: "demo_turn list \<Rightarrow> bool" where
  "demo_session [] = False"
| "demo_session (t # ts) = (demo_turn_ok t \<and> (if fst (snd t) = ''AT+QUIT'' then ts = [] else demo_session ts))"

lemma demo_command_effect:
  assumes "recv_bounded e" "sends_all e" "port_ready p m" "cmd \<noteq> []"
    and "demo_command e cmd p m = Some ((again, p'), m')"
  shows "again = (cmd \<noteq> ''AT+QUIT'') \<and> port_ready p' m' \<and> serial_fd p' = serial_fd p
    \<and> accepted (serial_fd p) m' = accepted (serial_fd p) m @ reply_bytes cmd
    \<and> (\<exists>dropped. consumed p' m' = consumed p m @ dropped \<and> (cmd \<noteq> ''AT+PURGE'' \<longrightarrow> dropped = []))"
proof (cases "cmd = ''AT+PURGE''")
  case True
  then obtain m1 ok where pg: "serial_purge e p PurgeAll m = Some (p', m1)"
    and wr: "serial_write_line e p' ''OK'' CRLF m1 = (ok, m')" and ag: again
    using assms(5) by (auto simp: demo_command_def split: option.splits prod.splits)
  have fl: "purge_has PurgeAll PurgeRx" by code_simp
  have own: "serial_owned p m" and op: "serial_is_open p"
    using assms(3) by (simp_all add: port_ready_def cache_sound_def)
  note eff = serial_purge_effect [OF own op fl pg]
  then have st: "port_ready p' m1" and fd: "serial_fd p' = serial_fd p"
    by (simp_all add: port_ready_def serial_fd_def)
  note q = quiet_purge [OF pg]
  have "prefix (consumed p m) (arrived (serial_fd p) m)"
    using consumed_append [of p m] assms(3) by (auto simp: port_ready_def intro: prefixI [OF sym])
  then have "prefix (consumed p m) (consumed p' m1)"
    using q eff prefix_order.trans unfolding quiet_def by metis
  then obtain dropped where "consumed p' m1 = consumed p m @ dropped" by (auto simp: prefix_def)
  moreover have "accepted (serial_fd p) m1 = accepted (serial_fd p) m" using q by (simp add: quiet_def)
  ultimately show ?thesis
    using write_line_whole [OF assms(2) st wr] fd ag True
    by (simp add: reply_bytes_def demo_replies_def)
next
  case other: False
  show ?thesis
  proof (cases "cmd = ''AT+INFO''")
    case True
    then obtain ok1 m1 ok2 where w: "serial_write_line e p ''+INFO: SimpleRFCOMM FTDI Virtual Device v1.0'' CRLF m = (ok1, m1)"
      "serial_write_line e p ''OK'' CRLF m1 = (ok2, m')" "again" "p' = p"
      using assms(5) by (auto simp: demo_command_def split: prod.splits)
    note w1 = write_line_whole [OF assms(2,3) w(1)]
    note w2 = write_line_whole [OF assms(2) conjunct1 [OF w1] w(2)]
    show ?thesis using w1 w2 w(3,4) True by (simp add: reply_bytes_def demo_replies_def)
  next
    case False
    then obtain l ok where "serial_write_line e p l CRLF m = (ok, m')" "p' = p" "again = (cmd \<noteq> ''AT+QUIT'')"
      "demo_replies cmd = [l]"
      using assms(4,5) other by (fastforce simp: demo_command_def demo_replies_def split: if_splits prod.splits)
    then show ?thesis using write_line_whole [OF assms(2,3)] by (auto simp: reply_bytes_def)
  qed
qed

text \<open>All that a run of the loop does, from any state of the session.\<close>

definition demo_result :: "serial_port \<Rightarrow> 'w machine \<Rightarrow> serial_port \<Rightarrow> 'w machine \<Rightarrow> bool" where
  "demo_result p m p' m' \<longleftrightarrow> port_ready p' m' \<and> serial_fd p' = serial_fd p \<and>
     (\<exists>turns. demo_session turns
        \<and> consumed p' m' = consumed p m @ concat (map (\<lambda>(got, cmd, dropped). got @ dropped) turns)
        \<and> accepted (serial_fd p) m' = accepted (serial_fd p) m @ concat (map (\<lambda>(got, cmd, dropped). reply_bytes cmd) turns))"

lemma demo_result_step:
  assumes "demo_result p1 m1 p' m'" "serial_fd p1 = serial_fd p" "demo_turn_ok (got, cmd, dropped)" "cmd \<noteq> ''AT+QUIT''"
    and "consumed p1 m1 = consumed p m @ got @ dropped" "accepted (serial_fd p) m1 = accepted (serial_fd p) m @ reply_bytes cmd"
  shows "demo_result p m p' m'"
proof -
  obtain turns where t: "demo_session turns"
    "consumed p' m' = consumed p1 m1 @ concat (map (\<lambda>(got, cmd, dropped). got @ dropped) turns)"
    "accepted (serial_fd p1) m' = accepted (serial_fd p1) m1 @ concat (map (\<lambda>(got, cmd, dropped). reply_bytes cmd) turns)"
    using assms(1) unfolding demo_result_def by blast
  then show ?thesis
    unfolding demo_result_def
    by (intro conjI exI [of _ "(got, cmd, dropped) # turns"]) (use assms in \<open>auto simp: demo_result_def\<close>)
qed

lemma demo_turn_effect:
  assumes "recv_bounded e" "sends_all e" "port_ready p m" "serial_is_open p"
    and rec: "\<And>p m p' m'. rec p m = Some (p', m') \<Longrightarrow> port_ready p m \<Longrightarrow> demo_result p m p' m'"
    and turn: "(case serial_read_line e p LF 5000 m of
          None \<Rightarrow> None
        | Some ((cmd, p), m) \<Rightarrow>
            if cmd = [] then if \<not> serial_is_open p then Some (p, m) else rec p m
            else case demo_command e cmd p m of
                None \<Rightarrow> None
              | Some ((again, p), m) \<Rightarrow> if again then rec p m else Some (p, m)) = Some (p', m')"
  shows "demo_result p m p' m'"
proof -
  obtain cmd p1 m1 where rd: "serial_read_line e p LF 5000 m = Some ((cmd, p1), m1)"
    using turn by (auto split: option.splits)
  have snd: "cache_sound p m" using assms(3) by (simp add: port_ready_def)
  obtain got where g: "cache_sound p1 m1" "consumed p1 m1 = consumed p m @ got" "line_of LF got cmd"
    using serial_read_line_effect [OF assms(1) snd rd] by blast
  have io: "port_io p m p1 m1" using rd by (rule Serial_Frame.port_read_line)
  have st: "port_ready p1 m1" using port_io_owned [OF io] assms(3) g(1) by (simp add: port_ready_def)
  have fd: "serial_fd p1 = serial_fd p" using io by (simp add: port_io_def serial_fd_def)
  have acc: "accepted (serial_fd p) m1 = accepted (serial_fd p) m"
    using quiet_read_line [OF rd] by (simp add: quiet_def)
  show ?thesis
  proof (cases "cmd = []")
    case True
    then have "rec p1 m1 = Some (p', m')" using turn rd port_ready_open [OF st] by simp
    from demo_result_step [OF rec [OF this st] fd, of got "[]" "[]" m] True g acc show ?thesis
      by (simp add: demo_turn_ok_def reply_bytes_def demo_replies_def)
  next
    case False
    then obtain again p2 m2 where c: "demo_command e cmd p1 m1 = Some ((again, p2), m2)"
      using turn rd by (auto split: option.splits)
    obtain dropped where d: "again = (cmd \<noteq> ''AT+QUIT'')" "port_ready p2 m2" "serial_fd p2 = serial_fd p"
      "accepted (serial_fd p) m2 = accepted (serial_fd p) m @ reply_bytes cmd"
      "consumed p2 m2 = consumed p m @ got @ dropped" "cmd \<noteq> ''AT+PURGE'' \<longrightarrow> dropped = []"
      using demo_command_effect [OF assms(1,2) st False c] fd acc g(2) by auto
    have tok: "demo_turn_ok (got, cmd, dropped)" using g(3) d(6) by (simp add: demo_turn_ok_def)
    show ?thesis
    proof (cases again)
      case True
      then have "rec p2 m2 = Some (p', m')" using turn rd False c by simp
      from demo_result_step [OF rec [OF this d(2)] d(3) tok _ d(5,4)] True d(1) show ?thesis by blast
    next
      case quit: False
      then have "p' = p2" "m' = m2" using turn rd False c by simp_all
      then show ?thesis
        unfolding demo_result_def
        by (intro conjI exI [of _ "[(got, cmd, dropped)]"]) (use d tok quit in simp_all)
    qed
  qed
qed

lemma demo_serve_result:
  assumes "demo_serve e p m = Some (p', m')" "recv_bounded e" "sends_all e" "port_ready p m"
  shows "demo_result p m p' m'"
proof -
  have "e' = e \<longrightarrow> port_ready p m \<longrightarrow> demo_result p m (fst (p', m')) (snd (p', m'))"
    if "demo_serve e' p m = Some (p', m')" for e'
    using that
  proof (rule demo_serve.raw_induct [where P = "\<lambda>e' p m y. e' = e \<longrightarrow> port_ready p m \<longrightarrow>
      demo_result p m (fst y) (snd y)", rotated])
    fix rec e' p m y
    assume rec: "\<And>e' p m y. rec e' p m = Some y \<Longrightarrow> e' = e \<longrightarrow> port_ready p m \<longrightarrow> demo_result p m (fst y) (snd y)"
      and turn: "(if \<not> serial_is_open p then Some (p, m)
        else case serial_read_line e' p LF 5000 m of
          None \<Rightarrow> None
        | Some ((cmd, p), m) \<Rightarrow>
            if cmd = [] then if \<not> serial_is_open p then Some (p, m) else rec e' p m
            else case demo_command e' cmd p m of
                None \<Rightarrow> None
              | Some ((again, p), m) \<Rightarrow> if again then rec e' p m else Some (p, m)) = Some y"
    show "e' = e \<longrightarrow> port_ready p m \<longrightarrow> demo_result p m (fst y) (snd y)"
    proof (intro impI)
      assume e: "e' = e" and st: "port_ready p m"
      have op: "serial_is_open p" using st by (rule port_ready_open)
      have r: "\<And>p m p' m'. rec e p m = Some (p', m') \<Longrightarrow> port_ready p m \<Longrightarrow> demo_result p m p' m'"
        using rec by fastforce
      show "demo_result p m (fst y) (snd y)"
        by (rule demo_turn_effect [OF assms(2,3) st op r]) (use turn [unfolded e] op in simp_all)
    qed
  qed
  with assms(1,4) show ?thesis by simp
qed


text \<open>
  C25. The demo server refines the table of its protocol. When its loop ends, over a kernel that takes what it
  is given to send, the bytes it has taken from the stream are a sequence of lines, each followed by what
  an \<open>AT+PURGE\<close> dropped; the last line, and no earlier one, is \<open>AT+QUIT\<close>; and what it has sent is exactly
  the reply to each line, in the order of the lines. Nothing it has received is lost otherwise.
\<close>

theorem demo_serve_protocol:
  assumes "recv_bounded e" "sends_all e" "serial_owned p m" "cache_sound p m" "demo_serve e p m = Some (p', m')"
  shows "cache_sound p' m' \<and> serial_owned p' m' \<and> serial_fd p' = serial_fd p
    \<and> (\<exists>turns. demo_session turns
        \<and> consumed p' m' = consumed p m @ concat (map (\<lambda>(got, cmd, dropped). got @ dropped) turns)
        \<and> accepted (serial_fd p) m' =
            accepted (serial_fd p) m @ concat (map (\<lambda>(got, cmd, dropped). reply_bytes cmd) turns))"
  using demo_serve_result [OF assms(5,1,2)] assms(3,4) by (simp add: demo_result_def port_ready_def)

text \<open>A kernel that delivers in small pieces and takes all that is sent.\<close>

definition demo_env :: "sim env" where
  "demo_env = sim_env\<lparr>k_send := (\<lambda>h d w. (int (length d), w))\<rparr>"

text \<open>The lines \<open>AT\<close> and \<open>AT+QUIT\<close>.\<close>

definition demo_input :: "u8 list" where
  "demo_input = [65, 84, 10, 65, 84, 43, 81, 85, 73, 84, 10]"

definition demo_port :: serial_port where
  "demo_port = SerialPort (Some (serial_impl_default\<lparr>ser_sock := Some sample_socket, rx_buf := demo_input\<rparr>))"

definition demo_machine :: "sim machine" where
  "demo_machine = emit (EvRecv 3 4096 11 demo_input) sim_start (emit (EvSocket 3) sim_start (boot sim_start))"

theorem demo_serve_protocol_witness:
  "\<exists>p' m'. demo_serve demo_env demo_port demo_machine = Some (p', m')
     \<and> accepted 3 m' = reply_bytes ''AT'' @ reply_bytes ''AT+QUIT''
     \<and> (\<exists>turns. demo_session turns \<and> accepted 3 m' = concat (map (\<lambda>(got, cmd, dropped). reply_bytes cmd) turns))"
proof -
  have env: "recv_bounded demo_env" "sends_all demo_env"
    by (auto simp: recv_bounded_def sends_all_def demo_env_def sim_env_def Let_def)
  have p: "serial_is_open demo_port" "head_in_bounds demo_port" "serial_cache demo_port = demo_input"
    "serial_fd demo_port = 3" "accepted 3 demo_machine = []" "arrived 3 demo_machine = demo_input"
    "live_fds demo_machine = {#3#}" "fds_respected demo_machine" "serial_valid demo_port" "serial_holds demo_port = {#3#}"
    by code_simp+
  then have sound: "cache_sound demo_port demo_machine" by (simp add: cache_sound_def)
  have own: "serial_owned demo_port demo_machine" using p by (simp add: serial_owned_def)
  have v: "map_option (\<lambda>(p, m). accepted 3 m) (demo_serve demo_env demo_port demo_machine) =
    Some (reply_bytes ''AT'' @ reply_bytes ''AT+QUIT'')" by code_simp
  then obtain p' m' where r: "demo_serve demo_env demo_port demo_machine = Some (p', m')"
    "accepted 3 m' = reply_bytes ''AT'' @ reply_bytes ''AT+QUIT''" by auto
  from demo_serve_protocol [OF env own sound r(1)] r p(4,5) show ?thesis by auto
qed


section \<open>A peer that has gone\<close>

text \<open>Every \<open>recv\<close> brings nothing: the connection is at its end or broken.\<close>

definition peer_gone :: "'w env \<Rightarrow> bool" where
  "peer_gone e \<longleftrightarrow> (\<forall>h n w. fst (fst (k_recv e h n w)) \<le> 0)"

lemma recv_gone: "peer_gone e \<Longrightarrow> socket_recv e s b m = ((r, b'), m') \<Longrightarrow> r \<le> 0"
  unfolding peer_gone_def
  by (auto simp: socket_recv_def sys_recv_def split: if_splits prod.splits) (metis fst_conv order_antisym)+

lemma refill_gone:
  assumes "peer_gone e" "ser_sock im = Some s" "cached_bytes_available im = 0"
  obtains im' m' where "refill_rx_cache e im m = ((False, im'), m')" "ser_sock im' = Some s" "cached_bytes_available im' = 0"
proof -
  obtain r b m1 where rc: "socket_recv e s chunk_4096 m = ((r, b), m1)" by (metis prod.collapse)
  have le: "r \<le> 0" using recv_gone [OF assms(1) rc] .
  have c: "cached_bytes_available (clear_rx_cache im) = 0" "ser_sock (clear_rx_cache im) = Some s"
    using assms(2) by (simp_all only: clear_rx_cache_def cached_bytes_available_def) simp_all
  show ?thesis
  proof (cases "socket_is_open s")
    case True
    then have "refill_rx_cache e im m = ((False, if length (rx_buf im) \<le> rx_head im then clear_rx_cache im else im), m1)"
      using assms(2) rc le by (simp add: refill_rx_cache_def Let_def)
    then show ?thesis using that assms(2,3) c by (metis (full_types))
  next
    case False
    then show ?thesis using that assms(2,3) by (simp add: refill_rx_cache_def)
  qed
qed

lemma scan_line_empty: "cached_bytes_available im = 0 \<Longrightarrow> scan_line d im line = ((False, line), im)"
  by (subst scan_line.simps) simp

text \<open>An open port with nothing in its cache.\<close>

definition port_empty :: "serial_port \<Rightarrow> bool" where
  "port_empty p \<longleftrightarrow> serial_is_open p \<and> (\<forall>im. serial_pimpl p = Some im \<longrightarrow> cached_bytes_available im = 0)"

lemma read_line_gone:
  assumes "peer_gone e" "port_empty p"
  obtains p' m' where "serial_read_line e p d t m = Some (([], p'), m')" "port_empty p'"
proof -
  have op: "serial_is_open p" using assms(2) by (simp add: port_empty_def)
  obtain im s start m1 where p: "p = SerialPort (Some im)" "ser_sock im = Some s" "socket_is_open s"
    "sys_now e m = (start, m1)" "arrived (socket_fd s) m1 = arrived (socket_fd s) m" "serial_read_line e p d t m =
       map_option (\<lambda>((line, im), m). ((line, SerialPort (Some im)), m)) (read_line_loop e d t start im [] m1)"
    by (rule serial_read_line_parts [OF op, of e m d t])
  have c: "cached_bytes_available im = 0" using assms(2) p by (simp add: port_empty_def)
  obtain ex m2 where ex: "(if 0 < t then let (now, m) = sys_now e m1 in (timed_out start now t, m)
      else (False, m1)) = (ex, m2)" by (metis prod.collapse)
  obtain im2 m3 where g: "refill_rx_cache e im m2 = ((False, im2), m3)" "ser_sock im2 = Some s" "cached_bytes_available im2 = 0"
    by (rule refill_gone [OF assms(1) p(2) c])
  define im' where "im' = (if ex then im else im2)"
  have "read_line_loop e d t start im [] m1 = Some (([], im'), if ex then m2 else m3)"
    by (subst read_line_loop.simps) (use scan_line_empty [OF c] ex g(1) in \<open>cases ex; simp add: im'_def\<close>)
  then have "serial_read_line e p d t m = Some (([], SerialPort (Some im')), if ex then m2 else m3)"
    using p(6) by simp
  moreover have "port_empty (SerialPort (Some im'))"
    using p g c by (simp add: port_empty_def serial_is_open_def im'_def)
  ultimately show ?thesis using that by blast
qed

text \<open>
  C28. A demo server whose peer has gone without \<open>AT+QUIT\<close> never ends: the port still counts as open, every
  read returns an empty line at once, and the loop goes round for ever.
\<close>

theorem demo_serve_spins:
  assumes "peer_gone e" "port_empty p"
  shows "demo_serve e p m = None"
proof (rule ccontr)
  assume "demo_serve e p m \<noteq> None"
  then obtain y where "demo_serve e p m = Some y" by blast
  then have "peer_gone e \<longrightarrow> \<not> port_empty p"
  proof (rule demo_serve.raw_induct [where P = "\<lambda>e p m y. peer_gone e \<longrightarrow> \<not> port_empty p", rotated])
    fix rec e p y and m :: "'a machine"
    assume rec: "\<And>e p m y. rec e p m = Some y \<Longrightarrow> peer_gone e \<longrightarrow> \<not> port_empty p"
      and turn: "(if \<not> serial_is_open p then Some (p, m)
        else case serial_read_line e p LF 5000 m of
          None \<Rightarrow> None
        | Some ((cmd, p), m) \<Rightarrow>
            if cmd = [] then if \<not> serial_is_open p then Some (p, m) else rec e p m
            else case demo_command e cmd p m of
                None \<Rightarrow> None
              | Some ((again, p), m) \<Rightarrow> if again then rec e p m else Some (p, m)) = Some y"
    show "peer_gone e \<longrightarrow> \<not> port_empty p"
    proof (intro impI notI)
      assume gone: "peer_gone e" and empty: "port_empty p"
      obtain p1 m1 where r: "serial_read_line e p LF 5000 m = Some (([], p1), m1)" "port_empty p1"
        by (rule read_line_gone [OF gone empty])
      then have "rec e p1 m1 = Some y" using turn empty by (simp add: port_empty_def)
      from rec [OF this] gone r(2) show False by blast
    qed
  qed
  with assms show False by blast
qed

definition gone_env :: "sim env" where
  "gone_env = sim_env\<lparr>k_recv := (\<lambda>h n w. ((0, []), w))\<rparr>"

theorem demo_serve_spins_witness:
  "demo_serve gone_env (SerialPort (Some (serial_impl_default\<lparr>ser_sock := Some sample_socket\<rparr>))) (boot sim_start) = None"
proof (rule demo_serve_spins)
  show "peer_gone gone_env" by (simp add: peer_gone_def gone_env_def)
  show "port_empty (SerialPort (Some (serial_impl_default\<lparr>ser_sock := Some sample_socket\<rparr>)))"
    by (simp add: port_empty_def serial_is_open_def sample_socket_def socket_is_open_def
        serial_impl_default_def im_cache_def INVALID_SOCKET_HANDLE_def)
qed

end
