(* ===== verification/Delivery.thy ===== *)
theory Delivery
  imports Serial_Quiet
begin

text \<open>
  A connection that works: what the peer has sent is delivered, in pieces of any size, everything sent is
  taken, and the peer answers. Over it the reading loops of the library are total: they return, with the whole
  of what was asked for, however the kernel cuts the stream.
\<close>

section \<open>Loops over a reader that delivers\<close>

text \<open>
  A reader with \<open>pending\<close> bytes to come. While there are enough of them for the span, it stores at least one
  byte, and the bytes it stores are the next ones.
\<close>

locale live_fill_loop = fill_loop +
  fixes live :: "'a \<Rightarrow> bool"
    and pending :: "'a \<Rightarrow> u8 list"
  assumes live_inv: "live s \<Longrightarrow> inv s"
    and rd_live: "live s \<Longrightarrow> small (length buf) \<Longrightarrow> buf \<noteq> [] \<Longrightarrow> length buf \<le> length (pending s) \<Longrightarrow>
      rd s buf = ((n, buf'), s') \<Longrightarrow> live s' \<and> 0 < n \<and> pending s = take n buf' @ pending s'"
begin

lemma fill_live:
  assumes "live s" "small (length buf)" "done \<le> length buf" "length buf - done \<le> length (pending s)"
    and "fill s buf done = ((ok, buf'), s')"
  shows "ok \<and> live s' \<and> pending s = drop done buf' @ pending s'"
  using assms
proof (induction "length buf - done" arbitrary: s buf "done" rule: less_induct)
  case less
  have whole: "length buf' = length buf" "take done buf' = take done buf"
    using fill_spec [OF live_inv [OF less.prems(1)] less.prems(2,3,5)] by auto
  show ?case
  proof (cases "done < length buf")
    case False
    then have "ok \<and> buf' = buf \<and> s' = s" using less.prems(5) by (simp add: fill_unfold [of s buf "done"])
    with False less.prems show ?thesis by simp
  next
    case True
    obtain n chunk s1 where r: "rd s (drop done buf) = ((n, chunk), s1)" by (metis prod.collapse)
    let ?b = "write_tail done chunk buf"
    have tail: "small (length (drop done buf))" using small_le [OF less.prems(2)] by simp
    have step: "live s1" "0 < n" "pending s = take n chunk @ pending s1"
      using rd_live [OF less.prems(1) tail _ _ r] True less.prems(4) by simp_all
    have span: "n \<le> length buf - done" "length chunk = length buf - done"
      using rd_span [OF live_inv [OF less.prems(1)] tail r] by simp_all
    have b: "length ?b = length buf" "drop done ?b = chunk"
      using span True by (simp_all add: write_tail_def)
    have next_fill: "fill s1 ?b (done + n) = ((ok, buf'), s')"
      using less.prems(5) True r step(2) by (simp add: fill_unfold [of s buf "done"])
    have fits: "done + n \<le> length ?b" "length ?b - (done + n) \<le> length (pending s1)"
      using b span True step(3) less.prems(4) by simp_all
    have "small (length ?b)" using less.prems(2) b by simp
    have "ok \<and> live s' \<and> pending s1 = drop (done + n) buf' @ pending s'"
      by (rule less.hyps [OF _ step(1) \<open>small (length ?b)\<close> fits next_fill]) (use step(2) b True in simp)
    moreover have "take (done + n) buf' = take (done + n) ?b"
      using fill_spec [OF live_inv [OF step(1)] \<open>small (length ?b)\<close> fits(1) next_fill] by auto
    then have "take n (drop done buf') = take n chunk"
      using b(2) by (metis add.commute take_drop)
    then have "drop done buf' = take n chunk @ drop (done + n) buf'"
      by (metis add.commute append_take_drop_id drop_drop)
    ultimately show ?thesis using step(3) by simp
  qed
qed

lemma fill_live_from_start:
  assumes "live s" "small (length buf)" "length buf \<le> length (pending s)" "fill s buf 0 = ((ok, buf'), s')"
  shows "ok \<and> live s' \<and> buf' = take (length buf) (pending s) \<and> pending s' = drop (length buf) (pending s)"
proof -
  have "length buf' = length buf"
    using fill_from_start [OF live_inv [OF assms(1)] assms(2,4)] by auto
  with fill_live [OF assms(1,2) _ _ assms(4)] assms(3) show ?thesis by simp
qed

end

section \<open>A peer at the other end\<close>

text \<open>
  \<open>inq w\<close> is what the peer has sent on the descriptor and the kernel has not delivered yet. A \<open>recv\<close> delivers
  some of it, not nothing; a \<open>send\<close> takes all of its bytes, and the peer's answer to them,
  \<open>answer w d\<close>, joins what is pending. The other calls of a session change nothing.
\<close>

definition stream_peer :: "'w env \<Rightarrow> handle \<Rightarrow> ('w \<Rightarrow> u8 list) \<Rightarrow> ('w \<Rightarrow> u8 list \<Rightarrow> u8 list) \<Rightarrow> bool" where
  "stream_peer e h inq answer \<longleftrightarrow> recv_bounded e
     \<and> (\<forall>n w. 0 < n \<longrightarrow> inq w \<noteq> [] \<longrightarrow>
          0 < fst (fst (k_recv e h n w)) \<and> inq w = snd (fst (k_recv e h n w)) @ inq (snd (k_recv e h n w)))
     \<and> (\<forall>d w. fst (k_send e h d w) = int (length d) \<and> inq (snd (k_send e h d w)) = inq w @ answer w d)
     \<and> (\<forall>w. inq (snd (k_now e w)) = inq w)
     \<and> (\<forall>k w. inq (snd (k_fionread e k w)) = inq w)
     \<and> (\<forall>k opt v w. inq (snd (k_setsockopt e k opt v w)) = inq w)"

lemma stream_peer_bounded: "stream_peer e h inq answer \<Longrightarrow> recv_bounded e"
  by (simp add: stream_peer_def)

lemma stream_peer_recv:
  "stream_peer e h inq answer \<Longrightarrow> k_recv e h n w = ((r, d), w') \<Longrightarrow> 0 < n \<Longrightarrow> inq w \<noteq> [] \<Longrightarrow>
     0 < r \<and> inq w = d @ inq w'"
  unfolding stream_peer_def by (metis fst_conv snd_conv)

lemma stream_peer_send:
  "stream_peer e h inq answer \<Longrightarrow> k_send e h d w = (r, w') \<Longrightarrow> r = int (length d) \<and> inq w' = inq w @ answer w d"
  unfolding stream_peer_def by (metis fst_conv snd_conv)

lemma peer_now: "stream_peer e h inq answer \<Longrightarrow> sys_now e m = (t, m') \<Longrightarrow> inq (world m') = inq (world m)"
  unfolding stream_peer_def by (auto simp: sys_now_def split: prod.splits) (metis snd_conv)+

lemma peer_fionread:
  "stream_peer e h inq answer \<Longrightarrow> sys_fionread e k m = (t, m') \<Longrightarrow> inq (world m') = inq (world m)"
  unfolding stream_peer_def by (auto simp: sys_fionread_def split: prod.splits) (metis snd_conv)+

lemma peer_setsockopt:
  "stream_peer e h inq answer \<Longrightarrow> sys_setsockopt e k opt v m = (t, m') \<Longrightarrow> inq (world m') = inq (world m)"
  unfolding stream_peer_def by (auto simp: sys_setsockopt_def split: prod.splits) (metis snd_conv)+

text \<open>One \<open>recv\<close> brings the next bytes.\<close>

lemma peer_recv:
  assumes "stream_peer e (socket_fd s) inq answer" "socket_is_open s" "buf \<noteq> []" "inq (world m) \<noteq> []"
    and "socket_recv e s buf m = ((r, buf'), m')"
  shows "0 < r \<and> inq (world m) = take (nat r) buf' @ inq (world m')"
proof -
  obtain q d w where k: "k_recv e (socket_fd s) (length buf) (world m) = ((q, d), w)" by (metis prod.collapse)
  have d: "0 < q" "inq (world m) = d @ inq w" using stream_peer_recv [OF assms(1) k] assms(3,4) by auto
  have "q = int (length d) \<and> length d \<le> length buf"
    using recv_boundedD [OF stream_peer_bounded [OF assms(1)] k] d(1) by simp
  then show ?thesis using assms(2,3,5) k d by (auto simp: socket_recv_def sys_recv_def take_overlay)
qed

text \<open>A \<open>send_all\<close> of a non-empty span is one \<open>send\<close>.\<close>

lemma peer_send_all_eq:
  assumes "stream_peer e (socket_fd s) inq answer" "socket_is_open s" "d \<noteq> []"
  shows "socket_send_all e s d m =
    (True, emit (EvSend (socket_fd s) d (int (length d))) (snd (k_send e (socket_fd s) d (world m))) m)"
proof -
  obtain q w where k: "k_send e (socket_fd s) d (world m) = (q, w)" by (metis prod.collapse)
  have q: "q = int (length d)" using stream_peer_send [OF assms(1) k] by simp
  have stop: "socket_send_all_loop e s d (length d) m1 = (True, m1)" for m1 :: "'a machine"
    by (simp add: socket_send_all_loop.simps)
  then show ?thesis
    using k q assms(2,3)
    by (simp add: socket_send_all_def socket_send_all_loop.simps [of e s d 0 m] socket_send_def sys_send_def)
qed

lemma peer_send_all:
  assumes "stream_peer e (socket_fd s) inq answer" "socket_is_open s" "d \<noteq> []"
  obtains m' where "socket_send_all e s d m = (True, m')" "inq (world m') = inq (world m) @ answer (world m) d"
    "accepted (socket_fd s) m' = accepted (socket_fd s) m @ d"
proof -
  have "inq (snd (k_send e (socket_fd s) d (world m))) = inq (world m) @ answer (world m) d"
    using stream_peer_send [OF assms(1)] by (metis prod.collapse)
  then show ?thesis by (intro that [OF peer_send_all_eq [OF assms]]) simp_all
qed

section \<open>Spans\<close>

text \<open>\<open>recv_all\<close> of a socket.\<close>

definition link_live :: "('w \<Rightarrow> u8 list) \<Rightarrow> ('w \<Rightarrow> u8 list \<Rightarrow> u8 list) \<Rightarrow> 'w link \<Rightarrow> bool" where
  "link_live inq answer = (\<lambda>(e, s, m). stream_peer e (socket_fd s) inq answer \<and> socket_is_open s)"

definition link_pending :: "('w \<Rightarrow> u8 list) \<Rightarrow> 'w link \<Rightarrow> u8 list" where
  "link_pending inq = (\<lambda>(e, s, m). inq (world m))"

interpretation socket_live: live_fill_loop link_read link_log link_ok "\<lambda>_. True" link_fill
  "link_live inq answer" "link_pending inq" for inq answer
proof
  fix c c' :: "'a link" and buf buf' n
  obtain e s m where c: "c = (e, s, m)" by (cases c)
  assume live: "link_live inq answer c"
  then show "link_ok c" by (auto simp: c link_live_def link_ok_def stream_peer_bounded)
  assume buf: "buf \<noteq> []" "length buf \<le> length (link_pending inq c)" and rd: "link_read c buf = ((n, buf'), c')"
  then obtain r m' where r: "socket_recv e s buf m = ((r, buf'), m')" "n = nat r" "c' = (e, s, m')"
    by (auto simp: link_read_def c split: prod.splits)
  have "inq (world m) \<noteq> []" using buf by (auto simp: c link_pending_def)
  with peer_recv [where inq = inq, OF _ _ buf(1) this r(1)] live r(2,3)
  show "link_live inq answer c' \<and> 0 < n \<and> link_pending inq c = take n buf' @ link_pending inq c'"
    by (auto simp: c link_live_def link_pending_def)
qed

lemma recv_all_delivers:
  assumes "stream_peer e (socket_fd s) inq answer" "socket_is_open s" "length buf \<le> length (inq (world m))"
  obtains m' where "socket_recv_all e s buf m = ((True, take (length buf) (inq (world m))), m')"
    "inq (world m') = drop (length buf) (inq (world m))"
proof -
  obtain ok buf' m' where r: "socket_recv_all e s buf m = ((ok, buf'), m')" by (metis prod.collapse)
  then have "link_fill (e, s, m) buf 0 = ((ok, buf'), (e, s, m'))"
    by (simp add: link_fill_def socket_recv_all_def)
  from socket_live.fill_live_from_start [OF _ _ _ this, of inq answer] assms r that show ?thesis
    by (simp add: link_live_def link_pending_def)
qed

text \<open>\<open>read_exact\<close> of a port, whose pending bytes begin in its cache.\<close>

definition port_live :: "('w \<Rightarrow> u8 list) \<Rightarrow> ('w \<Rightarrow> u8 list \<Rightarrow> u8 list) \<Rightarrow> 'w serial_link \<Rightarrow> bool" where
  "port_live inq answer = (\<lambda>(e, p, m). stream_peer e (serial_fd p) inq answer \<and> cache_sound p m)"

definition port_pending :: "('w \<Rightarrow> u8 list) \<Rightarrow> 'w serial_link \<Rightarrow> u8 list" where
  "port_pending inq = (\<lambda>(e, p, m). serial_cache p @ inq (world m))"

lemma serial_read_delivers:
  assumes "stream_peer e (serial_fd p) inq answer" "serial_is_open p" "buf \<noteq> []"
    and "length buf \<le> length (serial_cache p @ inq (world m))" "serial_read e p buf m = (((n, buf'), p'), m')"
  shows "0 < n \<and> serial_cache p @ inq (world m) = take n buf' @ serial_cache p' @ inq (world m')"
proof -
  obtain im s where p: "p = SerialPort (Some im)" "ser_sock im = Some s" "socket_is_open s"
    "serial_parts p = Some (im, s)" using assms(2) by (rule serial_open_cases)
  let ?k = "min (length (im_cache im)) (length buf)"
  let ?im = "im\<lparr>rx_head := rx_head im + ?k\<rparr>"
  let ?b = "overlay (take ?k (im_cache im)) buf"
  have cache': "im_cache ?im = drop ?k (im_cache im)" by (simp add: im_cache_def add.commute)
  have ov: "length ?b = length buf" "take ?k ?b = take ?k (im_cache im)" "drop ?k ?b = drop ?k buf"
    by (simp_all add: overlay_def)
  show ?thesis
  proof (cases "im_cache im \<noteq> [] \<and> ?k = length buf")
    case True
    then have "n = ?k \<and> buf' = ?b \<and> p' = SerialPort (Some ?im) \<and> m' = m"
      using assms(3,5) p by (auto simp: serial_read_def Let_def im_cache_def split: if_splits)
    then show ?thesis using p ov(2) cache' True assms(3) by simp
  next
    case False
    then have whole: "?k = length (im_cache im)" "length (im_cache im) < length buf"
      using assms(3) by (auto simp: min_def split: if_splits)
    obtain q chunk m1 where k: "socket_recv e s (drop ?k buf) m = ((q, chunk), m1)" by (metis prod.collapse)
    have r: "n = ?k + nat q \<and> buf' = write_tail ?k chunk ?b \<and> p' = SerialPort (Some ?im) \<and> m' = m1"
      using assms(3,5) p False k ov(3) by (auto simp: serial_read_def Let_def im_cache_def split: if_splits)
    have "buf' = im_cache im @ chunk" using r ov(2) whole by (simp add: write_tail_def)
    moreover have "0 < q \<and> inq (world m) = take (nat q) chunk @ inq (world m1)"
      by (rule peer_recv [OF _ p(3) _ _ k, of inq answer])
        (use whole assms(1,4) p in \<open>auto simp: serial_fd_def serial_underlying_socket_def\<close>)
    ultimately show ?thesis using r p whole cache' by simp
  qed
qed

interpretation serial_live: live_fill_loop serial_link_read serial_link_log serial_link_ok "\<lambda>_. True"
  serial_link_fill "port_live inq answer" "port_pending inq" for inq answer
proof
  fix c c' :: "'a serial_link" and buf buf' n
  obtain e p m where c: "c = (e, p, m)" by (cases c)
  assume live: "port_live inq answer c"
  then show "serial_link_ok c" by (auto simp: c port_live_def serial_link_ok_def stream_peer_bounded)
  assume buf: "buf \<noteq> []" "length buf \<le> length (port_pending inq c)" and rd: "serial_link_read c buf = ((n, buf'), c')"
  then obtain p' m' where r: "serial_read e p buf m = (((n, buf'), p'), m')" "c' = (e, p', m')"
    by (auto simp: serial_link_read_def c split: prod.splits)
  have pre: "stream_peer e (serial_fd p) inq answer" "cache_sound p m" "serial_is_open p"
    using live by (simp_all add: c port_live_def cache_sound_def)
  have "cache_sound p' m' \<and> serial_fd p' = serial_fd p"
    using serial_read_effect [OF stream_peer_bounded [OF pre(1)] pre(2) r(1)] by (simp add: serial_fd_def)
  with serial_read_delivers [OF pre(1,3) buf(1) _ r(1)] buf(2) pre r(2)
  show "port_live inq answer c' \<and> 0 < n \<and> port_pending inq c = take n buf' @ port_pending inq c'"
    by (simp add: c port_live_def port_pending_def)
qed

lemma read_exact_delivers:
  assumes "stream_peer e (serial_fd p) inq answer" "cache_sound p m"
    and "length buf \<le> length (serial_cache p @ inq (world m))"
  obtains p' m' where "serial_read_exact e p buf m = (((True, take (length buf) (serial_cache p @ inq (world m))), p'), m')"
    "serial_cache p' @ inq (world m') = drop (length buf) (serial_cache p @ inq (world m))" "cache_sound p' m'"
proof -
  obtain ok buf' p' m' where r: "serial_read_exact e p buf m = (((ok, buf'), p'), m')" by (metis prod.collapse)
  then have "serial_link_fill (e, p, m) buf 0 = ((ok, buf'), (e, p', m'))"
    by (simp add: serial_link_fill_def serial_read_exact_def)
  from serial_live.fill_live_from_start [OF _ _ _ this, of inq answer] assms r that show ?thesis
    by (simp add: port_live_def port_pending_def)
qed

section \<open>Lines\<close>

text \<open>
  A pace: no reading of the clock, and no \<open>recv\<close> while something is pending, takes more than \<open>c\<close> nanoseconds.
\<close>

definition paced :: "'w env \<Rightarrow> handle \<Rightarrow> ('w \<Rightarrow> u8 list) \<Rightarrow> ('w \<Rightarrow> int) \<Rightarrow> int \<Rightarrow> bool" where
  "paced e h inq clk c \<longleftrightarrow> 0 \<le> c
     \<and> (\<forall>w. fst (k_now e w) = clk w \<and> clk (snd (k_now e w)) \<le> clk w + c)
     \<and> (\<forall>n w. inq w \<noteq> [] \<longrightarrow> clk (snd (k_recv e h n w)) \<le> clk w + c)"

lemma paced_now: "paced e h inq clk c \<Longrightarrow> k_now e w = (t, w') \<Longrightarrow> t = clk w \<and> clk w' \<le> clk w + c"
  unfolding paced_def by (metis fst_conv snd_conv)

lemma paced_recv: "paced e h inq clk c \<Longrightarrow> k_recv e h n w = (r, w') \<Longrightarrow> inq w \<noteq> [] \<Longrightarrow> clk w' \<le> clk w + c"
  unfolding paced_def by (metis snd_conv)

lemma refill_delivers:
  assumes "stream_peer e (socket_fd s) inq answer" "paced e (socket_fd s) inq clk c" "ser_sock im = Some s"
    and "socket_is_open s" "rx_head im \<le> length (rx_buf im)" "im_cache im = []" "inq (world m) \<noteq> []"
  obtains im' m' where "refill_rx_cache e im m = ((True, im'), m')" "ser_sock im' = Some s"
    "rx_head im' \<le> length (rx_buf im')" "im_cache im' \<noteq> []" "inq (world m) = im_cache im' @ inq (world m')"
    "clk (world m') \<le> clk (world m) + c"
proof -
  obtain ok im' m' where r: "refill_rx_cache e im m = ((ok, im'), m')" by (metis prod.collapse)
  obtain q chunk m1 where k: "socket_recv e s chunk_4096 m = ((q, chunk), m1)" by (metis prod.collapse)
  have q: "0 < q" "inq (world m) = take (nat q) chunk @ inq (world m1)"
    using peer_recv [OF assms(1,4) _ assms(7) k] by (simp_all add: chunk_4096_def)
  have eq: "ok" "m' = m1" "im_cache im' = take (nat q) chunk"
    using r k q assms(3-6) by (auto simp: refill_rx_cache_def clear_rx_cache_def im_cache_def Let_def split: if_splits)
  have cl: "clk (world m1) \<le> clk (world m) + c"
    using k assms(4) paced_recv [OF assms(2) _ assms(7)]
    by (auto simp: socket_recv_def sys_recv_def chunk_4096_def split: if_splits prod.splits)
  note eff = refill_effect [OF stream_peer_bounded [OF assms(1)] assms(3-5) r]
  then have "im_cache im' \<noteq> []" using assms(6) eq(1) by auto
  with that [of im' m'] r eff q(2) eq cl show ?thesis by simp
qed

text \<open>Cutting a stream at the first delimiter.\<close>

lemma first_delimiter_unique:
  "d \<notin> set (line_text xs) \<Longrightarrow> d \<notin> set (line_text ys) \<Longrightarrow> char_of_byte a = d \<Longrightarrow> char_of_byte b = d \<Longrightarrow>
    xs @ a # u = ys @ b # v \<Longrightarrow> xs = ys \<and> u = v"
proof (induction xs arbitrary: ys)
  case Nil
  then show ?case by (cases ys) auto
next
  case (Cons x xs)
  then show ?case by (cases ys) auto
qed

lemma stream_split:
  "pre @ later = body @ b # rest \<Longrightarrow> d \<notin> set (line_text pre) \<Longrightarrow> char_of_byte b = d \<Longrightarrow>
    \<exists>post. body = pre @ post \<and> later = post @ b # rest"
proof (induction pre arbitrary: body)
  case (Cons x pre)
  then show ?case by (cases body) auto
qed simp

lemma pace_step:
  fixes x x1 x2 c t lim :: int
  assumes "t \<le> 0 \<or> x + 2 * c * int (Suc n) < lim" "x1 \<le> x + c" "x2 \<le> x1 + c" "0 \<le> c" "0 < k"
  shows "t \<le> 0 \<or> x2 + 2 * c * int (Suc n - k) < lim"
proof -
  have "2 * c * int (Suc n - k) \<le> 2 * c * int n" using assms(4,5) by (intro mult_left_mono) auto
  moreover have "2 * c * int (Suc n) = 2 * c * int n + 2 * c" by (simp add: algebra_simps)
  ultimately show ?thesis using assms(1-3) by linarith
qed

text \<open>
  The loop, on a line whose rest is in the cache and pending. Each turn that does not find the delimiter takes a
  pending byte of the line at least, so the time is bounded by the pending part of the line.
\<close>

lemma read_line_loop_delivers:
  assumes "stream_peer e (socket_fd s) inq answer" "paced e (socket_fd s) inq clk c"
    and "socket_is_open s" "char_of_byte b = d"
  shows "ser_sock im = Some s \<Longrightarrow> rx_head im \<le> length (rx_buf im) \<Longrightarrow>
    im_cache im @ inq (world m) = body @ b # rest \<Longrightarrow> d \<notin> set (line_text body) \<Longrightarrow>
    t \<le> 0 \<or> clk (world m) + 2 * c * int (Suc (length body) - length (im_cache im)) < start + t * 1000000 \<Longrightarrow>
    \<exists>im' m'. read_line_loop e d t start im line m = Some ((strip_cr (line @ line_text body), im'), m')
      \<and> ser_sock im' = Some s \<and> rx_head im' \<le> length (rx_buf im') \<and> im_cache im' @ inq (world m') = rest"
proof (induction "length (inq (world m))" arbitrary: im line m body rule: less_induct)
  case less
  have c: "0 \<le> c" using assms(2) by (simp add: paced_def)
  obtain found l1 im1 where sc: "scan_line d im line = ((found, l1), im1)" by (metis prod.collapse)
  obtain pre where pre: "rx_head im1 \<le> length (rx_buf im1)" "ser_sock im1 = Some s" "d \<notin> set (line_text pre)"
    "if found then \<exists>b. im_cache im = pre @ b # im_cache im1 \<and> char_of_byte b = d \<and>
         l1 = strip_cr (line @ line_text pre)
     else im_cache im = pre \<and> im_cache im1 = [] \<and> l1 = line @ line_text pre"
    using scan_line_spec [OF less.prems(2) sc] less.prems(1) by auto
  show ?case
  proof (cases found)
    case True
    then obtain x where x: "im_cache im = pre @ x # im_cache im1" "char_of_byte x = d" "l1 = strip_cr (line @ line_text pre)"
      using pre(4) by auto
    have "pre = body \<and> im_cache im1 @ inq (world m) = rest"
      by (rule first_delimiter_unique [OF pre(3) less.prems(4) x(2) assms(4)]) (use x(1) less.prems(3) in simp)
    moreover have "read_line_loop e d t start im line m = Some ((l1, im1), m)"
      by (subst read_line_loop.simps) (use sc True in simp)
    ultimately show ?thesis using pre(1,2) x(3) by auto
  next
    case False
    then have nf: "im_cache im = pre" "im_cache im1 = []" "l1 = line @ line_text pre" using pre(4) by simp_all
    obtain post where post: "body = pre @ post" "inq (world m) = post @ b # rest"
      using stream_split [OF less.prems(3) [unfolded nf(1)] _ assms(4)] pre(3) by blast
    obtain ex m1 where ex: "(if 0 < t then let (now, m) = sys_now e m in (timed_out start now t, m)
        else (False, m)) = (ex, m1)" by (metis prod.collapse)
    have bound: "t \<le> 0 \<or> clk (world m) + 2 * c * int (Suc (length post)) < start + t * 1000000"
      using less.prems(5) post(1) nf(1) by simp
    have "0 \<le> 2 * c * int (Suc (length post))" using c by simp
    with bound have "t \<le> 0 \<or> clk (world m) < start + t * 1000000" by linarith
    then have m1: "\<not> ex" "inq (world m1) = inq (world m)" "clk (world m1) \<le> clk (world m) + c"
      using ex c peer_now [OF assms(1), of m] paced_now [OF assms(2), of "world m"]
      by (auto simp: sys_now_def timed_out_def split: if_splits prod.splits)
    have more: "inq (world m1) \<noteq> []" using m1(2) post(2) by simp
    obtain im2 m2 where rf: "refill_rx_cache e im1 m1 = ((True, im2), m2)" "ser_sock im2 = Some s"
      "rx_head im2 \<le> length (rx_buf im2)" "im_cache im2 \<noteq> []" "inq (world m1) = im_cache im2 @ inq (world m2)"
      "clk (world m2) \<le> clk (world m1) + c"
      by (rule refill_delivers [OF assms(1,2) pre(2) assms(3) pre(1) nf(2) more])
    have step: "read_line_loop e d t start im line m = read_line_loop e d t start im2 l1 m2"
      by (subst read_line_loop.simps) (use sc False ex m1(1) rf(1) in simp)
    have shorter: "length (inq (world m2)) < length (inq (world m))"
      using arg_cong [OF rf(5), of length] rf(4) m1(2) by simp
    have "im_cache im2 @ inq (world m2) = post @ b # rest" using rf(5) m1(2) post(2) by simp
    moreover have "d \<notin> set (line_text post)" using less.prems(4) post(1) by simp
    moreover have "t \<le> 0 \<or> clk (world m2) + 2 * c * int (Suc (length post) - length (im_cache im2)) < start + t * 1000000"
      using pace_step [OF bound m1(3) rf(6) c] rf(4) by simp
    ultimately obtain im' m' where
      "read_line_loop e d t start im2 l1 m2 = Some ((strip_cr (l1 @ line_text post), im'), m')"
      "ser_sock im' = Some s" "rx_head im' \<le> length (rx_buf im')" "im_cache im' @ inq (world m') = rest"
      using less.hyps [OF shorter rf(2,3), of post l1] by blast
    then show ?thesis using step nf(3) post(1) by simp
  qed
qed

lemma serial_read_line_arrives:
  assumes "stream_peer e (serial_fd p) inq answer" "paced e (serial_fd p) inq clk c"
    and "serial_is_open p" "head_in_bounds p"
    and "serial_cache p @ inq (world m) = body @ b # rest" "char_of_byte b = d" "d \<notin> set (line_text body)"
    and "t \<le> 0 \<or> c * (2 * int (length body) + 3) < t * 1000000"
  shows "\<exists>p' m'. serial_read_line e p d t m = Some ((strip_cr (line_text body), p'), m')
    \<and> serial_cache p' @ inq (world m') = rest \<and> serial_is_open p' \<and> head_in_bounds p'
    \<and> serial_fd p' = serial_fd p"
proof -
  obtain im s start m1 where p: "p = SerialPort (Some im)" "ser_sock im = Some s" "socket_is_open s"
    "sys_now e m = (start, m1)" "arrived (socket_fd s) m1 = arrived (socket_fd s) m" "serial_read_line e p d t m =
       map_option (\<lambda>((line, im), m). ((line, SerialPort (Some im)), m)) (read_line_loop e d t start im [] m1)"
    by (rule serial_read_line_parts [OF assms(3), of e m d t])
  have fd: "serial_fd p = socket_fd s" using p(1,2) by simp
  note peer = assms(1) [unfolded fd] and pace = assms(2) [unfolded fd]
  have c: "0 \<le> c" using pace by (simp add: paced_def)
  have start: "start = clk (world m)" "clk (world m1) \<le> clk (world m) + c"
    using p(4) paced_now [OF pace, of "world m"] by (auto simp: sys_now_def split: prod.splits)
  have "2 * c * int (Suc (length body) - length (im_cache im)) \<le> 2 * c * int (Suc (length body))"
    using c by (intro mult_left_mono) auto
  moreover have "c * (2 * int (length body) + 3) = c + 2 * c * int (Suc (length body))" by (simp add: algebra_simps)
  ultimately have "t \<le> 0 \<or> clk (world m1) + 2 * c * int (Suc (length body) - length (im_cache im)) < start + t * 1000000"
    using assms(8) start by linarith
  moreover have "im_cache im @ inq (world m1) = body @ b # rest"
    using assms(5) p(1) peer_now [OF peer p(4)] by simp
  ultimately obtain im' m' where r:
    "read_line_loop e d t start im [] m1 = Some ((strip_cr ([] @ line_text body), im'), m')"
    "ser_sock im' = Some s" "rx_head im' \<le> length (rx_buf im')" "im_cache im' @ inq (world m') = rest"
    using read_line_loop_delivers [OF peer pace p(3) assms(6) p(2), of m1 body rest t start "[]"] assms(4,7) p(1)
    by auto
  then have "serial_read_line e p d t m = Some ((strip_cr (line_text body), SerialPort (Some im')), m')"
    using p(6) by simp
  with r p(1-3) show ?thesis by auto
qed

lemma strip_cr_line: "cr \<or> line = [] \<or> last line \<noteq> CHR 0x0D \<Longrightarrow> strip_cr (line @ (if cr then [CHR 0x0D] else [])) = line"
  by (auto simp: strip_cr_def CR_def)

text \<open>
  C2. \<open>read_line\<close> over a connection that works. When the next line is in the cache or on its way, \<open>read_line\<close>
  returns exactly the text before the delimiter, less one carriage return at its end, and takes exactly the line
  from the stream, in however many pieces the kernel delivers it; the timeout cannot cut the line if it is longer
  than the pace of the connection allows for the bytes of the line.
\<close>

theorem serial_read_line_delivers:
  assumes "stream_peer e (serial_fd p) inq answer" "paced e (serial_fd p) inq clk c"
    and "serial_is_open p" "head_in_bounds p"
    and "serial_cache p @ inq (world m) = body @ b # rest" "char_of_byte b = d" "d \<notin> set (map char_of_byte body)"
    and "map char_of_byte body = line @ (if cr then [CHR 0x0D] else [])" "cr \<or> line = [] \<or> last line \<noteq> CHR 0x0D"
    and "t \<le> 0 \<or> c * (2 * int (length body) + 3) < t * 1000000"
  shows "\<exists>p' m'. serial_read_line e p d t m = Some ((line, p'), m') \<and> serial_cache p' @ inq (world m') = rest"
  using serial_read_line_arrives [OF assms(1-6) assms(7) [folded line_text_def] assms(10)]
    strip_cr_line [OF assms(9)] assms(8) unfolding line_text_def by metis

section \<open>Such a connection\<close>

text \<open>The sample kernel with a peer: small pieces, whole sends, an answer to each.\<close>

definition peer_env :: "(sim \<Rightarrow> u8 list \<Rightarrow> u8 list) \<Rightarrow> sim env" where
  "peer_env answer = sim_env\<lparr>
     k_send := (\<lambda>h d w. (int (length d), w\<lparr>sim_in := sim_in w @ answer w d\<rparr>)),
     k_recv := (\<lambda>h n w. let k = min n (Suc (sim_chunk w)); d = take k (sim_in w)
                        in ((int (length d), d), w\<lparr>sim_in := drop k (sim_in w)\<rparr>))\<rparr>"

lemma peer_env_peer: "stream_peer (peer_env answer) h sim_in answer"
  by (auto simp: stream_peer_def recv_bounded_def peer_env_def sim_env_def Let_def)

lemma peer_env_paced: "paced (peer_env answer) h sim_in sim_clock 1000000"
  by (simp add: paced_def peer_env_def sim_env_def Let_def)

theorem serial_read_line_delivers_witness:
  "\<exists>p' m'. serial_read_line (peer_env (\<lambda>w d. d)) sample_port (CHR 0x43) 5000 (sample_machine [13, 67, 10, 68])
       = Some (([CHR 0x42, CHR 0x0A], p'), m')
     \<and> serial_cache p' @ sim_in (world m') = [10, 68]"
proof -
  have p: "serial_is_open sample_port" "head_in_bounds sample_port" by code_simp+
  have q: "serial_cache sample_port @ sim_in (world (sample_machine [13, 67, 10, 68])) = [66, 10, 13] @ 67 # [10, 68]"
    "char_of_byte 67 = CHR 0x43" "CHR 0x43 \<notin> set (map char_of_byte [66, 10, 13])"
    "map char_of_byte [66, 10, 13] = [CHR 0x42, CHR 0x0A] @ (if True then [CHR 0x0D] else [])"
    by code_simp+
  from serial_read_line_delivers [OF peer_env_peer peer_env_paced p q, of 5000 "\<lambda>w d. d"] show ?thesis by simp
qed

end
