(* ===== verification/Serial_Demo_Total.thy ===== *)
theory Serial_Demo_Total
  imports Serial_Demo_Facts Delivery
begin

text \<open>
  The demo server on input that has arrived: every line that a peer's \<open>write_line\<close> has put on the wire comes
  out of \<open>read_line\<close> as it was, and the loop ends at \<open>AT+QUIT\<close> with every line answered.
\<close>

section \<open>A line on the wire\<close>

text \<open>The bytes that \<open>write_line(line, "\r\n")\<close> sends.\<close>

definition wire :: "string \<Rightarrow> u8 list" where
  "wire line = map byte_of_char (line @ CRLF)"

lemma line_text_bytes [simp]: "line_text (map byte_of_char cs) = cs"
  by (simp add: line_text_def comp_def)

lemma strip_cr_snoc [simp]: "strip_cr (line @ [CHR 0x0D]) = line"
  by (simp add: strip_cr_def CR_def)

lemma scan_line_wire:
  assumes "rx_head im \<le> length (rx_buf im)" "im_cache im = wire line @ rest" "LF \<notin> set line"
  obtains im' where "scan_line LF im [] = ((True, line), im')" "im_cache im' = rest"
    "rx_head im' \<le> length (rx_buf im')" "ser_sock im' = ser_sock im"
proof -
  obtain found line' im' where s: "scan_line LF im [] = ((found, line'), im')" by (metis prod.collapse)
  let ?raw = "map byte_of_char (line @ [CHR 0x0D])"
  have c: "im_cache im = ?raw @ byte_of_char LF # rest" using assms(2) by (simp add: wire_def CRLF_def LF_def)
  have raw: "LF \<notin> set (line_text ?raw)"
    using assms(3) by (simp only: line_text_bytes) (simp add: LF_def)
  obtain body where b: "rx_head im' \<le> length (rx_buf im')" "ser_sock im' = ser_sock im" "LF \<notin> set (line_text body)"
    "if found then \<exists>b. im_cache im = body @ b # im_cache im' \<and> char_of_byte b = LF \<and> line' = strip_cr (line_text body)
     else im_cache im = body"
    using scan_line_spec [OF assms(1) s] by (auto split: if_splits)
  have f: found
  proof (rule ccontr)
    assume "\<not> found"
    then have "line_text body = line_text (?raw @ byte_of_char LF # rest)" using b(4) c by simp
    then have "LF \<in> set (line_text body)" by (simp only: line_text_simps) simp
    with b(3) show False ..
  qed
  then obtain x where x: "im_cache im = body @ x # im_cache im'" "char_of_byte x = LF" "line' = strip_cr (line_text body)"
    using b(4) by auto
  have "body = ?raw \<and> im_cache im' = rest"
    by (rule first_delimiter_unique [OF b(3) raw x(2) char_of_byte_of_char]) (use x(1) c in simp)
  moreover from this have "line' = line"
    using x(3) by (simp only: line_text_bytes strip_cr_snoc)
  ultimately show ?thesis using that [of im'] s f b(1,2) by simp
qed

lemma read_line_wire:
  assumes "port_ready p m" "serial_cache p = wire line @ rest" "LF \<notin> set line"
  obtains p' m' where "serial_read_line e p LF t m = Some ((line, p'), m')" "serial_cache p' = rest"
proof -
  have op: "serial_is_open p" by (rule port_ready_open [OF assms(1)])
  obtain im s start m1 where p: "p = SerialPort (Some im)" "ser_sock im = Some s" "socket_is_open s"
    "sys_now e m = (start, m1)" "arrived (socket_fd s) m1 = arrived (socket_fd s) m" "serial_read_line e p LF t m =
       map_option (\<lambda>((line, im), m). ((line, SerialPort (Some im)), m)) (read_line_loop e LF t start im [] m1)"
    by (rule serial_read_line_parts [OF op, of e m LF t])
  have "rx_head im \<le> length (rx_buf im)" using assms(1) p(1) by (simp add: port_ready_def cache_sound_def)
  moreover have "im_cache im = wire line @ rest" using assms(2) p(1) by simp
  ultimately obtain im' where s: "scan_line LF im [] = ((True, line), im')" "im_cache im' = rest"
    using scan_line_wire [of im line rest] assms(3) by blast
  have "read_line_loop e LF t start im [] m1 = Some ((line, im'), m1)"
    by (subst read_line_loop.simps) (use s(1) in simp)
  then show ?thesis using that p(6) s(2) by simp
qed

section \<open>One command after another\<close>

text \<open>The commands of a session: no line of theirs is empty, holds the delimiter, purges or quits.\<close>

definition plain_command :: "string \<Rightarrow> bool" where
  "plain_command cmd \<longleftrightarrow> cmd \<noteq> [] \<and> LF \<notin> set cmd \<and> cmd \<noteq> ''AT+PURGE'' \<and> cmd \<noteq> ''AT+QUIT''"

lemma demo_command_keeps_cache:
  assumes "cmd \<noteq> ''AT+PURGE''"
  obtains again m' where "demo_command e cmd p m = Some ((again, p), m')"
  using assms that by (fastforce simp: demo_command_def split: prod.splits)

text \<open>The turn of the loop at a line that is in the cache.\<close>

lemma demo_serve_turn:
  assumes "recv_bounded e" "sends_all e" "port_ready p m" "serial_cache p = wire cmd @ rest"
    and "cmd \<noteq> []" "LF \<notin> set cmd" "cmd \<noteq> ''AT+PURGE''"
  obtains p' m' where "port_ready p' m'" "serial_fd p' = serial_fd p" "serial_cache p' = rest"
    "accepted (serial_fd p) m' = accepted (serial_fd p) m @ reply_bytes cmd"
    "demo_serve e p m = (if cmd = ''AT+QUIT'' then Some (p', m') else demo_serve e p' m')"
proof -
  have op: "serial_is_open p" by (rule port_ready_open [OF assms(3)])
  obtain p1 m1 where rd: "serial_read_line e p LF 5000 m = Some ((cmd, p1), m1)" "serial_cache p1 = rest"
    by (rule read_line_wire [OF assms(3,4,6)])
  have "cache_sound p m" using assms(3) by (simp add: port_ready_def)
  then have snd: "cache_sound p1 m1" using serial_read_line_effect [OF assms(1) _ rd(1)] by blast
  have io: "port_io p m p1 m1" using rd(1) by (rule Serial_Frame.port_read_line)
  have st: "port_ready p1 m1" using port_io_owned [OF io] assms(3) snd by (simp add: port_ready_def)
  have fd: "serial_fd p1 = serial_fd p" using io by (simp add: port_io_def serial_fd_def)
  have acc: "accepted (serial_fd p) m1 = accepted (serial_fd p) m"
    using quiet_read_line [OF rd(1)] by (simp add: quiet_def)
  obtain again m2 where c: "demo_command e cmd p1 m1 = Some ((again, p1), m2)"
    by (rule demo_command_keeps_cache [OF assms(7)])
  note eff = demo_command_effect [OF assms(1,2) st assms(5) c]
  have "demo_serve e p m = (if cmd = ''AT+QUIT'' then Some (p1, m2) else demo_serve e p1 m2)"
    by (subst demo_serve.simps) (use op rd(1) c assms(5) eff in simp)
  with eff rd(2) fd acc show ?thesis by (intro that [of p1 m2]) simp_all
qed

lemma demo_serve_commands:
  assumes "recv_bounded e" "sends_all e" "list_all plain_command cmds"
  shows "port_ready p m \<Longrightarrow> serial_cache p = concat (map wire (cmds @ [''AT+QUIT''])) @ rest \<Longrightarrow>
    \<exists>p' m'. demo_serve e p m = Some (p', m') \<and> port_ready p' m' \<and> serial_cache p' = rest
      \<and> serial_fd p' = serial_fd p
      \<and> accepted (serial_fd p) m' = accepted (serial_fd p) m @ concat (map reply_bytes (cmds @ [''AT+QUIT'']))"
  using assms(3)
proof (induction cmds arbitrary: p m)
  case Nil
  obtain p' m' where t: "port_ready p' m'" "serial_fd p' = serial_fd p" "serial_cache p' = rest"
    "accepted (serial_fd p) m' = accepted (serial_fd p) m @ reply_bytes ''AT+QUIT''"
    "demo_serve e p m = (if ''AT+QUIT'' = ''AT+QUIT'' then Some (p', m') else demo_serve e p' m')"
    by (rule demo_serve_turn [OF assms(1,2) Nil(1), of "''AT+QUIT''" rest]) (use Nil(2) in \<open>simp_all add: LF_def\<close>)
  then show ?case by simp
next
  case (Cons cmd cmds)
  have pl: "cmd \<noteq> []" "LF \<notin> set cmd" "cmd \<noteq> ''AT+PURGE''" "cmd \<noteq> ''AT+QUIT''" "list_all plain_command cmds"
    using Cons.prems(3) unfolding list.pred_inject(2) plain_command_def [of cmd] by blast+
  have line: "serial_cache p = wire cmd @ (concat (map wire (cmds @ [''AT+QUIT''])) @ rest)"
    using Cons.prems(2) by simp
  obtain p1 m1 where t: "port_ready p1 m1" "serial_fd p1 = serial_fd p"
    "serial_cache p1 = concat (map wire (cmds @ [''AT+QUIT''])) @ rest"
    "accepted (serial_fd p) m1 = accepted (serial_fd p) m @ reply_bytes cmd"
    "demo_serve e p m = (if cmd = ''AT+QUIT'' then Some (p1, m1) else demo_serve e p1 m1)"
    by (rule demo_serve_turn [OF assms(1,2) Cons.prems(1) line pl(1-3)])
  from Cons.IH [OF t(1,3) pl(5)] t(2,4,5) pl(4) show ?case by auto
qed

section \<open>The whole session\<close>

text \<open>
  The demo server answers every command and ends. Whatever the clock does, when the lines of a session, as
  \<open>write_line\<close> puts them on the wire, have arrived and the last is \<open>AT+QUIT\<close>, over a kernel that takes what it
  is given to send the server returns, has sent exactly the reply to each command in order, has taken exactly the
  session from the stream and leaves what comes after it in the cache.
\<close>

theorem demo_serve_answers:
  assumes "recv_bounded e" "sends_all e" "serial_owned p m" "cache_sound p m"
    and "list_all plain_command cmds" "serial_cache p = concat (map wire (cmds @ [''AT+QUIT''])) @ rest"
  shows "\<exists>p' m'. demo_serve e p m = Some (p', m') \<and> serial_owned p' m' \<and> cache_sound p' m' \<and> serial_cache p' = rest
    \<and> accepted (serial_fd p) m' = accepted (serial_fd p) m @ concat (map reply_bytes (cmds @ [''AT+QUIT'']))"
proof -
  have "port_ready p m" using assms(3,4) by (simp add: port_ready_def)
  from demo_serve_commands [OF assms(1,2,5) this assms(6)] show ?thesis by (auto simp: port_ready_def)
qed

text \<open>The lines \<open>AT\<close> and \<open>AT+QUIT\<close>, with a byte after them.\<close>

definition session_input :: "u8 list" where
  "session_input = [65, 84, 13, 10, 65, 84, 43, 81, 85, 73, 84, 13, 10, 88]"

definition session_port :: serial_port where
  "session_port = SerialPort (Some (serial_impl_default\<lparr>ser_sock := Some sample_socket, rx_buf := session_input\<rparr>))"

definition session_machine :: "sim machine" where
  "session_machine = emit (EvRecv 3 4096 14 session_input) sim_start (emit (EvSocket 3) sim_start (boot sim_start))"

theorem demo_serve_answers_witness:
  "\<exists>p' m'. demo_serve demo_env session_port session_machine = Some (p', m') \<and> serial_cache p' = [88]
     \<and> accepted 3 m' = reply_bytes ''AT'' @ reply_bytes ''AT+QUIT''"
proof -
  have env: "recv_bounded demo_env" "sends_all demo_env"
    by (auto simp: recv_bounded_def sends_all_def demo_env_def sim_env_def Let_def)
  have p: "serial_is_open session_port" "head_in_bounds session_port" "serial_cache session_port = session_input"
    "serial_fd session_port = 3" "accepted 3 session_machine = []" "arrived 3 session_machine = session_input"
    "live_fds session_machine = {#3#}" "fds_respected session_machine" "serial_valid session_port"
    "serial_holds session_port = {#3#}"
    by code_simp+
  have sound: "cache_sound session_port session_machine" using p by (simp add: cache_sound_def)
  have own: "serial_owned session_port session_machine" using p by (simp add: serial_owned_def)
  have plain: "list_all plain_command [''AT'']" by (simp add: plain_command_def LF_def)
  have lines: "serial_cache session_port = concat (map wire ([''AT''] @ [''AT+QUIT''])) @ [88]"
    using p(3) by (simp add: session_input_def wire_def CRLF_def byte_of_char_def of_char_def)
  from demo_serve_answers [OF env own sound plain lines] p(4,5) show ?thesis by auto
qed

end
