(* ===== verification/Demo_Session.thy ===== *)
theory Demo_Session
  imports Serial_Demo_Total
begin

text \<open>
  The two modes of the serial demo over a connection that works: the server answers a whole session and ends,
  the client reads every line of every answer, and the bytes that one sends are those that the other expects.
\<close>

section \<open>A port with a peer\<close>

text \<open>What the session keeps: the connection, its pace, an open port and the bounds of its cache.\<close>

definition connected :: "'w env \<Rightarrow> ('w \<Rightarrow> u8 list) \<Rightarrow> ('w \<Rightarrow> u8 list \<Rightarrow> u8 list) \<Rightarrow> ('w \<Rightarrow> int) \<Rightarrow> int \<Rightarrow> serial_port \<Rightarrow> bool" where
  "connected e inq answer clk c p \<longleftrightarrow> stream_peer e (serial_fd p) inq answer \<and> paced e (serial_fd p) inq clk c
     \<and> serial_is_open p \<and> head_in_bounds p"

lemma write_line_eq:
  assumes "connected e inq answer clk c p" "line @ eol \<noteq> []"
  shows "serial_write_line e p line eol m = (let d = map byte_of_char (line @ eol) in
    (True, emit (EvSend (serial_fd p) d (int (length d))) (snd (k_send e (serial_fd p) d (world m))) m))"
proof -
  have "serial_is_open p" using assms(1) by (simp add: connected_def)
  then obtain im s where p: "p = SerialPort (Some im)" "ser_sock im = Some s" "socket_is_open s"
    "serial_parts p = Some (im, s)" by (rule serial_open_cases)
  then have fd: "serial_fd p = socket_fd s" by simp
  have peer: "stream_peer e (socket_fd s) inq answer" using assms(1) fd by (simp add: connected_def)
  have ne: "map byte_of_char (line @ eol) \<noteq> []" using assms(2) by simp
  show ?thesis using peer_send_all_eq [OF peer p(3) ne] p(4) fd by (simp add: serial_write_line_def Let_def)
qed

lemma write_line_peer:
  assumes "connected e inq answer clk c p" "line @ eol \<noteq> []"
  obtains m' where "serial_write_line e p line eol m = (True, m')"
    "inq (world m') = inq (world m) @ answer (world m) (map byte_of_char (line @ eol))"
    "accepted (serial_fd p) m' = accepted (serial_fd p) m @ map byte_of_char (line @ eol)"
proof -
  have "stream_peer e (serial_fd p) inq answer" using assms(1) by (simp add: connected_def)
  from stream_peer_send [OF this] have "inq (snd (k_send e (serial_fd p) d w)) = inq w @ answer w d" for d w
    by (metis prod.collapse)
  moreover have "bytes_out h (EvSend h d (int (length d))) = d" for h d by simp
  ultimately show ?thesis by (intro that [OF write_line_eq [OF assms, unfolded Let_def]]) (simp_all only: accepted_emit world_emit)
qed

lemma read_wire_peer:
  assumes "connected e inq answer clk c p" "serial_cache p @ inq (world m) = wire line @ rest" "LF \<notin> set line"
    and "c * (2 * int (length line) + 5) < t * 1000000"
  obtains p' m' where "serial_read_line e p LF t m = Some ((line, p'), m')"
    "serial_cache p' @ inq (world m') = rest" "connected e inq answer clk c p'" "serial_fd p' = serial_fd p"
    "accepted (serial_fd p) m' = accepted (serial_fd p) m"
proof -
  let ?body = "map byte_of_char (line @ [CHR 0x0D])"
  have split: "serial_cache p @ inq (world m) = ?body @ byte_of_char LF # rest"
    using assms(2) by (simp add: wire_def CRLF_def LF_def)
  have nolf: "LF \<notin> set (line_text ?body)"
    using assms(3) by (simp only: line_text_bytes) (simp add: LF_def)
  have time: "t \<le> 0 \<or> c * (2 * int (length ?body) + 3) < t * 1000000"
    using assms(4) by (simp add: algebra_simps)
  from assms(1) have con: "stream_peer e (serial_fd p) inq answer" "paced e (serial_fd p) inq clk c"
    "serial_is_open p" "head_in_bounds p" by (simp_all add: connected_def)
  obtain p' m' where r: "serial_read_line e p LF t m = Some ((strip_cr (line_text ?body), p'), m')"
    "serial_cache p' @ inq (world m') = rest" "serial_is_open p'" "head_in_bounds p'" "serial_fd p' = serial_fd p"
    using serial_read_line_arrives [OF con split char_of_byte_of_char nolf time] by blast
  have "strip_cr (line_text ?body) = line" by (simp only: line_text_bytes strip_cr_snoc)
  moreover have "accepted (serial_fd p) m' = accepted (serial_fd p) m"
    using quiet_read_line [OF r(1)] by (simp add: quiet_def)
  moreover have "connected e inq answer clk c p'" using r con by (simp add: connected_def)
  ultimately show ?thesis using that r by simp
qed

section \<open>The server\<close>

text \<open>A peer that has sent its session and answers nothing.\<close>

lemma reply_bytes_wire: "reply_bytes cmd = concat (map wire (demo_replies cmd))"
  by (simp add: reply_bytes_def wire_def [abs_def] map_concat comp_def)

lemma demo_command_peer:
  assumes "connected e inq (\<lambda>w d. []) clk c p" "cmd \<noteq> []" "cmd \<noteq> ''AT+PURGE''"
  obtains m' where "demo_command e cmd p m = Some ((cmd \<noteq> ''AT+QUIT'', p), m')" "inq (world m') = inq (world m)"
    "accepted (serial_fd p) m' = accepted (serial_fd p) m @ reply_bytes cmd"
proof (cases "cmd = ''AT+INFO''")
  case True
  have ne: "line @ CRLF \<noteq> []" for line by (simp add: CRLF_def)
  obtain m1 where w1: "serial_write_line e p ''+INFO: SimpleRFCOMM FTDI Virtual Device v1.0'' CRLF m = (True, m1)"
    "inq (world m1) = inq (world m) @ []" "accepted (serial_fd p) m1 = accepted (serial_fd p) m @
       map byte_of_char (''+INFO: SimpleRFCOMM FTDI Virtual Device v1.0'' @ CRLF)"
    by (rule write_line_peer [OF assms(1) ne])
  obtain m2 where w2: "serial_write_line e p ''OK'' CRLF m1 = (True, m2)" "inq (world m2) = inq (world m1) @ []"
    "accepted (serial_fd p) m2 = accepted (serial_fd p) m1 @ map byte_of_char (''OK'' @ CRLF)"
    by (rule write_line_peer [OF assms(1) ne])
  show ?thesis
    by (rule that [of m2]) (use True w1 w2 in \<open>simp_all add: demo_command_def reply_bytes_def demo_replies_def\<close>)
next
  case False
  then obtain l where l: "demo_replies cmd = [l]" "demo_command e cmd p m =
      (let (_, m) = serial_write_line e p l CRLF m in Some ((cmd \<noteq> ''AT+QUIT'', p), m))"
    using assms(2,3) unfolding demo_command_def demo_replies_def by (cases "cmd = ''AT''"; cases "cmd = ''AT+QUIT''") auto
  have ne: "l @ CRLF \<noteq> []" by (simp add: CRLF_def)
  obtain m1 where w: "serial_write_line e p l CRLF m = (True, m1)" "inq (world m1) = inq (world m) @ []"
    "accepted (serial_fd p) m1 = accepted (serial_fd p) m @ map byte_of_char (l @ CRLF)"
    by (rule write_line_peer [OF assms(1) ne])
  show ?thesis by (rule that [of m1]) (use l w in \<open>simp_all add: reply_bytes_def\<close>)
qed

text \<open>The lines that can be read at this pace before the server's timeout of five seconds.\<close>

definition in_time :: "int \<Rightarrow> string \<Rightarrow> bool" where
  "in_time c cmd \<longleftrightarrow> c * (2 * int (length cmd) + 5) < 5000 * 1000000"

lemma demo_turn_peer:
  assumes "connected e inq (\<lambda>w d. []) clk c p" "serial_cache p @ inq (world m) = wire cmd @ rest"
    and "cmd \<noteq> []" "LF \<notin> set cmd" "cmd \<noteq> ''AT+PURGE''" "in_time c cmd"
  obtains p' m' where "connected e inq (\<lambda>w d. []) clk c p'" "serial_cache p' @ inq (world m') = rest"
    "serial_fd p' = serial_fd p" "accepted (serial_fd p) m' = accepted (serial_fd p) m @ reply_bytes cmd"
    "demo_serve e p m = (if cmd = ''AT+QUIT'' then Some (p', m') else demo_serve e p' m')"
proof -
  obtain p1 m1 where rd: "serial_read_line e p LF 5000 m = Some ((cmd, p1), m1)"
    "serial_cache p1 @ inq (world m1) = rest" "connected e inq (\<lambda>w d. []) clk c p1" "serial_fd p1 = serial_fd p"
    "accepted (serial_fd p) m1 = accepted (serial_fd p) m"
    by (rule read_wire_peer [OF assms(1,2,4), of 5000]) (use assms(6) in \<open>simp_all add: in_time_def\<close>)
  obtain m2 where c: "demo_command e cmd p1 m1 = Some ((cmd \<noteq> ''AT+QUIT'', p1), m2)" "inq (world m2) = inq (world m1)"
    "accepted (serial_fd p1) m2 = accepted (serial_fd p1) m1 @ reply_bytes cmd"
    by (rule demo_command_peer [OF rd(3) assms(3,5)])
  have "serial_is_open p" using assms(1) by (simp add: connected_def)
  then have "demo_serve e p m = (if cmd = ''AT+QUIT'' then Some (p1, m2) else demo_serve e p1 m2)"
    by (subst demo_serve.simps) (use rd(1) c(1) assms(3) in simp)
  then show ?thesis using that [of p1 m2] rd c by simp
qed

lemma demo_serve_peer:
  assumes "list_all plain_command cmds" "list_all (in_time c) (cmds @ [''AT+QUIT''])"
  shows "connected e inq (\<lambda>w d. []) clk c p \<Longrightarrow>
    serial_cache p @ inq (world m) = concat (map wire (cmds @ [''AT+QUIT''])) @ rest \<Longrightarrow>
    \<exists>p' m'. demo_serve e p m = Some (p', m') \<and> connected e inq (\<lambda>w d. []) clk c p'
      \<and> serial_cache p' @ inq (world m') = rest \<and> serial_fd p' = serial_fd p
      \<and> accepted (serial_fd p) m' = accepted (serial_fd p) m @ concat (map reply_bytes (cmds @ [''AT+QUIT'']))"
  using assms
proof (induction cmds arbitrary: p m)
  case Nil
  obtain p' m' where t: "connected e inq (\<lambda>w d. []) clk c p'" "serial_cache p' @ inq (world m') = rest"
    "serial_fd p' = serial_fd p" "accepted (serial_fd p) m' = accepted (serial_fd p) m @ reply_bytes ''AT+QUIT''"
    "demo_serve e p m = (if ''AT+QUIT'' = ''AT+QUIT'' then Some (p', m') else demo_serve e p' m')"
    by (rule demo_turn_peer [OF Nil(1), of m "''AT+QUIT''" rest]) (use Nil(2,4) in \<open>simp_all add: LF_def\<close>)
  then show ?case by simp
next
  case (Cons cmd cmds)
  have pl: "cmd \<noteq> []" "LF \<notin> set cmd" "cmd \<noteq> ''AT+PURGE''" "cmd \<noteq> ''AT+QUIT''" "list_all plain_command cmds"
    using Cons.prems(3) unfolding list.pred_inject(2) plain_command_def [of cmd] by blast+
  have time: "in_time c cmd" "list_all (in_time c) (cmds @ [''AT+QUIT''])" using Cons.prems(4) by simp_all
  have line: "serial_cache p @ inq (world m) = wire cmd @ (concat (map wire (cmds @ [''AT+QUIT''])) @ rest)"
    using Cons.prems(2) by simp
  obtain p1 m1 where t: "connected e inq (\<lambda>w d. []) clk c p1"
    "serial_cache p1 @ inq (world m1) = concat (map wire (cmds @ [''AT+QUIT''])) @ rest"
    "serial_fd p1 = serial_fd p" "accepted (serial_fd p) m1 = accepted (serial_fd p) m @ reply_bytes cmd"
    "demo_serve e p m = (if cmd = ''AT+QUIT'' then Some (p1, m1) else demo_serve e p1 m1)"
    by (rule demo_turn_peer [OF Cons.prems(1) line pl(1-3) time(1)])
  from Cons.IH [OF t(1,2) pl(5) time(2)] t(3,4,5) pl(4) show ?case by auto
qed

section \<open>The client\<close>

text \<open>A reply ends at its last line, and at no earlier one.\<close>

lemma demo_replies_end:
  "cmd \<noteq> [] \<Longrightarrow> \<exists>ls l. demo_replies cmd = ls @ [l] \<and> ends_answer l \<and> l \<noteq> []
     \<and> (\<forall>x\<in>set ls. \<not> ends_answer x \<and> x \<noteq> []) \<and> (\<forall>x\<in>set (ls @ [l]). LF \<notin> set x \<and> length x \<le> 50)"
proof (cases "cmd = ''AT+INFO''")
  case True
  then show ?thesis
    by (intro exI [of _ "[''+INFO: SimpleRFCOMM FTDI Virtual Device v1.0'']"] exI [of _ "''OK''"])
      (simp add: demo_replies_def ends_answer_def LF_def)
next
  case False
  assume "cmd \<noteq> []"
  with False have "demo_replies cmd \<in> {[''OK''], [''BYE''], [''ERROR: UNKNOWN COMMAND'']}"
    by (simp add: demo_replies_def)
  then obtain l where "demo_replies cmd = [l]" "l \<in> {''OK'', ''BYE'', ''ERROR: UNKNOWN COMMAND''}" by blast
  then show ?thesis
    by (intro exI [of _ "[]"] exI [of _ l]) (auto simp: ends_answer_def LF_def)
qed

lemma reply_pace:
  fixes c :: int
  assumes "c * 105 < lim" "0 \<le> c" "n \<le> 50"
  shows "c * (2 * int n + 5) < lim"
proof -
  have "c * (2 * int n + 5) \<le> c * 105" using assms(2,3) by (intro mult_left_mono) auto
  with assms(1) show ?thesis by linarith
qed

lemma demo_answer_peer:
  assumes "c * 105 < 2000 * 1000000" "ends_answer l" "l \<noteq> []" "0 \<le> c"
  shows "connected e inq answer clk c p \<Longrightarrow> serial_cache p @ inq (world m) = concat (map wire (ls @ [l])) @ rest \<Longrightarrow>
    (\<forall>x\<in>set ls. \<not> ends_answer x \<and> x \<noteq> []) \<Longrightarrow> (\<forall>x\<in>set (ls @ [l]). LF \<notin> set x \<and> length x \<le> 50) \<Longrightarrow>
    \<exists>p' m'. demo_answer e p got m = Some ((got @ ls @ [l], p'), m') \<and> connected e inq answer clk c p'
      \<and> serial_cache p' @ inq (world m') = rest \<and> serial_fd p' = serial_fd p
      \<and> accepted (serial_fd p) m' = accepted (serial_fd p) m"
proof (induction ls arbitrary: p m got)
  case Nil
  have "c * (2 * int (length l) + 5) < 2000 * 1000000" using reply_pace [OF assms(1,4)] Nil(4) by simp
  then obtain p' m' where r: "serial_read_line e p LF 2000 m = Some ((l, p'), m')"
    "serial_cache p' @ inq (world m') = rest" "connected e inq answer clk c p'" "serial_fd p' = serial_fd p"
    "accepted (serial_fd p) m' = accepted (serial_fd p) m"
    using read_wire_peer [OF Nil(1), of m l rest 2000] Nil(2,4) by auto
  have "demo_answer e p got m = Some ((got @ [l], p'), m')"
    by (subst demo_answer.simps) (use r(1) assms(2,3) in simp)
  with r show ?case by auto
next
  case (Cons x ls)
  have "c * (2 * int (length x) + 5) < 2000 * 1000000" using reply_pace [OF assms(1,4)] Cons.prems(4) by simp
  then obtain p1 m1 where r: "serial_read_line e p LF 2000 m = Some ((x, p1), m1)"
    "serial_cache p1 @ inq (world m1) = concat (map wire (ls @ [l])) @ rest" "connected e inq answer clk c p1"
    "serial_fd p1 = serial_fd p" "accepted (serial_fd p) m1 = accepted (serial_fd p) m"
    using read_wire_peer [OF Cons.prems(1), of m x "concat (map wire (ls @ [l])) @ rest" 2000] Cons.prems(2,4) by auto
  have "demo_answer e p got m = demo_answer e p1 (got @ [x]) m1"
    by (subst demo_answer.simps) (use r(1) Cons.prems(3) in simp)
  with Cons.IH [OF r(3,2), of "got @ [x]"] Cons.prems(3,4) r(4,5) show ?case by auto
qed

lemma queue_status_peer:
  assumes "connected e inq answer clk c p" "serial_get_rx_queue_status e p m = (n, m')"
  shows "inq (world m') = inq (world m) \<and> accepted h m' = accepted h m"
proof -
  have "serial_is_open p" using assms(1) by (simp add: connected_def)
  then obtain im s where "serial_parts p = Some (im, s)" by (rule serial_open_cases)
  then obtain k q m1 where k: "sys_fionread e k m = (q, m1)" "m' = m1"
    using assms(2) by (auto simp: serial_get_rx_queue_status_def split: prod.splits)
  have "inq (world m1) = inq (world m)" using assms(1) k(1) by (auto simp: connected_def dest: peer_fionread)
  moreover have "accepted h m1 = accepted h m" using k(1) by (auto simp: sys_fionread_def split: prod.splits)
  ultimately show ?thesis using k(2) by simp
qed

text \<open>
  One command after another: each answer is complete, and read to its end, before the next command goes out.
\<close>

lemma demo_commands_peer:
  assumes "c * 105 < 2000 * 1000000" "\<And>ms w. inq (sleep ms w) = inq w"
    and "\<And>w cmd. cmd \<in> set cmds \<Longrightarrow> cmd \<noteq> [] \<and> answer w (wire cmd) = reply_bytes cmd"
  shows "connected e inq answer clk c p \<Longrightarrow> serial_cache p @ inq (world m) = [] \<Longrightarrow>
    \<exists>p' m'. demo_commands e sleep cmds p m = Some ((map demo_replies cmds, p'), m') \<and> connected e inq answer clk c p'
      \<and> serial_cache p' @ inq (world m') = [] \<and> serial_fd p' = serial_fd p
      \<and> accepted (serial_fd p) m' = accepted (serial_fd p) m @ concat (map wire cmds)"
  using assms(3)
proof (induction cmds arbitrary: p m)
  case (Cons cmd cmds)
  have cmd: "cmd \<noteq> []" "answer (world m) (wire cmd) = reply_bytes cmd" using Cons.prems(3) by simp_all
  have c: "0 \<le> c" using Cons.prems(1) by (simp add: connected_def paced_def)
  have ne: "cmd @ CRLF \<noteq> []" by (simp add: CRLF_def)
  obtain m1 where w: "serial_write_line e p cmd CRLF m = (True, m1)"
    "inq (world m1) = inq (world m) @ answer (world m) (map byte_of_char (cmd @ CRLF))"
    "accepted (serial_fd p) m1 = accepted (serial_fd p) m @ map byte_of_char (cmd @ CRLF)"
    by (rule write_line_peer [OF Cons.prems(1) ne])
  note w = w [unfolded wire_def [symmetric]]
  let ?m2 = "m1\<lparr>world := sleep 100 (world m1)\<rparr>"
  obtain n m3 where q: "serial_get_rx_queue_status e p ?m2 = (n, m3)" by (metis prod.collapse)
  note st = queue_status_peer [OF Cons.prems(1) q]
  obtain ls l where rep: "demo_replies cmd = ls @ [l]" "ends_answer l" "l \<noteq> []"
    "\<forall>x\<in>set ls. \<not> ends_answer x \<and> x \<noteq> []" "\<forall>x\<in>set (ls @ [l]). LF \<notin> set x \<and> length x \<le> 50"
    using demo_replies_end [OF cmd(1)] by blast
  have pend: "serial_cache p @ inq (world m3) = concat (map wire (ls @ [l])) @ []"
    using st w(2) cmd(2) Cons.prems(2) assms(2) reply_bytes_wire [of cmd] rep(1)
    by simp
  have acc: "accepted (serial_fd p) m3 = accepted (serial_fd p) m @ wire cmd"
    using st w(3) by (simp add: accepted_def)
  obtain p1 m4 where a: "demo_answer e p [] m3 = Some (([] @ ls @ [l], p1), m4)" "connected e inq answer clk c p1"
    "serial_cache p1 @ inq (world m4) = []" "serial_fd p1 = serial_fd p"
    "accepted (serial_fd p) m4 = accepted (serial_fd p) m3"
    using demo_answer_peer [OF assms(1) rep(2,3) c Cons.prems(1) pend rep(4,5), of "[]"] by blast
  from Cons.IH [OF a(2,3)] Cons.prems(3) obtain p' m' where
    r: "demo_commands e sleep cmds p1 m4 = Some ((map demo_replies cmds, p'), m')" "connected e inq answer clk c p'"
    "serial_cache p' @ inq (world m') = []" "serial_fd p' = serial_fd p1"
    "accepted (serial_fd p1) m' = accepted (serial_fd p1) m4 @ concat (map wire cmds)" by auto
  have "demo_commands e sleep (cmd # cmds) p m = Some ((map demo_replies (cmd # cmds), p'), m')"
    using w(1) q a(1) r(1) rep(1) by (simp add: Let_def)
  with r a acc show ?case by auto
qed simp

section \<open>The whole client\<close>

text \<open>The commands of the client, and what it prints for them when the server is the one of the demo.\<close>

definition demo_script :: "string list" where
  "demo_script = [''AT'', ''AT+INFO'', ''AT+PURGE'', ''AT+QUIT'']"

lemma opened_port:
  assumes "fds_respected m" "serial_open_by_uuid_text e serial_new mac u t m = ((Inr True, p), m')"
  shows "serial_is_open p \<and> head_in_bounds p \<and> serial_cache p = []"
proof -
  have own: "serial_owned serial_new m"
    using assms(1) by (simp add: serial_owned_def serial_valid_def serial_new_def serial_impl_default_def
        serial_holds_def serial_underlying_socket_def)
  have ne: "serial_pimpl serial_new \<noteq> None" by (simp add: serial_new_def)
  obtain addr v where o: "serial_open_by_uuid e serial_new addr v t m = ((Inr True, p), m')"
    using assms(2) by (auto simp: serial_open_by_uuid_text_def split: option.splits)
  from serial_open_by_uuid_effect [OF own ne o] show ?thesis by (auto simp: cache_sound_def)
qed

text \<open>The settings of a session change neither the connection nor the cache.\<close>

lemma connected_settings:
  "connected e inq answer clk c p \<Longrightarrow> connected e inq answer clk c (serial_set_baud_rate b p)"
  "connected e inq answer clk c p \<Longrightarrow> connected e inq answer clk c (serial_set_data_characteristics d s y p)"
  "serial_cache (serial_set_baud_rate b p) = serial_cache p"
  "serial_cache (serial_set_data_characteristics d s y p) = serial_cache p"
  by (cases p; auto simp: connected_def serial_set_baud_rate_def serial_set_data_characteristics_def map_serial_def
      serial_fd_def serial_underlying_socket_def serial_is_open_def head_in_bounds_def serial_cache_def im_cache_def
      split: option.splits)+

lemma set_timeouts_peer:
  assumes "connected e inq answer clk c p" "serial_set_timeouts e p rt wt m = (p', m')"
  shows "connected e inq answer clk c p' \<and> serial_cache p' = serial_cache p \<and> inq (world m') = inq (world m)"
proof -
  have "serial_is_open p" using assms(1) by (simp add: connected_def)
  then obtain im s where p: "p = SerialPort (Some im)" "ser_sock im = Some s" "socket_is_open s"
    by (rule serial_open_cases)
  obtain r1 m1 r2 m2 where r: "sys_setsockopt e (socket_fd s) SO_SNDTIMEO (timeval_of_ms wt) m = (r1, m1)"
    "sys_setsockopt e (socket_fd s) SO_RCVTIMEO (timeval_of_ms rt) m1 = (r2, m2)" by (metis prod.collapse)
  have "p' = SerialPort (Some (im\<lparr>read_timeout := rt, write_timeout := wt\<rparr>)) \<and> m' = m2"
    using assms(2) p r by (simp add: serial_set_timeouts_def socket_set_timeouts_def)
  moreover have peer: "stream_peer e (serial_fd p) inq answer" using assms(1) by (simp add: connected_def)
  have "inq (world m2) = inq (world m)"
    using peer_setsockopt [OF peer r(1)] peer_setsockopt [OF peer r(2)] by simp
  ultimately show ?thesis using assms(1) p by (simp add: connected_def im_cache_def)
qed

text \<open>
  C27. The demo client, talking to a peer that answers as the demo server does, prints the right lines for every
  command and ends with exit code 0. Once its port is open over a connection that works, however the answers are
  cut into pieces, no line of an answer is lost, split or credited to another command, and no timeout ends an
  answer early if the connection takes at most 19 milliseconds to deliver a byte or to read the clock.
\<close>

theorem demo_client_session:
  assumes "fds_respected m" "serial_open_by_uuid_text e serial_new mac DEMO_UUID 10000 m = ((Inr True, p), m1)"
    and "stream_peer e (serial_fd p) inq answer" "paced e (serial_fd p) inq clk c" "c \<le> 19000000"
    and "inq (world m1) = []" "\<And>ms w. inq (sleep ms w) = inq w"
    and "\<And>w cmd. cmd \<in> set demo_script \<Longrightarrow> answer w (wire cmd) = reply_bytes cmd"
  shows "\<exists>m'. demo_client e sleep mac m = Some (Inr (Exit 0,
    [[''OK''], [''+INFO: SimpleRFCOMM FTDI Virtual Device v1.0'', ''OK''], [''OK''], [''BYE'']]), m')"
proof -
  have "connected e inq answer clk c p" "serial_cache p = []"
    using opened_port [OF assms(1,2)] assms(3,4) by (simp_all add: connected_def)
  let ?p = "serial_set_data_characteristics Bits8 StopOne ParityNone (serial_set_baud_rate Baud115200 p)"
  obtain p2 m2 where t: "serial_set_timeouts e ?p 3000 3000 m1 = (p2, m2)" by (metis prod.collapse)
  have "connected e inq answer clk c ?p" by (intro connected_settings \<open>connected e inq answer clk c p\<close>)
  from set_timeouts_peer [OF this t] have con: "connected e inq answer clk c p2" "serial_cache p2 @ inq (world m2) = []"
    using \<open>serial_cache p = []\<close> assms(6) by (simp_all add: connected_settings)
  have "c * 105 < 2000 * 1000000" using assms(5) by linarith
  then obtain p3 m3 where r: "demo_commands e sleep demo_script p2 m2 = Some ((map demo_replies demo_script, p3), m3)"
    using demo_commands_peer [of c inq sleep demo_script answer, OF _ assms(7) _ con] assms(8)
    by (auto simp: demo_script_def)
  have "map demo_replies demo_script =
    [[''OK''], [''+INFO: SimpleRFCOMM FTDI Virtual Device v1.0'', ''OK''], [''OK''], [''BYE'']]"
    by (simp add: demo_script_def demo_replies_def)
  with r show ?thesis
    using assms(2) t by (simp add: demo_client_def demo_script_def Let_def split: prod.split)
qed

text \<open>The peer of the demo, on the sample kernel: it knows the four commands.\<close>

definition demo_peer :: "u8 list \<Rightarrow> u8 list" where
  "demo_peer d = (case filter (\<lambda>cmd. wire cmd = d) demo_script of [] \<Rightarrow> [] | cmd # _ \<Rightarrow> reply_bytes cmd)"

lemma wire_inject [simp]: "wire a = wire b \<longleftrightarrow> a = b"
proof
  assume "wire a = wire b"
  then have "map char_of_byte (wire a) = map char_of_byte (wire b)" by simp
  then show "a = b" by (simp add: wire_def comp_def)
qed simp

lemma demo_peer_answers: "cmd \<in> set demo_script \<Longrightarrow> demo_peer (wire cmd) = reply_bytes cmd"
  by (auto simp: demo_peer_def demo_script_def)

definition demo_boot :: "sim machine" where
  "demo_boot = boot (sim_start\<lparr>sim_records := sample_records\<rparr>)"

theorem demo_client_session_witness:
  "\<exists>m'. demo_client (peer_env (\<lambda>w. demo_peer)) (\<lambda>ms w. w) ''01:02:03:04:05:06'' demo_boot = Some (Inr (Exit 0,
    [[''OK''], [''+INFO: SimpleRFCOMM FTDI Virtual Device v1.0'', ''OK''], [''OK''], [''BYE'']]), m')"
proof -
  let ?open = "serial_open_by_uuid_text (peer_env (\<lambda>w. demo_peer)) serial_new ''01:02:03:04:05:06'' DEMO_UUID 10000 demo_boot"
  have v: "map_sum id (\<lambda>b. b) (fst (fst ?open)) = Inr True" "sim_in (world (snd ?open)) = []" by code_simp+
  obtain r p m1 where o: "?open = ((r, p), m1)" by (metis prod.collapse)
  with v have "r = Inr True" "sim_in (world m1) = []" by (cases r; simp)+
  have "fds_respected demo_boot" by (simp add: demo_boot_def)
  from demo_client_session [OF this o [unfolded \<open>r = Inr True\<close>] peer_env_peer peer_env_paced _ _ _ demo_peer_answers]
    \<open>sim_in (world m1) = []\<close> show ?thesis by simp
qed

section \<open>The whole session of the server\<close>

text \<open>
  The demo server answers a whole session and ends. When the lines of a session, each as \<open>write_line\<close> puts it
  on the wire and the last one \<open>AT+QUIT\<close>, are in its cache or on their way over a connection that works, in
  pieces of any size, the server returns; it has sent exactly the reply to each command, in order, and it leaves
  what comes after the session.
\<close>

theorem demo_serve_session:
  assumes "stream_peer e (serial_fd p) inq (\<lambda>w d. [])" "paced e (serial_fd p) inq clk c"
    and "serial_is_open p" "head_in_bounds p"
    and "list_all plain_command cmds" "list_all (in_time c) (cmds @ [''AT+QUIT''])"
    and "serial_cache p @ inq (world m) = concat (map wire (cmds @ [''AT+QUIT''])) @ rest"
  shows "\<exists>p' m'. demo_serve e p m = Some (p', m') \<and> serial_cache p' @ inq (world m') = rest
    \<and> accepted (serial_fd p) m' = accepted (serial_fd p) m @ concat (map reply_bytes (cmds @ [''AT+QUIT'']))"
proof -
  have "connected e inq (\<lambda>w d. []) clk c p" using assms(1-4) by (simp add: connected_def)
  from demo_serve_peer [OF assms(5,6) this assms(7)] show ?thesis by blast
qed

text \<open>A port that has read \<open>A\<close> of \<open>AT\<close>, with the rest on its way, and one byte after the session.\<close>

definition begun_port :: serial_port where
  "begun_port = SerialPort (Some (serial_impl_default\<lparr>ser_sock := Some sample_socket, rx_buf := [65]\<rparr>))"

definition begun_machine :: "sim machine" where
  "begun_machine = boot (sim_start\<lparr>sim_in := [84, 13, 10, 65, 84, 43, 81, 85, 73, 84, 13, 10, 88]\<rparr>)"

theorem demo_serve_session_witness:
  "\<exists>p' m'. demo_serve (peer_env (\<lambda>w d. [])) begun_port begun_machine = Some (p', m')
     \<and> serial_cache p' @ sim_in (world m') = [88] \<and> accepted 3 m' = reply_bytes ''AT'' @ reply_bytes ''AT+QUIT''"
proof -
  have p: "serial_is_open begun_port" "head_in_bounds begun_port" "serial_fd begun_port = 3"
    "accepted 3 begun_machine = []" by code_simp+
  have plain: "list_all plain_command [''AT'']" by (simp add: plain_command_def LF_def)
  have time: "list_all (in_time 1000000) ([''AT''] @ [''AT+QUIT''])" by (simp add: in_time_def)
  have lines: "serial_cache begun_port @ sim_in (world begun_machine) = concat (map wire ([''AT''] @ [''AT+QUIT''])) @ [88]"
    by (simp add: begun_port_def begun_machine_def im_cache_def serial_impl_default_def boot_def wire_def CRLF_def
        byte_of_char_def of_char_def)
  from demo_serve_session [OF peer_env_peer peer_env_paced p(1,2) plain time lines] p(3,4) show ?thesis by auto
qed

end
