(* ===== verification/Demo_Lockstep.thy ===== *)
theory Demo_Lockstep
  imports Demo_Session
begin

text \<open>
  The demo server with a peer that works as the demo client does: it sends a command, waits for the last line of
  the reply, and sends the next. This is where \<open>AT+PURGE\<close> is harmless, since nothing is on its way when the server
  throws its queue away.
\<close>

section \<open>What reading leaves alone in the world\<close>

definition steady :: "'w env \<Rightarrow> ('w \<Rightarrow> 'a) \<Rightarrow> bool" where
  "steady e f \<longleftrightarrow> (\<forall>h n w. f (snd (k_recv e h n w)) = f w) \<and> (\<forall>w. f (snd (k_now e w)) = f w)
     \<and> (\<forall>h w. f (snd (k_getfl e h w)) = f w) \<and> (\<forall>h v w. f (snd (k_setfl e h v w)) = f w)
     \<and> (\<forall>h opt v w. f (snd (k_setsockopt e h opt v w)) = f w)"

lemma steady_recv: "steady e f \<Longrightarrow> socket_recv e s b m = (r, m') \<Longrightarrow> f (world m') = f (world m)"
  unfolding steady_def by (auto simp: socket_recv_def sys_recv_def split: if_splits prod.splits) (metis snd_conv)+

lemma steady_now: "steady e f \<Longrightarrow> sys_now e m = (t, m') \<Longrightarrow> f (world m') = f (world m)"
  unfolding steady_def by (auto simp: sys_now_def split: prod.splits) (metis snd_conv)+

lemma steady_refill: "steady e f \<Longrightarrow> refill_rx_cache e im m = (r, m') \<Longrightarrow> f (world m') = f (world m)"
  by (auto simp: refill_rx_cache_def Let_def dest: steady_recv split: if_splits option.splits prod.splits)

lemma steady_set_timeouts: "steady e f \<Longrightarrow> socket_set_timeouts e s a b m = (r, m') \<Longrightarrow> f (world m') = f (world m)"
  unfolding steady_def
  by (auto simp: socket_set_timeouts_def sys_setsockopt_def split: if_splits prod.splits) (metis snd_conv)+

lemma steady_read_line:
  assumes "steady e f" "serial_read_line e p d t m = Some ((line, p'), m')"
  shows "f (world m') = f (world m)"
proof (cases "serial_parts p")
  case (Some ims)
  obtain im s where ims: "ims = (im, s)" by (cases ims)
  obtain start m1 where n: "sys_now e m = (start, m1)" by (metis prod.collapse)
  obtain im' where r: "read_line_loop e d t start im [] m1 = Some ((line, im'), m')"
    using assms(2) Some ims n by (auto simp: serial_read_line_def)
  have "f (world m') = f (world m1)"
    using read_line_loop_frame [OF r, where R = "\<lambda>m m'. f (world m') = f (world m)"]
      steady_now [OF assms(1)] steady_refill [OF assms(1)] by fastforce
  with steady_now [OF assms(1) n] show ?thesis by simp
qed (use assms in \<open>simp add: serial_read_line_def\<close>)

section \<open>A client that waits\<close>

text \<open>Such a client goes on at a line that ends an answer: those are the sends that bring its next command.\<close>

definition ends_reply :: "u8 list \<Rightarrow> bool" where
  "ends_reply d \<longleftrightarrow> (let line = take (length d - 2) (map char_of_byte d) in d = wire line \<and> ends_answer line)"

lemma wire_text: "take (length (wire line) - 2) (map char_of_byte (wire line)) = line"
  by (simp add: wire_def CRLF_def comp_def)

lemma ends_reply_wire [simp]: "ends_reply (wire line) \<longleftrightarrow> ends_answer line"
  by (simp add: ends_reply_def wire_text Let_def)

text \<open>
  \<open>script w\<close> are the commands that the client has still to send. A \<open>recv\<close> while nothing is pending brings
  nothing: it fails at once in non-blocking mode, after the timeout otherwise.
\<close>

definition next_command :: "('w \<Rightarrow> string list) \<Rightarrow> 'w \<Rightarrow> u8 list \<Rightarrow> u8 list" where
  "next_command script w d = (if ends_reply d then concat (map wire (take 1 (script w))) else [])"

definition waiting_client :: "'w env \<Rightarrow> handle \<Rightarrow> ('w \<Rightarrow> u8 list) \<Rightarrow> ('w \<Rightarrow> string list) \<Rightarrow> bool" where
  "waiting_client e h inq script \<longleftrightarrow> stream_peer e h inq (next_command script) \<and> steady e script
     \<and> (\<forall>d w. script (snd (k_send e h d w)) = (if ends_reply d then drop 1 (script w) else script w))
     \<and> (\<forall>n w. inq w = [] \<longrightarrow> fst (fst (k_recv e h n w)) \<le> 0 \<and> inq (snd (k_recv e h n w)) = [])
     \<and> (\<forall>k w. inq (snd (k_getfl e k w)) = inq w) \<and> (\<forall>k v w. inq (snd (k_setfl e k v w)) = inq w)"

definition in_session ::
  "'w env \<Rightarrow> ('w \<Rightarrow> u8 list) \<Rightarrow> ('w \<Rightarrow> string list) \<Rightarrow> ('w \<Rightarrow> int) \<Rightarrow> int \<Rightarrow> serial_port \<Rightarrow> bool" where
  "in_session e inq script clk c p \<longleftrightarrow>
     connected e inq (next_command script) clk c p \<and> waiting_client e (serial_fd p) inq script"

lemma in_session_eq:
  "in_session e inq script clk c p \<longleftrightarrow> waiting_client e (serial_fd p) inq script \<and> paced e (serial_fd p) inq clk c
     \<and> serial_is_open p \<and> head_in_bounds p"
  by (auto simp: in_session_def connected_def waiting_client_def)

text \<open>A line of a reply goes out; the last one of the reply brings the next command.\<close>

lemma write_to_client:
  assumes "in_session e inq script clk c p"
  obtains m' where "serial_write_line e p line CRLF m = (True, m')"
    "accepted (serial_fd p) m' = accepted (serial_fd p) m @ wire line"
    "inq (world m') = inq (world m) @ (if ends_answer line then concat (map wire (take 1 (script (world m)))) else [])"
    "script (world m') = (if ends_answer line then drop 1 (script (world m)) else script (world m))"
proof -
  have con: "connected e inq (next_command script) clk c p" and wait: "waiting_client e (serial_fd p) inq script"
    using assms by (simp_all add: in_session_def)
  have ne: "line @ CRLF \<noteq> []" by (simp add: CRLF_def)
  note eq = write_line_eq [OF con ne, of m, folded wire_def, unfolded Let_def]
  obtain m' where w: "serial_write_line e p line CRLF m = (True, m')"
    "inq (world m') = inq (world m) @ next_command script (world m) (map byte_of_char (line @ CRLF))"
    "accepted (serial_fd p) m' = accepted (serial_fd p) m @ map byte_of_char (line @ CRLF)"
    by (rule write_line_peer [OF con ne])
  note w = w [folded wire_def]
  have "script (world m') = (if ends_reply (wire line) then drop 1 (script (world m)) else script (world m))"
    using eq w(1) wait by (auto simp: waiting_client_def)
  with w show ?thesis by (intro that [of m']) (simp_all add: next_command_def)
qed

section \<open>Purging an empty queue\<close>

lemma client_set_blocking:
  assumes "waiting_client e h inq script" "socket_set_blocking e s b m = (r, m')"
  shows "inq (world m') = inq (world m) \<and> script (world m') = script (world m)"
proof -
  have st: "steady e script" and q: "inq (snd (k_getfl e k w)) = inq w" "inq (snd (k_setfl e k v w)) = inq w" for k v w
    using assms(1) by (simp_all add: waiting_client_def)
  have s: "script (snd (k_getfl e k w)) = script w" "script (snd (k_setfl e k v w)) = script w" for k v w
    using st by (simp_all add: steady_def)
  show ?thesis
    using assms(2) s q
    by (auto simp: socket_set_blocking_def sys_getfl_def sys_setfl_def Let_def split: if_splits prod.splits)
      (metis snd_conv)+
qed

lemma purge_waiting:
  assumes "in_session e inq script clk c p" "inq (world m) = []"
  obtains p' m' where "serial_purge e p PurgeAll m = Some (p', m')" "in_session e inq script clk c p'"
    "serial_fd p' = serial_fd p" "serial_cache p' = []" "inq (world m') = []" "script (world m') = script (world m)"
    "accepted (serial_fd p) m' = accepted (serial_fd p) m"
proof -
  have wait: "waiting_client e (serial_fd p) inq script" and op: "serial_is_open p"
    using assms(1) by (simp_all add: in_session_eq)
  obtain im s where p: "p = SerialPort (Some im)" "ser_sock im = Some s" "socket_is_open s"
    using op by (rule serial_open_cases)
  have fd: "serial_fd p = socket_fd s" using p by simp
  obtain x m1 where b1: "socket_set_blocking e s False m = (x, m1)" by (metis prod.collapse)
  have w1: "inq (world m1) = []" "script (world m1) = script (world m)"
    using client_set_blocking [OF wait b1] assms(2) by simp_all
  have ne: "chunk_4096 \<noteq> []" by (simp add: chunk_4096_def)
  obtain r d w buf' where k: "k_recv e (socket_fd s) (length chunk_4096) (world m1) = ((r, d), w)"
    "socket_recv e s chunk_4096 m1 =
       ((if 0 \<le> r then r else - 1, buf'), emit (EvRecv (socket_fd s) (length chunk_4096) r d) w m1)"
    using socket_recv_open [OF p(3) ne] by metis
  have none: "r \<le> 0" "inq w = []"
    using wait w1(1) k(1) fd unfolding waiting_client_def by (metis fst_conv snd_conv)+
  have sw: "script w = script (world m1)"
    using steady_recv [where f = script, OF _ k(2)] wait by (simp add: waiting_client_def)
  let ?m2 = "emit (EvRecv (socket_fd s) (length chunk_4096) r d) w m1"
  have drain: "drain_loop e s chunk_4096 m1 = Some ?m2"
    by (subst drain_loop.simps) (use k(2) none(1) in simp)
  obtain y m3 where b2: "socket_set_blocking e s True ?m2 = (y, m3)" by (metis prod.collapse)
  have w3: "inq (world m3) = []" "script (world m3) = script (world m)"
    using client_set_blocking [OF wait b2] none(2) sw w1(2) by simp_all
  let ?p = "SerialPort (Some (clear_rx_cache im))"
  have "purge_has PurgeAll PurgeRx" by code_simp
  from serial_purge_eq [OF p(1,2) this, of e m] have pu: "serial_purge e p PurgeAll m = Some (?p, m3)"
    using b1 drain b2 by simp
  have q: "serial_fd ?p = serial_fd p" "serial_cache ?p = []" "serial_is_open ?p" "head_in_bounds ?p"
    using p by (simp_all add: clear_rx_cache_def serial_fd_def serial_underlying_socket_def serial_cache_def
        im_cache_def serial_is_open_def head_in_bounds_def)
  have "in_session e inq script clk c ?p" using assms(1) q by (simp add: in_session_eq)
  moreover have "accepted (serial_fd p) m3 = accepted (serial_fd p) m"
    using quiet_purge [OF pu] by (simp add: quiet_def)
  ultimately show ?thesis using that pu q w3 by blast
qed

section \<open>One command after another\<close>

text \<open>The reply to any command, and with its last line the next command of the client.\<close>

lemma demo_command_waiting:
  assumes "in_session e inq script clk c p" "cmd \<noteq> []" "serial_cache p = []" "inq (world m) = []"
  obtains p' m' where "demo_command e cmd p m = Some ((cmd \<noteq> ''AT+QUIT'', p'), m')" "in_session e inq script clk c p'"
    "serial_fd p' = serial_fd p" "serial_cache p' = []" "inq (world m') = concat (map wire (take 1 (script (world m))))"
    "script (world m') = drop 1 (script (world m))"
    "accepted (serial_fd p) m' = accepted (serial_fd p) m @ reply_bytes cmd"
proof -
  consider (info) "cmd = ''AT+INFO''" | (purge) "cmd = ''AT+PURGE''"
    | (line) l where "demo_replies cmd = [l]" "ends_answer l"
        "demo_command e cmd p m = (let (_, m) = serial_write_line e p l CRLF m in Some ((cmd \<noteq> ''AT+QUIT'', p), m))"
  proof (cases "cmd = ''AT+INFO'' \<or> cmd = ''AT+PURGE''")
    case False
    then show ?thesis
      by (cases "cmd = ''AT''"; cases "cmd = ''AT+QUIT''";
          intro line [of "if cmd = ''AT'' then ''OK'' else if cmd = ''AT+QUIT'' then ''BYE'' else ''ERROR: UNKNOWN COMMAND''"])
        (use assms(2) in \<open>simp_all add: demo_command_def demo_replies_def ends_answer_def\<close>)
  qed (use info purge in blast)
  then show ?thesis
  proof cases
    case info
    let ?info = "''+INFO: SimpleRFCOMM FTDI Virtual Device v1.0''"
    have n: "\<not> ends_answer ?info" "ends_answer ''OK''" by (simp_all add: ends_answer_def)
    obtain m1 where w1: "serial_write_line e p ?info CRLF m = (True, m1)"
      "accepted (serial_fd p) m1 = accepted (serial_fd p) m @ wire ?info" "inq (world m1) = inq (world m)"
      "script (world m1) = script (world m)"
      using write_to_client [OF assms(1), of ?info m] n(1) by auto
    obtain m2 where w2: "serial_write_line e p ''OK'' CRLF m1 = (True, m2)"
      "accepted (serial_fd p) m2 = accepted (serial_fd p) m1 @ wire ''OK''"
      "inq (world m2) = inq (world m1) @ concat (map wire (take 1 (script (world m1))))"
      "script (world m2) = drop 1 (script (world m1))"
      using write_to_client [OF assms(1), of "''OK''" m1] n(2) by auto
    show ?thesis
      by (rule that [of p m2])
        (use info assms w1 w2 in \<open>simp_all add: demo_command_def reply_bytes_wire demo_replies_def\<close>)
  next
    case purge
    obtain p1 m1 where pu: "serial_purge e p PurgeAll m = Some (p1, m1)" "in_session e inq script clk c p1"
      "serial_fd p1 = serial_fd p" "serial_cache p1 = []" "inq (world m1) = []" "script (world m1) = script (world m)"
      "accepted (serial_fd p) m1 = accepted (serial_fd p) m"
      by (rule purge_waiting [OF assms(1,4)])
    obtain m2 where w: "serial_write_line e p1 ''OK'' CRLF m1 = (True, m2)"
      "accepted (serial_fd p1) m2 = accepted (serial_fd p1) m1 @ wire ''OK''"
      "inq (world m2) = inq (world m1) @ concat (map wire (take 1 (script (world m1))))"
      "script (world m2) = drop 1 (script (world m1))"
      using write_to_client [OF pu(2), of "''OK''" m1] by (auto simp: ends_answer_def)
    show ?thesis
      by (rule that [of p1 m2])
        (use purge pu w in \<open>simp_all add: demo_command_def reply_bytes_wire demo_replies_def\<close>)
  next
    case line
    obtain m1 where w: "serial_write_line e p l CRLF m = (True, m1)"
      "accepted (serial_fd p) m1 = accepted (serial_fd p) m @ wire l"
      "inq (world m1) = inq (world m) @ concat (map wire (take 1 (script (world m))))"
      "script (world m1) = drop 1 (script (world m))"
      using write_to_client [OF assms(1), of l m] line(2) by auto
    show ?thesis by (rule that [of p m1]) (use line assms w in \<open>simp_all add: reply_bytes_wire\<close>)
  qed
qed

lemma demo_turn_waiting:
  assumes "in_session e inq script clk c p" "serial_cache p @ inq (world m) = wire cmd"
    and "cmd \<noteq> []" "LF \<notin> set cmd" "in_time c cmd"
  obtains p' m' where "in_session e inq script clk c p'" "serial_fd p' = serial_fd p"
    "serial_cache p' @ inq (world m') = concat (map wire (take 1 (script (world m))))"
    "script (world m') = drop 1 (script (world m))"
    "accepted (serial_fd p) m' = accepted (serial_fd p) m @ reply_bytes cmd"
    "demo_serve e p m = (if cmd = ''AT+QUIT'' then Some (p', m') else demo_serve e p' m')"
proof -
  have con: "connected e inq (next_command script) clk c p" and wait: "waiting_client e (serial_fd p) inq script"
    using assms(1) by (simp_all add: in_session_def)
  have line: "serial_cache p @ inq (world m) = wire cmd @ []" using assms(2) by simp
  obtain p1 m1 where rd: "serial_read_line e p LF 5000 m = Some ((cmd, p1), m1)"
    "serial_cache p1 @ inq (world m1) = []" "connected e inq (next_command script) clk c p1" "serial_fd p1 = serial_fd p"
    "accepted (serial_fd p) m1 = accepted (serial_fd p) m"
    by (rule read_wire_peer [OF con line assms(4), of 5000]) (use assms(5) in \<open>simp_all add: in_time_def\<close>)
  have "steady e script" using wait by (simp add: waiting_client_def)
  from steady_read_line [OF this rd(1)] have sc: "script (world m1) = script (world m)" .
  have ses: "in_session e inq script clk c p1" and empty: "serial_cache p1 = []" "inq (world m1) = []"
    using rd wait by (simp_all add: in_session_def)
  obtain p2 m2 where c: "demo_command e cmd p1 m1 = Some ((cmd \<noteq> ''AT+QUIT'', p2), m2)" "in_session e inq script clk c p2"
    "serial_fd p2 = serial_fd p1" "serial_cache p2 = []" "inq (world m2) = concat (map wire (take 1 (script (world m1))))"
    "script (world m2) = drop 1 (script (world m1))"
    "accepted (serial_fd p1) m2 = accepted (serial_fd p1) m1 @ reply_bytes cmd"
    by (rule demo_command_waiting [OF ses assms(3) empty])
  have "serial_is_open p" using assms(1) by (simp add: in_session_eq)
  then have "demo_serve e p m = (if cmd = ''AT+QUIT'' then Some (p2, m2) else demo_serve e p2 m2)"
    by (subst demo_serve.simps) (use rd(1) c(1) assms(3) in simp)
  then show ?thesis using that [of p2 m2] rd sc c by simp
qed

definition session_command :: "string \<Rightarrow> bool" where
  "session_command cmd \<longleftrightarrow> cmd \<noteq> [] \<and> LF \<notin> set cmd \<and> cmd \<noteq> ''AT+QUIT''"

lemma demo_serve_waiting:
  assumes "list_all session_command cmds" "list_all (in_time c) (cmds @ [''AT+QUIT''])"
  shows "in_session e inq script clk c p \<Longrightarrow> cmds @ [''AT+QUIT''] = cmd # script (world m) \<Longrightarrow>
    serial_cache p @ inq (world m) = wire cmd \<Longrightarrow>
    \<exists>p' m'. demo_serve e p m = Some (p', m') \<and> in_session e inq script clk c p' \<and> serial_fd p' = serial_fd p
      \<and> serial_cache p' @ inq (world m') = [] \<and> script (world m') = []
      \<and> accepted (serial_fd p) m' = accepted (serial_fd p) m @ concat (map reply_bytes (cmds @ [''AT+QUIT'']))"
  using assms
proof (induction cmds arbitrary: cmd p m)
  case Nil
  then have q: "cmd = ''AT+QUIT''" "script (world m) = []" "in_time c cmd" by simp_all
  obtain p' m' where t: "in_session e inq script clk c p'" "serial_fd p' = serial_fd p"
    "serial_cache p' @ inq (world m') = concat (map wire (take 1 (script (world m))))"
    "script (world m') = drop 1 (script (world m))"
    "accepted (serial_fd p) m' = accepted (serial_fd p) m @ reply_bytes cmd"
    "demo_serve e p m = (if cmd = ''AT+QUIT'' then Some (p', m') else demo_serve e p' m')"
    by (rule demo_turn_waiting [OF Nil(1,3) _ _ q(3)]) (simp_all add: q(1) LF_def)
  with q show ?case by simp
next
  case (Cons a cmds)
  have cmd: "cmd = a" "script (world m) = cmds @ [''AT+QUIT'']" using Cons.prems(2) by simp_all
  have ok: "cmd \<noteq> []" "LF \<notin> set cmd" "cmd \<noteq> ''AT+QUIT''" "list_all session_command cmds" "in_time c cmd"
    "list_all (in_time c) (cmds @ [''AT+QUIT''])"
    using Cons.prems(4,5) cmd(1) unfolding list.pred_inject(2) session_command_def [of a] by simp_all
  obtain p1 m1 where t: "in_session e inq script clk c p1" "serial_fd p1 = serial_fd p"
    "serial_cache p1 @ inq (world m1) = concat (map wire (take 1 (script (world m))))"
    "script (world m1) = drop 1 (script (world m))"
    "accepted (serial_fd p) m1 = accepted (serial_fd p) m @ reply_bytes cmd"
    "demo_serve e p m = (if cmd = ''AT+QUIT'' then Some (p1, m1) else demo_serve e p1 m1)"
    by (rule demo_turn_waiting [OF Cons.prems(1,3) ok(1,2,5)])
  obtain b bs where bs: "cmds @ [''AT+QUIT''] = b # bs" by (cases cmds) simp_all
  have "cmds @ [''AT+QUIT''] = b # script (world m1)" "serial_cache p1 @ inq (world m1) = wire b"
    using t(3,4) cmd(2) bs by simp_all
  from Cons.IH [OF t(1) this ok(4,6)] t(2,5,6) ok(3) cmd(1) show ?case by auto
qed

section \<open>The server mode from end to end\<close>

lemma accept_open:
  assumes "server_accept e srv m = (Some s, m')"
  shows "socket_is_open s"
proof -
  have "\<not> h <s 0 \<Longrightarrow> h \<noteq> INVALID_SOCKET_HANDLE" for h :: handle
    by (auto simp: INVALID_SOCKET_HANDLE_def word_sless_alt)
  then show ?thesis
    using assms by (auto simp: server_accept_def socket_from_native_def socket_is_open_def Let_def
        split: option.splits if_splits prod.splits)
qed

lemma set_timeouts_keeps_accepted: "socket_set_timeouts e s a b m = (r, m') \<Longrightarrow> accepted h m' = accepted h m"
  by (auto simp: socket_set_timeouts_def sys_setsockopt_def split: if_splits prod.splits)

lemma unregister_keeps_accepted: "accepted h (snd (registration_impl_unregister e im m)) = accepted h m"
  by (simp add: registration_impl_unregister_def sys_defs Let_def split: option.split)

lemma close_keeps_accepted: "accepted h (close_socket_handle e k m) = accepted h m"
  by (simp add: close_socket_handle_def sys_defs)

lemma server_impl_close_keeps_accepted: "accepted h (snd (server_impl_close e im m)) = accepted h m"
proof (cases "sdp_reg im")
  case (Some g)
  obtain g1 m1 where u: "registration_unregister e g m = (g1, m1)" by (metis prod.collapse)
  have "accepted h (snd (registration_unregister e g m)) = accepted h m"
    by (simp add: registration_unregister_def Let_def split_def unregister_keeps_accepted split: option.split)
  then have "accepted h m1 = accepted h m" using u by simp
  moreover have "accepted h (registration_destroy e g1 m1) = accepted h m1"
    by (simp add: registration_destroy_def unregister_keeps_accepted split: option.split)
  ultimately show ?thesis using Some u by (simp add: server_impl_close_def Let_def close_keeps_accepted)
qed (simp add: server_impl_close_def Let_def close_keeps_accepted)

lemma release_keeps_accepted:
  "accepted h (serial_destroy e p m) = accepted h m" "accepted h (server_destroy e srv m) = accepted h m"
  by (simp_all add: serial_destroy_def socket_destroy_def socket_impl_destroy_def close_keeps_accepted
      server_destroy_def server_impl_close_keeps_accepted split: option.split)

text \<open>The port of the server, with the socket that was accepted and its timeouts.\<close>

lemma attach_accepted:
  assumes "socket_is_open s" "waiting_client e (socket_fd s) inq script" "paced e (socket_fd s) inq clk c"
    and "serial_attach e serial_new (Some s) m = ((r, p), m1)" "serial_set_timeouts e p rt wt m1 = (p', m')"
  shows "r = Inr True \<and> in_session e inq script clk c p' \<and> serial_fd p' = socket_fd s \<and> serial_cache p' = []
    \<and> inq (world m') = inq (world m) \<and> script (world m') = script (world m)
    \<and> accepted (socket_fd s) m' = accepted (socket_fd s) m"
proof -
  have st: "steady e script" and peer: "stream_peer e (socket_fd s) inq (next_command script)"
    using assms(2) by (simp_all add: waiting_client_def)
  let ?im = "clear_rx_cache serial_impl_default\<lparr>ser_sock := Some s\<rparr>"
  obtain x m0 where t1: "socket_set_timeouts e s (write_timeout ?im) (read_timeout ?im) m = (x, m0)"
    by (metis prod.collapse)
  have "ser_sock (clear_rx_cache serial_impl_default) = None" by (simp add: clear_rx_cache_def serial_impl_default_def)
  then have a: "r = Inr True" "p = SerialPort (Some ?im)" "m1 = m0"
    using assms(1,4) t1 by (simp_all add: serial_attach_def serial_close_def serial_new_def serial_adopt_def
        clear_rx_cache_def serial_impl_default_def)
  have p: "serial_fd p = socket_fd s" "serial_cache p = []" "serial_is_open p" "head_in_bounds p"
    using assms(1) by (simp_all add: a(2) im_cache_def clear_rx_cache_def)
  have con: "connected e inq (next_command script) clk c p"
    using p peer assms(3) by (simp add: connected_def)
  obtain y m2 where t2: "socket_set_timeouts e s wt rt m1 = (y, m2)" by (metis prod.collapse)
  have b: "p' = SerialPort (Some (?im\<lparr>read_timeout := rt, write_timeout := wt\<rparr>))" "m' = m2"
    using assms(5) t2 by (simp_all add: a(2) serial_set_timeouts_def)
  have "inq (world m0) = inq (world m)"
    using t1 peer_setsockopt [OF peer]
    by (auto simp: socket_set_timeouts_def split: if_splits prod.splits)
  moreover note set_timeouts_peer [OF con assms(5)]
  moreover have "serial_fd p' = socket_fd s" by (simp add: b(1))
  ultimately show ?thesis
    using a b(2) p(2) assms(2) steady_set_timeouts [OF st t1] steady_set_timeouts [OF st t2]
      set_timeouts_keeps_accepted [OF t1] set_timeouts_keeps_accepted [OF t2]
    by (simp add: in_session_def)
qed

text \<open>
  C26. The server mode of the demo, from end to end. Once it listens and a client has connected that works as the
  client of the demo does (it sends its first command, and each further one when the last line of a reply has come),
  over a connection that works, the server answers every command of the client, \<open>AT+PURGE\<close> and unknown ones
  included, with exactly its reply, in order and none lost; after the \<open>AT+QUIT\<close> the program ends with exit code 0.
\<close>

theorem demo_server_session:
  assumes "server_listen_with_sdp e server_new u ''FTDI Serial Service'' 0 4 m = ((Inr True, srv), m1)"
    and "server_accept e srv m1 = (Some s, m2)"
    and "waiting_client e (socket_fd s) inq script" "paced e (socket_fd s) inq clk c"
    and "list_all session_command cmds" "list_all (in_time c) (cmds @ [''AT+QUIT''])"
    and "cmds @ [''AT+QUIT''] = cmd # script (world m2)" "inq (world m2) = wire cmd"
  shows "\<exists>m'. demo_server e u m = Some (Inr (Exit 0), m')
    \<and> accepted (socket_fd s) m' = accepted (socket_fd s) m2 @ concat (map reply_bytes (cmds @ [''AT+QUIT'']))"
proof -
  obtain r p m3 where a: "serial_attach e serial_new (Some s) m2 = ((r, p), m3)" by (metis prod.collapse)
  obtain p1 m4 where t: "serial_set_timeouts e p 5000 5000 m3 = (p1, m4)" by (metis prod.collapse)
  have st: "r = Inr True" "in_session e inq script clk c p1" "serial_fd p1 = socket_fd s" "serial_cache p1 = []"
    "inq (world m4) = inq (world m2)" "script (world m4) = script (world m2)"
    "accepted (socket_fd s) m4 = accepted (socket_fd s) m2"
    using attach_accepted [OF accept_open [OF assms(2)] assms(3,4) a t] by simp_all
  have "cmds @ [''AT+QUIT''] = cmd # script (world m4)" "serial_cache p1 @ inq (world m4) = wire cmd"
    using st assms(7,8) by simp_all
  from demo_serve_waiting [OF assms(5,6) st(2) this] obtain p2 m5 where
    d: "demo_serve e p1 m4 = Some (p2, m5)"
      "accepted (socket_fd s) m5 = accepted (socket_fd s) m4 @ concat (map reply_bytes (cmds @ [''AT+QUIT'']))"
    using st(3) by auto
  have "demo_server e u m = Some (Inr (Exit 0), serial_destroy e p2 (server_destroy e srv m5))"
    using assms(1,2) a st(1) t d(1) by (simp add: demo_server_def)
  with d(2) st(7) show ?thesis by (simp add: release_keeps_accepted)
qed

text \<open>The client of the demo on the sample kernel, which counts the replies it has seen in \<open>sim_chunk\<close>.\<close>

definition rest_of_script :: "sim \<Rightarrow> string list" where
  "rest_of_script w = drop (Suc (sim_chunk w)) demo_script"

definition client_env :: "sim env" where
  "client_env = (peer_env (\<lambda>w d. []))\<lparr>
     k_send := (\<lambda>h d w. (int (length d), w\<lparr>sim_in := sim_in w @ next_command rest_of_script w d,
                           sim_chunk := (if ends_reply d then Suc (sim_chunk w) else sim_chunk w)\<rparr>))\<rparr>"

lemma client_env_waits: "waiting_client client_env h sim_in rest_of_script"
  by (auto simp: waiting_client_def stream_peer_def steady_def recv_bounded_def client_env_def peer_env_def sim_env_def
      rest_of_script_def Let_def)

lemma client_env_paced: "paced client_env h sim_in sim_clock 1000000"
  by (simp add: paced_def client_env_def peer_env_def sim_env_def Let_def)

definition server_boot :: "sim machine" where
  "server_boot = boot (sim_start\<lparr>sim_in := wire ''AT'', sim_chunk := 0\<rparr>)"

theorem demo_server_session_witness:
  "\<exists>m'. demo_server client_env uuid_serial_port server_boot = Some (Inr (Exit 0), m')
     \<and> accepted 4 m' = concat (map reply_bytes demo_script)"
proof -
  let ?listen = "server_listen_with_sdp client_env server_new uuid_serial_port ''FTDI Serial Service'' 0 4 server_boot"
  have v: "(case ?listen of ((r, srv), m1) \<Rightarrow> case server_accept client_env srv m1 of (s, m2) \<Rightarrow>
      (r, map_option socket_fd s, sim_in (world m2), sim_chunk (world m2), accepted 4 m2)) =
    (Inr True, Some 4, wire ''AT'', 0, [])"
    by code_simp
  obtain r srv m1 where l: "?listen = ((r, srv), m1)" by (metis prod.collapse)
  obtain so m2 where "server_accept client_env srv m1 = (so, m2)" by (metis prod.collapse)
  with v l obtain s where a: "r = Inr True" "server_accept client_env srv m1 = (Some s, m2)" "socket_fd s = 4"
    "sim_in (world m2) = wire ''AT''" "sim_chunk (world m2) = 0" "accepted 4 m2 = []"
    by (cases so) simp_all
  let ?cmds = "[''AT'', ''AT+INFO'', ''AT+PURGE'']"
  have all: "demo_script = ?cmds @ [''AT+QUIT'']" by (simp add: demo_script_def)
  have ok: "list_all session_command ?cmds" by (simp add: session_command_def LF_def)
  have time: "list_all (in_time 1000000) (?cmds @ [''AT+QUIT''])" by (simp add: in_time_def)
  have next_one: "?cmds @ [''AT+QUIT''] = ''AT'' # rest_of_script (world m2)" using a(5) by (simp add: rest_of_script_def demo_script_def)
  from demo_server_session [OF l [unfolded a(1)] a(2) client_env_waits client_env_paced ok time next_one a(4)] a(3,6) all
  show ?thesis by (simp only: append_Nil)
qed

end
