(* ===== verification/Bench_Session.thy ===== *)
theory Bench_Session
  imports Client_Bench_Facts Delivery
begin

text \<open>
  The echo mode of the benchmark client over a connection that works, with a peer that sends back as many bytes
  as it gets.
\<close>

section \<open>One chunk there and back\<close>

lemma chunk_there_and_back:
  assumes "stream_peer e (socket_fd s) inq answer" "socket_is_open s" "\<And>w d. length (answer w d) = length d"
    and "chunk \<noteq> []" "length buf = length chunk" "inq (world m) = []"
  obtains m1 m2 where "socket_send_all e s chunk m = (True, m1)" "socket_recv_all e s buf m1 = ((True, answer (world m) chunk), m2)"
    "inq (world m2) = []" "accepted (socket_fd s) m2 = accepted (socket_fd s) m @ chunk"
    "arrived (socket_fd s) m2 = arrived (socket_fd s) m @ answer (world m) chunk"
proof -
  obtain m1 where s: "socket_send_all e s chunk m = (True, m1)" "inq (world m1) = inq (world m) @ answer (world m) chunk"
    "accepted (socket_fd s) m1 = accepted (socket_fd s) m @ chunk"
    by (rule peer_send_all [OF assms(1,2,4)])
  have fits: "length buf \<le> length (inq (world m1))" using s(2) assms(3,5) by simp
  have whole: "take (length buf) (inq (world m1)) = answer (world m) chunk" "drop (length buf) (inq (world m1)) = []"
    using s(2) assms(3,5,6) by simp_all
  obtain m2 where r: "socket_recv_all e s buf m1 = ((True, answer (world m) chunk), m2)" "inq (world m2) = []"
    using recv_all_delivers [OF assms(1,2) fits] whole by metis
  have "arrived (socket_fd s) m2 = arrived (socket_fd s) m @ answer (world m) chunk"
    using socket_recv_all_effect [OF stream_peer_bounded [OF assms(1)] r(1)] send_all_keeps_arrived [OF s(1)]
      assms(3,5) by auto
  with that s r recv_all_keeps_accepted [OF r(1)] show ?thesis by metis
qed

section \<open>The whole transfer\<close>

text \<open>The number of chunks of \<open>k\<close> bytes that hold \<open>n\<close> bytes.\<close>

definition chunks_of :: "nat \<Rightarrow> nat \<Rightarrow> nat" where
  "chunks_of k n = (n + k - 1) div k"

lemma chunks_of_step:
  assumes "0 < k" "0 < n"
  shows "chunks_of k n = Suc (chunks_of k (n - min k n))"
proof -
  have "n + k - 1 = (n - 1) + k" using assms(2) by simp
  then have step: "chunks_of k n = Suc ((n - 1) div k)" unfolding chunks_of_def using assms(1) by (simp only: div_add_self2)
  show ?thesis
  proof (cases "n \<le> k")
    case True
    then have "(n - 1) div k = 0" "(k - 1) div k = 0" using assms by auto
    with True step show ?thesis by (simp add: chunks_of_def)
  next
    case False
    then have "n - k + k - 1 = n - 1" by simp
    with False step show ?thesis unfolding chunks_of_def by (simp only: min_def) simp
  qed
qed

lemma bench_transfer_echoed:
  assumes "stream_peer e (socket_fd s) inq answer" "socket_is_open s" "\<And>w d. length (answer w d) = length d" "tx \<noteq> []"
  shows "length rx = length tx \<Longrightarrow> length tx dvd sent \<or> sent = goal \<Longrightarrow> sent \<le> goal \<Longrightarrow> inq (world m) = [] \<Longrightarrow>
    \<exists>rtt' m' out got. bench_transfer e s True tx goal sent rx rtt m = Some ((goal, rtt'), m')
      \<and> inq (world m') = [] \<and> length rtt' = length rtt + chunks_of (length tx) (goal - sent)
      \<and> accepted (socket_fd s) m' = accepted (socket_fd s) m @ out \<and> bench_stream tx sent @ out = bench_stream tx goal
      \<and> arrived (socket_fd s) m' = arrived (socket_fd s) m @ got \<and> length got = goal - sent"
proof (induction "goal - sent" arbitrary: sent rx rtt m rule: less_induct)
  case less
  show ?case
  proof (cases "sent < goal")
    case False
    then have "bench_transfer e s True tx goal sent rx rtt m = Some ((goal, rtt), m)" "sent = goal"
      using less.prems(3) by (simp_all add: bench_transfer.simps)
    moreover have "chunks_of (length tx) 0 = 0" using assms(4) by (simp add: chunks_of_def)
    ultimately show ?thesis using less.prems(4) by simp
  next
    case True
    define cur where "cur = min (length tx) (goal - sent)"
    have cur: "0 < cur" "cur \<le> length tx" "sent + cur \<le> goal" using True assms(4) by (auto simp: cur_def)
    obtain t0 m0 where n0: "sys_now e m = (t0, m0)" by (metis prod.collapse)
    have len: "length (take cur rx) = length (take cur tx)" using less.prems(1) by simp
    have ne: "take cur tx \<noteq> []" using cur(1) assms(4) by simp
    have i0: "inq (world m0) = []" using peer_now [OF assms(1) n0] less.prems(4) by simp
    obtain m1 m2 where c: "socket_send_all e s (take cur tx) m0 = (True, m1)"
      "socket_recv_all e s (take cur rx) m1 = ((True, answer (world m0) (take cur tx)), m2)" "inq (world m2) = []"
      "accepted (socket_fd s) m2 = accepted (socket_fd s) m0 @ take cur tx"
      "arrived (socket_fd s) m2 = arrived (socket_fd s) m0 @ answer (world m0) (take cur tx)"
      by (rule chunk_there_and_back [OF assms(1,2,3) ne len i0])
    obtain t1 m3 where n1: "sys_now e m2 = (t1, m3)" by (metis prod.collapse)
    let ?rx = "overlay (answer (world m0) (take cur tx)) rx"
    have step: "bench_transfer e s True tx goal sent rx rtt m =
        bench_transfer e s True tx goal (sent + cur) ?rx (rtt @ [t1 - t0]) m3"
      by (subst bench_transfer.simps) (use True n0 c(1,2) n1 in \<open>simp add: Let_def flip: cur_def\<close>)
    have rx: "length ?rx = length tx" using less.prems(1) by (simp add: overlay_def)
    have bytes: "accepted (socket_fd s) m3 = accepted (socket_fd s) m @ take cur tx"
      "arrived (socket_fd s) m3 = arrived (socket_fd s) m @ answer (world m0) (take cur tx)" "inq (world m3) = []"
      using now_keeps_bytes [OF n0] now_keeps_bytes [OF n1] c(3-5) peer_now [OF assms(1) n1] by simp_all
    have dvd: "length tx dvd sent" using less.prems(2) True by auto
    have next_ok: "length tx dvd sent + cur \<or> sent + cur = goal"
      using dvd by (auto simp: cur_def min_def)
    have "goal - (sent + cur) < goal - sent" using cur(1) True by simp
    from less.hyps [OF this rx next_ok cur(3) bytes(3), of "rtt @ [t1 - t0]"] obtain rtt' m' out got where
      r: "bench_transfer e s True tx goal (sent + cur) ?rx (rtt @ [t1 - t0]) m3 = Some ((goal, rtt'), m')"
      "inq (world m') = []" "length rtt' = Suc (length rtt) + chunks_of (length tx) (goal - (sent + cur))"
      "accepted (socket_fd s) m' = accepted (socket_fd s) m3 @ out" "bench_stream tx (sent + cur) @ out = bench_stream tx goal"
      "arrived (socket_fd s) m' = arrived (socket_fd s) m3 @ got" "length got = goal - (sent + cur)"
      by auto
    have "chunks_of (length tx) (goal - sent) = Suc (chunks_of (length tx) (goal - (sent + cur)))"
      using chunks_of_step [of "length tx" "goal - sent"] True assms(4) by (simp add: cur_def)
    then have "length rtt' = length rtt + chunks_of (length tx) (goal - sent)" using r(3) by simp
    moreover have "bench_stream tx sent @ take cur tx @ out = bench_stream tx goal"
      using r(5) bench_stream_step [OF dvd cur(2)] by simp
    moreover have "length (answer (world m0) (take cur tx) @ got) = goal - sent" using r(7) cur assms(3) by simp
    ultimately show ?thesis
      using step r(1,2) bytes(1,2) r(4,6)
      by (intro exI [of _ rtt'] exI [of _ m'] exI [of _ "take cur tx @ out"] exI [of _ "answer (world m0) (take cur tx) @ got"]) simp
  qed
qed

text \<open>
  C31. An echo transfer of the benchmark client completes. Over a connection that works and with a peer that sends
  as many bytes back as it gets, the loop ends with the whole size counted; it has sent exactly the pattern, has
  received as many bytes, none is left over, and it has taken one round-trip sample per chunk. The bytes of the
  answers do not matter: they are never compared.
\<close>

theorem bench_echo_completes:
  assumes "stream_peer e (socket_fd s) inq answer" "socket_is_open s" "\<And>w d. length (answer w d) = length d"
    and "tx \<noteq> []" "length rx = length tx" "inq (world m) = []"
  shows "\<exists>rtt m' got. bench_transfer e s True tx goal 0 rx [] m = Some ((goal, rtt), m')
    \<and> inq (world m') = [] \<and> length rtt = chunks_of (length tx) goal
    \<and> accepted (socket_fd s) m' = accepted (socket_fd s) m @ bench_stream tx goal
    \<and> arrived (socket_fd s) m' = arrived (socket_fd s) m @ got \<and> length got = goal"
proof -
  have "bench_stream tx 0 = []" by (simp add: bench_stream_def)
  with bench_transfer_echoed [OF assms(1-5), of 0 goal m "[]"] assms(6) show ?thesis by auto
qed

theorem bench_echo_completes_witness:
  "\<exists>rtt m'. bench_transfer (peer_env (\<lambda>w. rev)) sample_socket True [1, 2, 3] 7 0 [0, 0, 0] [] (boot sim_start) = Some ((7, rtt), m')
     \<and> length rtt = 3 \<and> accepted 3 m' = [1, 2, 3, 1, 2, 3, 1]"
proof -
  have fd: "socket_fd sample_socket = 3" "accepted 3 (boot sim_start) = []" "sim_in (world (boot sim_start)) = []"
    "socket_is_open sample_socket" "bench_stream [1, 2, 3] 7 = [1, 2, 3, 1, 2, 3, 1]" "chunks_of (length [1, 2, 3 :: u8]) 7 = 3"
    by code_simp+
  from bench_echo_completes [OF peer_env_peer fd(4) _ _ _ fd(3), of "\<lambda>w. rev" "[1, 2, 3]" "[0, 0, 0]" 7] fd
  show ?thesis by auto
qed

end
