(* ===== verification/Serial_Demo_Safety.thy ===== *)
theory Serial_Demo_Safety
  imports Serial_Demo Program_Clean
begin

text \<open>Whatever mode the serial demo runs in, it has released everything when it ends.\<close>

section \<open>Turns of the loops\<close>

lemma sys_inv_read_line:
  "serial_read_line e p d t m = Some ((l, p'), m') \<Longrightarrow> sys_inv (OPort p # os, m) \<Longrightarrow> sys_inv (OPort p' # os, m')"
  by (rule sys_inv_call [OF api_call.port_read_line])

lemma sys_inv_write_line:
  "serial_write_line e p l eol m = (ok, m') \<Longrightarrow> sys_inv (OPort p # os, m) \<Longrightarrow> sys_inv (OPort p # os, m')"
  by (rule sys_inv_call [OF api_call.port_write_line])

lemma sys_inv_purge:
  "serial_purge e p fl m = Some (p', m') \<Longrightarrow> sys_inv (OPort p # os, m) \<Longrightarrow> sys_inv (OPort p' # os, m')"
  by (rule sys_inv_call [OF api_call.port_purge])

lemma sys_inv_world [simp]: "sys_inv (os, m\<lparr>world := w\<rparr>) = sys_inv (os, m)"
  by (simp add: sys_inv_def live_fds_def live_sessions_def published_def fds_respected_def sessions_respected_def)

lemma demo_command_owned:
  "demo_command e cmd p m = Some ((again, p'), m') \<Longrightarrow> sys_inv (OPort p # os, m) \<Longrightarrow> sys_inv (OPort p' # os, m')"
  by (auto simp: demo_command_def intro: sys_inv_write_line sys_inv_purge split: if_splits option.splits prod.splits)

lemma demo_serve_owned:
  assumes "demo_serve e p m = Some (p', m')" "sys_inv (OPort p # os, m)"
  shows "sys_inv (OPort p' # os, m')"
proof -
  have "sys_inv (OPort p # os, m) \<longrightarrow> sys_inv (OPort (fst (p', m')) # os, snd (p', m'))"
    using assms(1)
  proof (rule demo_serve.raw_induct [where P = "\<lambda>e p m y. sys_inv (OPort p # os, m) \<longrightarrow>
      sys_inv (OPort (fst y) # os, snd y)", rotated])
    fix rec e p y and m :: "'a machine"
    assume rec: "\<And>e p m y. rec e p m = Some y \<Longrightarrow> sys_inv (OPort p # os, m) \<longrightarrow> sys_inv (OPort (fst y) # os, snd y)"
      and turn: "(if \<not> serial_is_open p then Some (p, m)
        else case serial_read_line e p LF 5000 m of
          None \<Rightarrow> None
        | Some ((cmd, p), m) \<Rightarrow>
            if cmd = [] then if \<not> serial_is_open p then Some (p, m) else rec e p m
            else case demo_command e cmd p m of
                None \<Rightarrow> None
              | Some ((again, p), m) \<Rightarrow> if again then rec e p m else Some (p, m)) = Some y"
    show "sys_inv (OPort p # os, m) \<longrightarrow> sys_inv (OPort (fst y) # os, snd y)"
      using turn by (auto split: if_splits option.splits)
        (metis rec sys_inv_read_line demo_command_owned fst_conv snd_conv)+
  qed
  with assms(2) show ?thesis by simp
qed

lemma demo_answer_owned:
  assumes "demo_answer e p got m = Some ((l, p'), m')" "sys_inv (OPort p # os, m)"
  shows "sys_inv (OPort p' # os, m')"
proof -
  have "sys_inv (OPort p # os, m) \<longrightarrow> sys_inv (OPort (snd (fst ((l, p'), m'))) # os, snd ((l, p'), m'))"
    using assms(1)
  proof (rule demo_answer.raw_induct [where P = "\<lambda>e p got m y. sys_inv (OPort p # os, m) \<longrightarrow>
      sys_inv (OPort (snd (fst y)) # os, snd y)", rotated])
    fix rec e p got y and m :: "'a machine"
    assume rec: "\<And>e p got m y. rec e p got m = Some y \<Longrightarrow> sys_inv (OPort p # os, m) \<longrightarrow>
        sys_inv (OPort (snd (fst y)) # os, snd y)"
      and turn: "(case serial_read_line e p LF 2000 m of
          None \<Rightarrow> None
        | Some ((resp, p), m) \<Rightarrow>
            if resp = [] then Some ((got, p), m)
            else if ends_answer resp then Some ((got @ [resp], p), m)
            else rec e p (got @ [resp]) m) = Some y"
    show "sys_inv (OPort p # os, m) \<longrightarrow> sys_inv (OPort (snd (fst y)) # os, snd y)"
      using turn by (auto split: if_splits option.splits)
        (metis rec sys_inv_read_line fst_conv snd_conv)+
  qed
  with assms(2) show ?thesis by simp
qed

lemma demo_commands_owned:
  "demo_commands e sleep cmds p m = Some ((rs, p'), m') \<Longrightarrow> sys_inv (OPort p # os, m) \<Longrightarrow> sys_inv (OPort p' # os, m')"
proof (induction cmds arbitrary: p m rs)
  case (Cons cmd cmds)
  obtain ok m1 where w: "serial_write_line e p cmd CRLF m = (ok, m1)" by (metis prod.collapse)
  obtain n m2 where q: "serial_get_rx_queue_status e p (m1\<lparr>world := sleep 100 (world m1)\<rparr>) = (n, m2)"
    by (metis prod.collapse)
  obtain resps p3 m3 rest where a: "demo_answer e p [] m2 = Some ((resps, p3), m3)"
    "demo_commands e sleep cmds p3 m3 = Some ((rest, p'), m')"
    using Cons.prems(1) w q by (auto split: option.splits)
  have "sys_inv (OPort p # os, m1\<lparr>world := sleep 100 (world m1)\<rparr>)"
    using sys_inv_write_line [OF w Cons.prems(2)] by simp
  then have "sys_inv (OPort p # os, m2)" by (rule sys_inv_call [OF api_call.port_queue [OF q]])
  from Cons.IH [OF a(2) demo_answer_owned [OF a(1) this]] show ?case .
qed simp

section \<open>The two modes\<close>

lemma demo_server_owned:
  assumes "demo_server e u m = Some (Inr out, m')" "sys_inv ([], m)"
  shows "sys_inv ([], m')"
proof -
  obtain res srv m1 where l: "server_listen_with_sdp e server_new u ''FTDI Serial Service'' 0 4 m = ((res, srv), m1)"
    by (metis prod.collapse)
  obtain ok where ok: "res = Inr ok" using assms(1) l by (cases res) (auto simp: demo_server_def)
  have i1: "sys_inv ([OServ srv], m1)"
    using sys_inv_call [OF api_call.serv_listen_sdp [OF l [unfolded ok]] sys_inv_new(1) [OF assms(2)]] .
  have fin: "sys_inv ([], serial_destroy e p (server_destroy e srv m))" if "sys_inv ([OServ srv, OPort p], m)" for p m
    by (rule sys_inv_end_port [OF sys_inv_end_serv [OF that]])
  have fresh: "sys_inv ([OServ srv, OPort serial_new], m)" if "sys_inv ([OServ srv], m)" for m :: "'a machine"
    by (rule sys_inv_perm [OF sys_inv_new(2) [OF that]]) simp
  show ?thesis
  proof (cases ok)
    case False
    then have "m' = serial_destroy e serial_new (server_destroy e srv m1)"
      using assms(1) l ok by (simp add: demo_server_def)
    with fin [OF fresh [OF i1]] show ?thesis by simp
  next
    case True
    obtain r m2 where a: "server_accept e srv m1 = (r, m2)" by (metis prod.collapse)
    note i2 = sys_inv_accept [OF a i1]
    show ?thesis
    proof (cases r)
      case None
      then have "m' = serial_destroy e serial_new (server_destroy e srv m2)"
        using assms(1) l ok True a by (simp add: demo_server_def)
      with fin [OF fresh] i2 None show ?thesis by simp
    next
      case (Some s)
      obtain res3 p m3 where at: "serial_attach e serial_new (Some s) m2 = ((res3, p), m3)" by (metis prod.collapse)
      obtain b where b: "res3 = Inr b"
        using assms(1) l ok True a Some at by (cases res3) (auto simp: demo_server_def)
      have "sys_inv ([OPort serial_new, OSock s, OServ srv], m2)" using sys_inv_new(2) [of _ m2] i2 Some by simp
      then have i3: "sys_inv ([OPort p, OServ srv], m3)" using at b by (blast intro: sys_inv_attach)
      have swap: "sys_inv ([OServ srv, OPort q], m)" if "sys_inv ([OPort q, OServ srv], m)" for q and m :: "'a machine"
        by (rule sys_inv_perm [OF that]) simp
      show ?thesis
      proof (cases b)
        case False
        then have "m' = serial_destroy e p (server_destroy e srv m3)"
          using assms(1) l ok True a Some at b by (simp add: demo_server_def)
        with fin [OF swap [OF i3]] show ?thesis by simp
      next
        case bt: True
        obtain p4 m4 where t: "serial_set_timeouts e p 5000 5000 m3 = (p4, m4)" by (metis prod.collapse)
        obtain p5 m5 where v: "demo_serve e p4 m4 = Some (p5, m5)" "m' = serial_destroy e p5 (server_destroy e srv m5)"
          using assms(1) l ok True a Some at b bt t by (auto simp: demo_server_def)
        have "sys_inv ([OPort p4, OServ srv], m4)" by (rule sys_inv_call [OF api_call.port_timeouts [OF t] i3])
        with fin [OF swap [OF demo_serve_owned [OF v(1)]]] v(2) show ?thesis by simp
      qed
    qed
  qed
qed

lemma demo_client_owned:
  assumes "demo_client e sleep mac m = Some (Inr out, m')" "sys_inv ([], m)"
  shows "sys_inv ([], m')"
proof -
  obtain res p m1 where o: "serial_open_by_uuid_text e serial_new mac DEMO_UUID 10000 m = ((res, p), m1)"
    by (metis prod.collapse)
  obtain ok where ok: "res = Inr ok" using assms(1) o by (cases res) (auto simp: demo_client_def)
  have i1: "sys_inv ([OPort p], m1)"
    using sys_inv_call [OF api_call.port_open_text [OF o [unfolded ok]] sys_inv_new(2) [OF assms(2)]] .
  show ?thesis
  proof (cases ok)
    case False
    then show ?thesis using assms(1) o ok sys_inv_end_port [OF i1, of e] by (simp add: demo_client_def)
  next
    case True
    define p2 where "p2 = serial_set_data_characteristics Bits8 StopOne ParityNone (serial_set_baud_rate Baud115200 p)"
    obtain p3 m3 where t: "serial_set_timeouts e p2 3000 3000 m1 = (p3, m3)" by (metis prod.collapse)
    obtain rs p4 m4 where c: "demo_commands e sleep [''AT'', ''AT+INFO'', ''AT+PURGE'', ''AT+QUIT''] p3 m3
        = Some ((rs, p4), m4)"
      and m': "m' = (case serial_close e p4 m4 of (p, m) \<Rightarrow> serial_destroy e p m)"
      using assms(1) o ok True t
      by (auto simp: demo_client_def p2_def Let_def simp del: demo_commands.simps split: option.splits prod.splits)
    obtain p5 m5 where cl: "serial_close e p4 m4 = (p5, m5)" by (metis prod.collapse)
    have "sys_inv ([OPort p2], m1)"
      unfolding p2_def by (intro sys_inv_call [OF api_call.port_characteristics] sys_inv_call [OF api_call.port_baud] i1)
    then have "sys_inv ([OPort p3], m3)" by (rule sys_inv_call [OF api_call.port_timeouts [OF t]])
    then have "sys_inv ([OPort p4], m4)" by (rule demo_commands_owned [OF c])
    then have "sys_inv ([OPort p5], m5)" by (rule sys_inv_call [OF api_call.port_close [OF cl]])
    with m' cl show ?thesis by (simp add: sys_inv_end_port)
  qed
qed

text \<open>
  C29. When the serial demo ends, in either mode, with any arguments, over any environment and whatever the
  world does while it sleeps, it has released every descriptor and SDP session, withdrawn its published
  record, and used nothing after its release.
\<close>

theorem serial_demo_releases:
  assumes "serial_demo_main e sleep argv (boot w) = Some (Inr r, m')"
  shows "live_fds m' = {#} \<and> live_sessions m' = {#} \<and> published m' = {#}
    \<and> fds_respected m' \<and> sessions_respected m'"
proof -
  have start: "sys_inv ([], boot w)" by (rule sys_inv_start)
  have fresh: "sys_inv ([], serial_destroy e serial_new (boot w))"
    by (rule sys_inv_end_port [OF sys_inv_new(2) [OF start]])
  have "sys_inv ([], m')"
    using assms start fresh
    by (auto simp: serial_demo_main_def intro: demo_client_owned demo_server_owned
        split: if_splits sum.split_asm) (metis demo_server_owned [OF _ start] sum.exhaust)
  then show ?thesis by (simp add: sys_inv_def)
qed


text \<open>A client that cannot connect.\<close>

theorem serial_demo_releases_witness:
  "\<exists>m'. serial_demo_main sim_env (\<lambda>ms w. w) [''serial_port_demo'', ''client'', ''9C:C7:D3:F6:E6:A8'']
       (boot (sim_start\<lparr>sim_sdp_up := False\<rparr>)) = Some (Inr (Exit 1, []), m') \<and> live_fds m' = {#}"
proof -
  let ?r = "serial_demo_main sim_env (\<lambda>ms w. w) [''serial_port_demo'', ''client'', ''9C:C7:D3:F6:E6:A8'']
       (boot (sim_start\<lparr>sim_sdp_up := False\<rparr>))"
  have "map_option fst ?r = Some (Inr (Exit 1, []))" by code_simp
  then obtain m' where r: "?r = Some (Inr (Exit 1, []), m')" by (cases ?r) auto
  with serial_demo_releases [OF r] show ?thesis by auto
qed

end
