(* ===== verification/Chat_Echo.thy ===== *)
theory Chat_Echo
  imports Program_Args
begin

text \<open>
  \<open>examples/chat_echo.cpp\<close>: two threads over one socket. The main thread sends the lines of the standard
  input; a reader thread shows what arrives. They share the socket and the flag \<open>running\<close>. A step is
  one access to what they share: a test or a store of the flag, one \<open>send\<close> of \<open>send_all\<close>, the check that
  \<open>recv\<close> makes of the handle, the \<open>recv\<close> of the kernel that follows it, \<open>close\<close>. The messages shown are
  kept, the other console output is left out.
\<close>

section \<open>State\<close>

text \<open>Where the main thread is, from line 81 of the source on.\<close>

datatype main_pc =
    MTest
  | MRead
  | MSend "u8 list" nat
  | MStop
  | MClose
  | MJoin
  | MDone

text \<open>
  Where the reader thread is. \<open>RWait\<close> holds the handle that \<open>recv\<close> has passed to the kernel, \<open>RGot\<close> the
  result of \<open>recv\<close>.
\<close>

datatype reader_pc =
    RTest
  | RCall
  | RWait handle
  | RGot int
  | RDone

record 'w chat =
  ch_running :: bool
  ch_sock :: socket
  ch_input :: "string list"
  ch_main :: main_pc
  ch_reader :: reader_pc
  ch_buffer :: "u8 list"
  ch_shown :: "u8 list list"
  ch_machine :: "'w machine"

definition chat_start :: "socket \<Rightarrow> string list \<Rightarrow> 'w machine \<Rightarrow> 'w chat" where
  "chat_start sock input m =
     \<lparr>ch_running = True, ch_sock = sock, ch_input = input, ch_main = MTest, ch_reader = RTest,
      ch_buffer = replicate 4096 0, ch_shown = [], ch_machine = m\<rparr>"

section \<open>The threads\<close>

text \<open>\<open>None\<close> means that the thread is blocked or has ended.\<close>

definition main_step :: "'w env \<Rightarrow> 'w chat \<Rightarrow> 'w chat option" where
  "main_step e c =
     (case ch_main c of
        MTest \<Rightarrow> Some (c\<lparr>ch_main := if ch_running c then MRead else MStop\<rparr>)
      | MRead \<Rightarrow>
          Some (case ch_input c of
                  [] \<Rightarrow> c\<lparr>ch_main := MStop\<rparr>
                | line # rest \<Rightarrow>
                    if line = ''quit'' then c\<lparr>ch_input := rest, ch_running := False, ch_main := MStop\<rparr>
                    else c\<lparr>ch_input := rest, ch_main := MSend (map byte_of_char line) 0\<rparr>)
      | MSend data total_sent \<Rightarrow>
          Some (if total_sent < length data then
                  let (sent, m) = socket_send e (ch_sock c) (drop total_sent data) (ch_machine c)
                  in if sent \<le> 0 then c\<lparr>ch_machine := m, ch_main := MStop\<rparr>
                     else c\<lparr>ch_machine := m, ch_main := MSend data (total_sent + nat sent)\<rparr>
                else c\<lparr>ch_main := MTest\<rparr>)
      | MStop \<Rightarrow> Some (c\<lparr>ch_running := False, ch_main := MClose\<rparr>)
      | MClose \<Rightarrow>
          Some (let (s, m) = socket_close e (ch_sock c) (ch_machine c)
                in c\<lparr>ch_sock := s, ch_machine := m, ch_main := MJoin\<rparr>)
      | MJoin \<Rightarrow>
          if ch_reader c = RDone then
            Some (c\<lparr>ch_machine := socket_destroy e (ch_sock c) (ch_machine c), ch_main := MDone\<rparr>)
          else None
      | MDone \<Rightarrow> None)"

definition reader_step :: "'w env \<Rightarrow> 'w chat \<Rightarrow> 'w chat option" where
  "reader_step e c =
     (case ch_reader c of
        RTest \<Rightarrow> Some (c\<lparr>ch_reader := if ch_running c then RCall else RDone\<rparr>)
      | RCall \<Rightarrow>
          Some (c\<lparr>ch_reader := if \<not> socket_is_open (ch_sock c) \<or> ch_buffer c = [] then RGot 0
                               else RWait (socket_fd (ch_sock c))\<rparr>)
      | RWait h \<Rightarrow>
          Some (let ((r, data), m) = sys_recv e h (length (ch_buffer c)) (ch_machine c)
                in c\<lparr>ch_machine := m, ch_buffer := overlay data (ch_buffer c),
                     ch_reader := RGot (if 0 \<le> r then r else - 1)\<rparr>)
      | RGot r \<Rightarrow>
          Some (if r \<le> 0 then c\<lparr>ch_running := False, ch_reader := RDone\<rparr>
                else c\<lparr>ch_shown := ch_shown c @ [take (nat r) (ch_buffer c)], ch_reader := RTest\<rparr>)
      | RDone \<Rightarrow> None)"

text \<open>Any interleaving. The one step that waits for somebody outside is the return of the kernel's \<open>recv\<close>.\<close>

datatype actor = Main | Reader | Peer

inductive chat_step :: "'w env \<Rightarrow> actor \<Rightarrow> 'w chat \<Rightarrow> 'w chat \<Rightarrow> bool" for e where
  main: "main_step e c = Some c' \<Longrightarrow> chat_step e Main c c'"
| reader: "reader_step e c = Some c' \<Longrightarrow> (\<forall>h. ch_reader c \<noteq> RWait h) \<Longrightarrow> chat_step e Reader c c'"
| peer: "reader_step e c = Some c' \<Longrightarrow> ch_reader c = RWait h \<Longrightarrow> chat_step e Peer c c'"

definition chat_next :: "'w env \<Rightarrow> 'w chat \<Rightarrow> 'w chat \<Rightarrow> bool" where
  "chat_next e c c' \<longleftrightarrow> (\<exists>a. chat_step e a c c')"

inductive_simps main_step_iff [simp]: "chat_step e Main c c'"
inductive_simps reader_step_iff [simp]: "chat_step e Reader c c'"
inductive_simps peer_step_iff [simp]: "chat_step e Peer c c'"

lemma chat_next_iff: "chat_next e c c' \<longleftrightarrow> main_step e c = Some c' \<or> reader_step e c = Some c'"
proof
  assume "chat_next e c c'"
  then show "main_step e c = Some c' \<or> reader_step e c = Some c'"
    by (auto simp: chat_next_def elim: chat_step.cases)
next
  assume "main_step e c = Some c' \<or> reader_step e c = Some c'"
  then show "chat_next e c c'"
    unfolding chat_next_def by (meson chat_step.intros)
qed

section \<open>Before the threads\<close>

definition CHAT_UUID :: string where
  "CHAT_UUID = ''e3b0c442-98fc-1c14-9afe-4c9c2e0b5f13''"

text \<open>The socket, or how the program ends without one. The server object lives only until the connection.\<close>

definition chat_setup :: "'w env \<Rightarrow> string list \<Rightarrow> 'w machine \<Rightarrow> (ub + outcome + socket) \<times> 'w machine" where
  "chat_setup e argv m =
     (if length argv < 2 then (Inr (Inl (Exit 1)), m)
      else
        case uuid_parse CHAT_UUID of
          Inl x \<Rightarrow> (Inr (Inl (Uncaught (FromParse x))), m)
        | Inr u \<Rightarrow>
            if argv ! 1 = ''server'' then
              (case server_listen_with_sdp e server_new u
                      (if 2 < length argv then argv ! 2 else ''SimpleRFCOMM Chat'') 0 4 m of
                 ((Inl b, srv), m) \<Rightarrow> (Inl b, m)
               | ((Inr False, srv), m) \<Rightarrow> (Inr (Inl (Exit 1)), server_destroy e srv m)
               | ((Inr True, srv), m) \<Rightarrow>
                   (case server_accept e srv m of
                      (None, m) \<Rightarrow> (Inr (Inl (Exit 1)), server_destroy e srv m)
                    | (Some sock, m) \<Rightarrow> (Inr (Inr sock), server_destroy e srv m)))
            else if argv ! 1 = ''client'' then
              if length argv < 3 then (Inr (Inl (Exit 1)), m)
              else
                (case address_parse (argv ! 2) of
                   Inl x \<Rightarrow> (Inr (Inl (Uncaught (FromParse x))), m)
                 | Inr target \<Rightarrow>
                     (case client_connect_by_sdp e target u 10000 m of
                        (Inl b, m) \<Rightarrow> (Inl b, m)
                      | (Inr None, m) \<Rightarrow> (Inr (Inl (Exit 1)), m)
                      | (Inr (Some sock), m) \<Rightarrow> (Inr (Inr sock), m)))
            else (Inr (Inl (Exit 1)), m))"

end
