(* ===== verification/Chat_Echo_Facts.thy ===== *)
theory Chat_Echo_Facts
  imports Chat_Echo Server_Bench_Facts
begin

text \<open>
  What holds of the chat in every interleaving of its threads: what is sent, what is shown, that a run
  ends when the peer does, and what goes wrong when the socket is closed under the reader.
\<close>

section \<open>The steps of a send and of a receive are those of the library\<close>

text \<open>The main thread alone, from the start of a line.\<close>

lemma chat_send_steps:
  assumes "ch_main c = MSend d n"
  shows "(chat_step e Main)\<^sup>*\<^sup>* c
    (let (ok, m) = socket_send_all_loop e (ch_sock c) d n (ch_machine c)
     in c\<lparr>ch_machine := m, ch_main := if ok then MTest else MStop\<rparr>)"
  using assms
proof (induction e "ch_sock c" d n "ch_machine c" arbitrary: c rule: socket_send_all_loop.induct)
  case (1 e d n)
  obtain q m1 where q: "socket_send e (ch_sock c) (drop n d) (ch_machine c) = (q, m1)" by (metis prod.collapse)
  consider (go) "n < length d" "0 < q" | (fail) "n < length d" "q \<le> 0" | (fin) "\<not> n < length d" by linarith
  then show ?case
  proof cases
    case go
    let ?c = "c\<lparr>ch_machine := m1, ch_main := MSend d (n + nat q)\<rparr>"
    have "chat_step e Main c ?c" using go q "1.prems" by (simp add: main_step_def)
    moreover have "(chat_step e Main)\<^sup>*\<^sup>* ?c
        (let (ok, m) = socket_send_all_loop e (ch_sock c) d n (ch_machine c)
         in c\<lparr>ch_machine := m, ch_main := if ok then MTest else MStop\<rparr>)"
      using "1.hyps" [OF go(1) q [symmetric], of q ?c] go q
      by (simp add: socket_send_all_loop.simps [of e "ch_sock c" d n])
    ultimately show ?thesis by (rule converse_rtranclp_into_rtranclp)
  next
    case fail
    then have "chat_step e Main c (c\<lparr>ch_machine := m1, ch_main := MStop\<rparr>)"
      using q "1.prems" by (simp add: main_step_def)
    then show ?thesis using fail q by (simp add: socket_send_all_loop.simps [of e "ch_sock c" d n] r_into_rtranclp)
  next
    case fin
    then have "chat_step e Main c (c\<lparr>ch_main := MTest\<rparr>)" using "1.prems" by (simp add: main_step_def)
    moreover have "c\<lparr>ch_machine := ch_machine c, ch_main := MTest\<rparr> = c\<lparr>ch_main := MTest\<rparr>" by simp
    ultimately show ?thesis
      using fin by (simp add: socket_send_all_loop.simps [of e "ch_sock c" d n] r_into_rtranclp)
  qed
qed

text \<open>The reader alone, from the call of \<open>recv\<close> to its result.\<close>

lemma chat_recv_steps:
  assumes "ch_reader c = RCall"
  shows "(chat_next e)\<^sup>*\<^sup>* c
    (let ((r, b), m) = socket_recv e (ch_sock c) (ch_buffer c) (ch_machine c)
     in c\<lparr>ch_machine := m, ch_buffer := b, ch_reader := RGot r\<rparr>)"
proof (cases "\<not> socket_is_open (ch_sock c) \<or> ch_buffer c = []")
  case True
  then have "chat_next e c (c\<lparr>ch_reader := RGot 0\<rparr>)"
    using assms unfolding chat_next_iff by (auto simp: reader_step_def)
  then show ?thesis using True by (auto simp: socket_recv_def intro: r_into_rtranclp)
next
  case False
  let ?c = "c\<lparr>ch_reader := RWait (socket_fd (ch_sock c))\<rparr>"
  obtain r b m where rc: "socket_recv e (ch_sock c) (ch_buffer c) (ch_machine c) = ((r, b), m)" by (metis prod.collapse)
  have "chat_next e c ?c" using False assms unfolding chat_next_iff by (simp add: reader_step_def)
  moreover have "chat_next e ?c (c\<lparr>ch_machine := m, ch_buffer := b, ch_reader := RGot r\<rparr>)"
    using False rc unfolding chat_next_iff by (auto simp: reader_step_def socket_recv_def split: prod.splits if_splits)
  ultimately show ?thesis using rc by simp
qed

section \<open>Every run ends when the peer does\<close>

fun main_phase :: "main_pc \<Rightarrow> nat" where
  "main_phase (MSend d n) = 6"
| "main_phase MTest = 5"
| "main_phase MRead = 4"
| "main_phase MStop = 3"
| "main_phase MClose = 2"
| "main_phase MJoin = 1"
| "main_phase MDone = 0"

fun main_left :: "main_pc \<Rightarrow> nat" where
  "main_left (MSend d n) = length d - n"
| "main_left _ = 0"

fun reader_phase :: "reader_pc \<Rightarrow> nat" where
  "reader_phase (RGot r) = (if 0 < r then 5 else 1)"
| "reader_phase RTest = 4"
| "reader_phase RCall = 3"
| "reader_phase (RWait h) = 2"
| "reader_phase RDone = 0"

definition chat_rank :: "('w \<Rightarrow> nat) \<Rightarrow> 'w chat \<Rightarrow> nat \<times> nat \<times> nat \<times> nat \<times> nat" where
  "chat_rank f c = (f (world (ch_machine c)), length (ch_input c), main_phase (ch_main c),
     main_left (ch_main c), reader_phase (ch_reader c))"

abbreviation rank_order :: "((nat \<times> nat \<times> nat \<times> nat \<times> nat) \<times> nat \<times> nat \<times> nat \<times> nat \<times> nat) set" where
  "rank_order \<equiv> less_than <*lex*> less_than <*lex*> less_than <*lex*> less_than <*lex*> less_than"

lemma rank_sock_close:
  "peers_end e f \<Longrightarrow> socket_close e s m = (s', m') \<Longrightarrow> f (world m') \<le> f (world m)"
  by (auto simp: socket_close_def close_socket_handle_def rank_sys_close split: option.splits if_splits)

lemma main_step_falls:
  assumes "peers_end e f" "main_step e c = Some c'"
  shows "(chat_rank f c', chat_rank f c) \<in> rank_order"
proof (cases "ch_main c")
  case (MSend d n)
  obtain q m1 where q: "socket_send e (ch_sock c) (drop n d) (ch_machine c) = (q, m1)" by (metis prod.collapse)
  have "f (world m1) \<le> f (world (ch_machine c))" by (rule rank_send [OF assms(1) q])
  then show ?thesis
    using assms(2) MSend q by (auto simp: main_step_def chat_rank_def le_less split: if_splits)
next
  case MClose
  obtain s' m1 where q: "socket_close e (ch_sock c) (ch_machine c) = (s', m1)" by (metis prod.collapse)
  have "f (world m1) \<le> f (world (ch_machine c))" by (rule rank_sock_close [OF assms(1) q])
  then show ?thesis
    using assms(2) MClose q by (auto simp: main_step_def chat_rank_def le_less)
next
  case MJoin
  have "f (world (socket_destroy e (ch_sock c) (ch_machine c))) \<le> f (world (ch_machine c))"
    by (rule rank_close [OF assms(1)])
  then show ?thesis
    using assms(2) MJoin by (auto simp: main_step_def chat_rank_def le_less split: if_splits)
qed (use assms(2) in \<open>auto simp: main_step_def chat_rank_def split: if_splits list.splits\<close>)

lemma reader_step_falls:
  assumes "peers_end e f" "reader_step e c = Some c'"
  shows "(chat_rank f c', chat_rank f c) \<in> rank_order"
proof (cases "ch_reader c")
  case (RWait h)
  obtain r d w where k: "k_recv e h (length (ch_buffer c)) (world (ch_machine c)) = ((r, d), w)" by (metis prod.collapse)
  have "if 0 < r then f w < f (world (ch_machine c)) else f w \<le> f (world (ch_machine c))"
    using assms(1) k unfolding peers_end_def by (metis (no_types, lifting) case_prod_conv)
  then show ?thesis
    using assms(2) RWait k by (auto simp: reader_step_def chat_rank_def sys_recv_def le_less split: if_splits)
qed (use assms(2) in \<open>auto simp: reader_step_def chat_rank_def split: if_splits\<close>)

text \<open>
  What the program does by itself, while no \<open>recv\<close> of the kernel returns: it goes on for finitely many steps,
  whatever the environment.
\<close>

definition chat_own :: "'w env \<Rightarrow> 'w chat \<Rightarrow> 'w chat \<Rightarrow> bool" where
  "chat_own e c c' \<longleftrightarrow> chat_step e Main c c' \<or> chat_step e Reader c c'"

text \<open>Where the program may come to rest when it is left to itself.\<close>

definition chat_rests :: "'w env \<Rightarrow> 'w chat \<Rightarrow> 'w chat \<Rightarrow> bool" where
  "chat_rests e c c' \<longleftrightarrow> (chat_own e)\<^sup>*\<^sup>* c c' \<and> (\<forall>c''. \<not> chat_own e c' c'')"

definition own_rank :: "'w chat \<Rightarrow> nat \<times> nat \<times> nat \<times> nat" where
  "own_rank c = (length (ch_input c), main_phase (ch_main c), main_left (ch_main c), reader_phase (ch_reader c))"

abbreviation own_order :: "((nat \<times> nat \<times> nat \<times> nat) \<times> nat \<times> nat \<times> nat \<times> nat) set" where
  "own_order \<equiv> less_than <*lex*> less_than <*lex*> less_than <*lex*> less_than"

lemma chat_own_falls:
  assumes "chat_own e c c'"
  shows "(own_rank c', own_rank c) \<in> own_order"
  using assms unfolding chat_own_def
proof
  assume st: "chat_step e Main c c'"
  show ?thesis
    by (cases "ch_main c") (use st in \<open>auto simp: main_step_def own_rank_def split: if_splits list.splits prod.splits\<close>)
next
  assume st: "chat_step e Reader c c'"
  show ?thesis
    by (cases "ch_reader c") (use st in \<open>auto simp: reader_step_def own_rank_def split: if_splits\<close>)
qed

lemma chat_own_finite: "wf {(c', c). chat_own e c c'}"
proof (rule wf_subset)
  show "wf (inv_image own_order own_rank)"
    by (intro wf_inv_image wf_lex_prod wf_less_than)
  show "{(c', c). chat_own e c c'} \<subseteq> inv_image own_order own_rank"
    using chat_own_falls by (auto simp: inv_image_def)
qed

lemma chat_rests_exists: "\<exists>c'. chat_rests e c c'"
proof (induction c rule: wf_induct_rule [OF chat_own_finite [of e]])
  case (1 c)
  show ?case
  proof (cases "\<exists>d. chat_own e c d")
    case True
    then obtain d c' where "chat_own e c d" "chat_rests e d c'" using 1 by blast
    then show ?thesis unfolding chat_rests_def by (meson converse_rtranclp_into_rtranclp)
  qed (auto simp: chat_rests_def)
qed

lemma chat_next_finite:
  assumes "peers_end e f"
  shows "wf {(c', c). chat_next e c c'}"
proof -
  have "wf (inv_image rank_order (chat_rank f))" by (intro wf_inv_image wf_lex_prod wf_less_than)
  moreover have "{(c', c). chat_next e c c'} \<subseteq> inv_image rank_order (chat_rank f)"
    using main_step_falls [OF assms] reader_step_falls [OF assms] by (auto simp: chat_next_iff inv_image_def)
  ultimately show ?thesis by (rule wf_subset)
qed

section \<open>What is sent and what is shown\<close>

text \<open>The lines that are to be sent: those before the first \<open>quit\<close>.\<close>

definition typed :: "string list \<Rightarrow> u8 list" where
  "typed input = map byte_of_char (concat (takeWhile (\<lambda>l. l \<noteq> ''quit'') input))"

text \<open>The bytes that the reader holds but has not shown.\<close>

definition held :: "'w chat \<Rightarrow> u8 list" where
  "held c = (case ch_reader c of RGot r \<Rightarrow> take (nat r) (ch_buffer c) | _ \<Rightarrow> [])"

text \<open>What remains to be sent, while the main thread is in its loop.\<close>

fun unsent :: "main_pc \<Rightarrow> string list \<Rightarrow> u8 list option" where
  "unsent MTest input = Some (typed input)"
| "unsent MRead input = Some (typed input)"
| "unsent (MSend d n) input = Some (drop n d @ typed input)"
| "unsent _ input = None"

definition sent_so_far :: "socket \<Rightarrow> string list \<Rightarrow> 'w machine \<Rightarrow> 'w chat \<Rightarrow> bool" where
  "sent_so_far s input m c \<longleftrightarrow>
     (\<exists>sent rest. accepted (socket_fd s) (ch_machine c) = accepted (socket_fd s) m @ sent
        \<and> sent @ rest = typed input \<and> pred_option (\<lambda>todo. rest = todo) (unsent (ch_main c) (ch_input c)))"

definition shown_so_far :: "socket \<Rightarrow> 'w machine \<Rightarrow> 'w chat \<Rightarrow> bool" where
  "shown_so_far s m c \<longleftrightarrow>
     arrived (socket_fd s) (ch_machine c) = arrived (socket_fd s) m @ concat (ch_shown c) @ held c"

definition chat_shape :: "socket \<Rightarrow> 'w chat \<Rightarrow> bool" where
  "chat_shape s c \<longleftrightarrow>
     (if ch_main c = MJoin \<or> ch_main c = MDone then \<not> socket_is_open (ch_sock c) else ch_sock c = s)
     \<and> (\<forall>h. ch_reader c = RWait h \<longrightarrow> h = socket_fd s)
     \<and> (ch_main c = MDone \<longrightarrow> ch_reader c = RDone)"

lemma typed_simps [simp]:
  "typed [] = []" "typed (l # ls) = (if l = ''quit'' then [] else map byte_of_char l @ typed ls)"
  by (simp_all add: typed_def)

lemma sock_close_bytes:
  "socket_close e s m = (s', m') \<Longrightarrow> accepted h m' = accepted h m \<and> arrived h m' = arrived h m"
  by (auto simp: socket_close_def close_socket_handle_def sys_close_def split: option.splits if_splits)

lemma chat_shape_step:
  assumes "chat_next e c c'" "chat_shape s c"
  shows "chat_shape s c'"
  using assms(1) unfolding chat_next_iff
proof
  assume m: "main_step e c = Some c'"
  show ?thesis
    using m assms(2)
    by (cases "ch_main c") (auto simp: main_step_def chat_shape_def socket_close_result
        split: if_splits list.splits prod.splits dest: socket_close_result)
next
  assume r: "reader_step e c = Some c'"
  show ?thesis
    using r assms(2)
    by (cases "ch_reader c") (auto simp: reader_step_def chat_shape_def split: if_splits prod.splits)
qed

lemma sent_so_far_step:
  assumes "send_bounded e" "chat_next e c c'" "chat_shape s c" "sent_so_far s input m c"
  shows "sent_so_far s input m c'"
proof -
  obtain sent rest where sr: "accepted (socket_fd s) (ch_machine c) = accepted (socket_fd s) m @ sent"
    "sent @ rest = typed input" "pred_option (\<lambda>todo. rest = todo) (unsent (ch_main c) (ch_input c))"
    using assms(4) unfolding sent_so_far_def by blast
  have same: "sent_so_far s input m c'"
    if "accepted (socket_fd s) (ch_machine c') = accepted (socket_fd s) (ch_machine c)"
      "pred_option (\<lambda>todo. rest = todo) (unsent (ch_main c') (ch_input c'))"
    using sr that unfolding sent_so_far_def by auto
  from assms(2) show ?thesis
    unfolding chat_next_iff
  proof
    assume r: "reader_step e c = Some c'"
    then have "accepted (socket_fd s) (ch_machine c') = accepted (socket_fd s) (ch_machine c)"
      "ch_main c' = ch_main c" "ch_input c' = ch_input c"
      by (auto simp: reader_step_def sys_recv_def split: reader_pc.splits if_splits prod.splits)
    with same sr(3) show ?thesis by simp
  next
    assume st: "main_step e c = Some c'"
    show ?thesis
    proof (cases "ch_main c")
      case (MSend d n)
      obtain q m1 where q: "socket_send e (ch_sock c) (drop n d) (ch_machine c) = (q, m1)" by (metis prod.collapse)
      have s: "ch_sock c = s" using assms(3) MSend by (simp add: chat_shape_def)
      note eff = socket_send_effect [OF assms(1) q [unfolded s]]
      have "drop n d = take (nat q) (drop n d) @ drop (n + nat q) d"
        by (metis add.commute append_take_drop_id drop_drop)
      moreover have "rest = drop n d @ typed (ch_input c)" using sr(3) MSend by simp
      ultimately have rest: "rest = take (nat q) (drop n d) @ drop (n + nat q) d @ typed (ch_input c)"
        by (metis append.assoc)
      show ?thesis
      proof (cases "n < length d")
        case True
        then have "accepted (socket_fd s) (ch_machine c') = accepted (socket_fd s) m @ (sent @ take (nat q) (drop n d))"
          "unsent (ch_main c') (ch_input c') = (if q \<le> 0 then None else Some (drop (n + nat q) d @ typed (ch_input c)))"
          using st MSend q eff sr(1) by (auto simp: main_step_def)
        then show ?thesis
          unfolding sent_so_far_def using sr(2) rest
          by (intro exI [of _ "sent @ take (nat q) (drop n d)"] exI [of _ "drop (n + nat q) d @ typed (ch_input c)"]) simp
      next
        case False
        then show ?thesis using st MSend sr(3) same by (auto simp: main_step_def)
      qed
    next
      case MClose
      obtain s' m1 where q: "socket_close e (ch_sock c) (ch_machine c) = (s', m1)" by (metis prod.collapse)
      show ?thesis using st MClose q same sock_close_bytes [OF q] by (auto simp: main_step_def)
    next
      case MJoin
      obtain s' where "socket_close e (ch_sock c) (ch_machine c) = (s', socket_destroy e (ch_sock c) (ch_machine c))"
        by (metis prod.collapse socket_destroy_close)
      note q = sock_close_bytes [OF this]
      show ?thesis using st MJoin same q by (auto simp: main_step_def split: if_splits)
    qed (use st sr(3) same in \<open>auto simp: main_step_def split: if_splits list.splits\<close>)
  qed
qed


lemma shown_so_far_step:
  assumes "recv_bounded e" "chat_next e c c'" "chat_shape s c" "shown_so_far s m c"
  shows "shown_so_far s m c'"
  using assms(2) unfolding chat_next_iff
proof
  assume st: "main_step e c = Some c'"
  have snd: "arrived h m' = arrived h m" if "socket_send e s d m = (r, m')" for s d r h and m m' :: "'a machine"
    using that by (rule send_keeps_arrived)
  have des: "arrived h (socket_destroy e s m) = arrived h m" for s h and m :: "'a machine"
    using sock_close_bytes [of e s m "fst (socket_close e s m)" "socket_destroy e s m"] socket_destroy_close [of e s m]
    by (metis prod.collapse)
  have cl: "arrived h m' = arrived h m" if "socket_close e s m = (s', m')" for s s' h and m m' :: "'a machine"
    using sock_close_bytes [OF that] by blast
  have "arrived (socket_fd s) (ch_machine c') = arrived (socket_fd s) (ch_machine c)"
    using st snd des cl
    by (auto simp: main_step_def split: main_pc.splits if_splits list.splits prod.splits)
  moreover have "ch_shown c' = ch_shown c" "ch_reader c' = ch_reader c" "ch_buffer c' = ch_buffer c"
    using st by (auto simp: main_step_def split: main_pc.splits if_splits list.splits prod.splits)
  moreover from this have "held c' = held c" by (cases "ch_reader c") (simp_all add: held_def)
  ultimately show ?thesis using assms(4) by (simp add: shown_so_far_def)
next
  assume st: "reader_step e c = Some c'"
  show ?thesis
  proof (cases "ch_reader c")
    case (RWait h)
    obtain r d w where k: "k_recv e h (length (ch_buffer c)) (world (ch_machine c)) = ((r, d), w)" by (metis prod.collapse)
    have "if 0 < r then r = int (length d) \<and> length d \<le> length (ch_buffer c) else d = []"
      using recv_boundedD [OF assms(1) k] .
    moreover have "h = socket_fd s" using RWait assms(3) by (simp add: chat_shape_def)
    ultimately show ?thesis
      using st RWait k assms(4)
      by (auto simp: reader_step_def sys_recv_def shown_so_far_def held_def take_overlay split: if_splits)
  qed (use st assms(4) in \<open>auto simp: reader_step_def shown_so_far_def held_def split: if_splits\<close>)
qed

definition chat_inv :: "socket \<Rightarrow> string list \<Rightarrow> 'w machine \<Rightarrow> 'w chat \<Rightarrow> bool" where
  "chat_inv s input m c \<longleftrightarrow> chat_shape s c \<and> sent_so_far s input m c \<and> shown_so_far s m c"

lemma chat_reachable_inv:
  assumes "send_bounded e" "recv_bounded e" "(chat_next e)\<^sup>*\<^sup>* (chat_start s input m) c"
  shows "chat_inv s input m c"
  using assms(3)
proof (induction rule: rtranclp_induct)
  case base
  show ?case
    by (auto simp: chat_inv_def chat_shape_def sent_so_far_def shown_so_far_def held_def chat_start_def)
next
  case (step c c')
  then show ?case
    using chat_shape_step sent_so_far_step [OF assms(1)] shown_so_far_step [OF assms(2)]
    unfolding chat_inv_def by blast
qed

text \<open>A run given by its schedule: \<open>True\<close> lets the main thread go, \<open>False\<close> the reader.\<close>

fun chat_run :: "'w env \<Rightarrow> bool list \<Rightarrow> 'w chat \<Rightarrow> 'w chat option" where
  "chat_run e [] c = Some c"
| "chat_run e (b # bs) c = (case (if b then main_step e c else reader_step e c) of
     None \<Rightarrow> None | Some c' \<Rightarrow> chat_run e bs c')"

lemma chat_run_reaches: "chat_run e bs c = Some c' \<Longrightarrow> (chat_next e)\<^sup>*\<^sup>* c c'"
proof (induction bs arbitrary: c)
  case (Cons b bs)
  then obtain c1 where "chat_next e c c1" "chat_run e bs c1 = Some c'"
    by (cases b) (auto simp: chat_next_iff split: option.splits)
  with Cons.IH show ?case by (meson converse_rtranclp_into_rtranclp)
qed simp

text \<open>
  C21. In every interleaving of the chat's threads: what has been put on the wire is a prefix of the typed
  lines before the first \<open>quit\<close>, in order, each byte once; the messages shown, with what the reader still
  holds, are exactly the bytes that have arrived; and when the main thread has ended, the reader has ended
  before, the socket is closed and everything that arrived has been shown.
\<close>

theorem chat_transparent:
  assumes "send_bounded e" "recv_bounded e" "(chat_next e)\<^sup>*\<^sup>* (chat_start s input m) c"
  shows "\<exists>sent. accepted (socket_fd s) (ch_machine c) = accepted (socket_fd s) m @ sent \<and> prefix sent (typed input)
    \<and> arrived (socket_fd s) (ch_machine c) = arrived (socket_fd s) m @ concat (ch_shown c) @ held c
    \<and> (ch_main c = MDone \<longrightarrow> ch_reader c = RDone \<and> \<not> socket_is_open (ch_sock c) \<and> held c = [])"
proof -
  have inv: "chat_shape s c" "sent_so_far s input m c" "shown_so_far s m c"
    using chat_reachable_inv [OF assms] by (simp_all add: chat_inv_def)
  obtain sent where "accepted (socket_fd s) (ch_machine c) = accepted (socket_fd s) m @ sent" "prefix sent (typed input)"
    using inv(2) by (auto simp: sent_so_far_def intro: prefixI [OF sym])
  moreover have "ch_main c = MDone \<longrightarrow> ch_reader c = RDone \<and> \<not> socket_is_open (ch_sock c) \<and> held c = []"
    using inv(1) by (auto simp: chat_shape_def held_def)
  ultimately show ?thesis using inv(3) unfolding shown_so_far_def by blast
qed


theorem chat_transparent_witness:
  "\<exists>c. (chat_next sim_env)\<^sup>*\<^sup>* (chat_start sample_socket [''hi'', ''quit''] (boot (sim_start\<lparr>sim_in := [65, 66]\<rparr>))) c
     \<and> ch_main c = MDone \<and> ch_reader c = RDone \<and> ch_shown c = [[65, 66]]
     \<and> arrived 3 (ch_machine c) = [65, 66] \<and> accepted 3 (ch_machine c) = [104, 105]"
proof -
  let ?c = "chat_start sample_socket [''hi'', ''quit''] (boot (sim_start\<lparr>sim_in := [65, 66]\<rparr>))"
  let ?r = "chat_run sim_env [False, True, False, True, False, True, False, False, False, True, True, True, True, True,
    False, False, True] ?c"
  have positive: "(0 :: handle) \<le>s 3" by code_simp
  have "map_option (\<lambda>c. (ch_main c, ch_shown c, accepted 3 (ch_machine c))) ?r = Some (MDone, [[65, 66]], [104, 105])"
    by (simp add: main_step_def reader_step_def chat_start_def sample_socket_def socket_is_open_def socket_fd_def
        socket_send_def socket_close_def socket_destroy_def socket_impl_destroy_def close_socket_handle_def sys_defs
        positive sim_env_def sim_start_def boot_def overlay_def accepted_def INVALID_SOCKET_HANDLE_def byte_of_char_def Let_def)
  then obtain c where c: "?r = Some c" "ch_main c = MDone" "ch_shown c = [[65, 66]]" "accepted 3 (ch_machine c) = [104, 105]"
    by auto
  have "socket_fd sample_socket = 3" "arrived 3 (boot (sim_start\<lparr>sim_in := [65, 66]\<rparr>)) = []" by code_simp+
  with chat_transparent [OF _ _ chat_run_reaches [OF c(1)]] chat_run_reaches [OF c(1)] c show ?thesis
    by (auto intro!: exI [of _ c])
qed

section \<open>Closing under the reader\<close>

text \<open>The reader is about to receive; the main thread closes; the reader receives.\<close>

lemma chat_race:
  assumes "socket_is_open s" "socket_valid s" "live_fds m = socket_holds s"
  obtains c where "chat_run e [False, False, True, True, True, True, False] (chat_start s [] m) = Some c"
    "\<not> fds_respected (ch_machine c)"
proof -
  obtain s' m1 where cl: "socket_close e s m = (s', m1)" by (metis prod.collapse)
  have "live_fds m1 = {#}" using socket_close_live [OF cl] assms(3) by simp
  moreover obtain r d w where "k_recv e (socket_fd s) 4096 (world m1) = ((r, d), w)" by (metis prod.collapse)
  ultimately show ?thesis
    using that assms(1) cl
    by (simp add: reader_step_def main_step_def chat_start_def sys_recv_def)
qed

text \<open>
  C23. Closing the socket while the reader is in \<open>recv\<close> is a use after close. Whatever the environment, a chat that
  starts with an open socket it owns has an interleaving in which the reader's \<open>recv\<close> goes to a descriptor
  that the main thread has closed in the meantime: the end of the input is enough.
\<close>

theorem chat_recv_after_close:
  assumes "socket_is_open s" "socket_valid s" "live_fds m = socket_holds s" "fds_respected m"
  shows "\<exists>c. (chat_next e)\<^sup>*\<^sup>* (chat_start s [] m) c \<and> \<not> fds_respected (ch_machine c)"
  using chat_race [OF assms(1-3)] chat_run_reaches by metis

theorem chat_recv_after_close_witness:
  "\<exists>c. (chat_next sim_env)\<^sup>*\<^sup>* (chat_start sample_socket [] (emit (EvSocket 3) sim_start (boot sim_start))) c
     \<and> \<not> fds_respected (ch_machine c)"
proof (rule chat_recv_after_close)
  show "socket_is_open sample_socket" "socket_valid sample_socket" "fds_respected (emit (EvSocket 3) sim_start (boot sim_start))"
    "live_fds (emit (EvSocket 3) sim_start (boot sim_start)) = socket_holds sample_socket" by code_simp+
qed

text \<open>
  The join waits for the peer. Once the reader has handed its \<open>recv\<close> to the kernel, nothing that the
  program does, closing the socket included, brings the main thread to its end before that \<open>recv\<close> returns.
\<close>

theorem chat_join_waits:
  assumes "(\<lambda>c c'. chat_step e Main c c' \<or> chat_step e Reader c c')\<^sup>*\<^sup>* c c'" "ch_reader c = RWait h" "ch_main c \<noteq> MDone"
  shows "ch_reader c' = RWait h \<and> ch_main c' \<noteq> MDone"
  using assms(1)
proof (induction rule: rtranclp_induct)
  case base
  with assms show ?case by simp
next
  case (step c1 c2)
  then show ?case
    by (auto simp: main_step_def reader_step_def split: main_pc.splits if_splits list.splits prod.splits)
qed


theorem chat_join_waits_witness:
  "\<exists>c. chat_run sim_env [False, False, True, True, True, True] (chat_start sample_socket [] (boot sim_start)) = Some c
     \<and> ch_reader c = RWait 3 \<and> ch_main c = MJoin \<and> \<not> socket_is_open (ch_sock c)
     \<and> (\<forall>c'. (\<lambda>c c'. chat_step sim_env Main c c' \<or> chat_step sim_env Reader c c')\<^sup>*\<^sup>* c c' \<longrightarrow> ch_main c' \<noteq> MDone)"
proof -
  let ?r = "chat_run sim_env [False, False, True, True, True, True] (chat_start sample_socket [] (boot sim_start))"
  have "map_option (\<lambda>c. (ch_reader c, ch_main c, socket_is_open (ch_sock c))) ?r = Some (RWait 3, MJoin, False)"
    by (simp add: main_step_def reader_step_def chat_start_def sample_socket_def socket_close_def socket_is_open_def
        socket_fd_def INVALID_SOCKET_HANDLE_def)
  then obtain c where c: "?r = Some c" "ch_reader c = RWait 3" "ch_main c = MJoin" "\<not> socket_is_open (ch_sock c)" by auto
  then have "ch_main c \<noteq> MDone" by simp
  with c show ?thesis using chat_join_waits [of sim_env c _ 3] by blast
qed

section \<open>How the chat ends\<close>

text \<open>The flag is down once the main thread has left its loop.\<close>

definition chat_down :: "'w chat \<Rightarrow> bool" where
  "chat_down c \<longleftrightarrow> (ch_main c \<in> {MClose, MJoin, MDone} \<longrightarrow> \<not> ch_running c)"

lemma chat_down_step:
  assumes "chat_next e c c'" "chat_down c"
  shows "chat_down c'"
  using assms(1) unfolding chat_next_iff
proof
  assume st: "main_step e c = Some c'"
  show ?thesis
    by (cases "ch_main c") (use st assms(2) in \<open>auto simp: chat_down_def main_step_def split: if_splits list.splits prod.splits\<close>)
next
  assume st: "reader_step e c = Some c'"
  show ?thesis
    by (cases "ch_reader c") (use st assms(2) in \<open>auto simp: chat_down_def reader_step_def split: if_splits prod.splits\<close>)
qed

lemma chat_reachable_shape:
  assumes "(chat_next e)\<^sup>*\<^sup>* (chat_start s input m) c"
  shows "chat_shape s c \<and> chat_down c"
  using assms
proof (induction rule: rtranclp_induct)
  case base
  show ?case by (simp add: chat_shape_def chat_down_def chat_start_def)
next
  case (step c c')
  then show ?case using chat_shape_step chat_down_step by blast
qed

lemma chat_own_next: "(chat_own e)\<^sup>*\<^sup>* c c' \<Longrightarrow> (chat_next e)\<^sup>*\<^sup>* c c'"
  by (erule rtranclp_mono [THEN predicate2D, rotated]) (auto simp: chat_own_def chat_next_iff)

lemma chat_rest_iff:
  "(\<forall>c'. \<not> chat_own e c c') \<longleftrightarrow>
     (ch_main c = MDone \<or> ch_main c = MJoin \<and> ch_reader c \<noteq> RDone) \<and> (ch_reader c = RDone \<or> (\<exists>h. ch_reader c = RWait h))"
proof -
  have "main_step e c = None \<longleftrightarrow> ch_main c = MDone \<or> ch_main c = MJoin \<and> ch_reader c \<noteq> RDone"
    by (auto simp: main_step_def split: main_pc.split)
  moreover have "reader_step e c = None \<longleftrightarrow> ch_reader c = RDone"
    by (auto simp: reader_step_def split: reader_pc.split)
  ultimately show ?thesis unfolding chat_own_def main_step_iff reader_step_iff by (metis not_None_eq)
qed

text \<open>After the \<open>recv\<close> that the join waited for, the reader does not call \<open>recv\<close> again.\<close>

definition chat_joining :: "'w chat \<Rightarrow> bool" where
  "chat_joining c \<longleftrightarrow> ch_main c \<in> {MJoin, MDone} \<and> \<not> ch_running c \<and> ch_reader c \<notin> {RCall} \<union> range RWait"

lemma chat_joining_own: "(chat_own e)\<^sup>*\<^sup>* c c' \<Longrightarrow> chat_joining c \<Longrightarrow> chat_joining c'"
proof (induction rule: rtranclp_induct)
  case (step c1 c2)
  then show ?case
    by (auto simp: chat_own_def chat_joining_def main_step_def reader_step_def
        split: reader_pc.splits if_splits prod.splits)
qed

text \<open>
  C22. How the chat ends, from any state that it reaches. While the peer is silent the program makes finitely many
  steps and then rests, either at its end, with the reader joined, or in the join, with the reader still in
  \<open>recv\<close>; the latter is where it must come to rest when the reader is already in \<open>recv\<close>, whatever the user types.
  From there, one return of \<open>recv\<close> brings it to its end in every interleaving. When peers send finitely much, no
  interleaving is infinite.
\<close>

theorem chat_ends:
  assumes "(chat_next e)\<^sup>*\<^sup>* (chat_start s input m) c"
  shows "wf {(c', c). chat_own e c c'}
    \<and> (\<forall>c'. chat_rests e c c' \<longrightarrow> ch_main c' = MDone \<and> ch_reader c' = RDone
         \<or> ch_main c' = MJoin \<and> ch_reader c' = RWait (socket_fd s) \<and> \<not> ch_running c' \<and> \<not> socket_is_open (ch_sock c'))
    \<and> (\<forall>c' h. ch_reader c = RWait h \<and> chat_rests e c c' \<longrightarrow> ch_main c' = MJoin \<and> ch_reader c' = RWait h)
    \<and> (\<forall>c1 c2 c'. chat_rests e c c1 \<and> chat_step e Peer c1 c2 \<and> chat_rests e c2 c' \<longrightarrow> ch_main c' = MDone)
    \<and> (peers_end e f \<longrightarrow> wf {(c', c). chat_next e c c'})"
proof (intro conjI allI impI)
  fix c' assume "chat_rests e c c'"
  then have r: "chat_shape s c'" "chat_down c'" "\<forall>c''. \<not> chat_own e c' c''"
    using chat_reachable_shape [of e s input m c'] rtranclp_trans [OF assms chat_own_next] by (auto simp: chat_rests_def)
  then show "ch_main c' = MDone \<and> ch_reader c' = RDone
      \<or> ch_main c' = MJoin \<and> ch_reader c' = RWait (socket_fd s) \<and> \<not> ch_running c' \<and> \<not> socket_is_open (ch_sock c')"
    unfolding chat_rest_iff by (auto simp: chat_shape_def chat_down_def)
next
  fix c' h assume w: "ch_reader c = RWait h \<and> chat_rests e c c'"
  then have "ch_main c \<noteq> MDone" using chat_reachable_shape [OF assms] by (auto simp: chat_shape_def)
  with w have "ch_reader c' = RWait h \<and> ch_main c' \<noteq> MDone" "\<forall>c''. \<not> chat_own e c' c''"
    using chat_join_waits [of e c c' h] by (simp_all add: chat_rests_def chat_own_def [abs_def])
  then show "ch_main c' = MJoin" "ch_reader c' = RWait h" unfolding chat_rest_iff by auto
next
  fix c1 c2 c' assume w: "chat_rests e c c1 \<and> chat_step e Peer c1 c2 \<and> chat_rests e c2 c'"
  then obtain h where h: "ch_reader c1 = RWait h" "reader_step e c1 = Some c2" "ch_main c1 \<noteq> MDone" "chat_down c1"
    using chat_reachable_shape [of e s input m c1] rtranclp_trans [OF assms chat_own_next]
    by (auto simp: chat_rests_def chat_shape_def)
  then have "ch_main c1 = MJoin" using w unfolding chat_rests_def chat_rest_iff by auto
  with h have "chat_joining c2" by (auto simp: chat_joining_def chat_down_def reader_step_def split: prod.splits)
  then have "chat_joining c'" using w chat_joining_own by (auto simp: chat_rests_def)
  then show "ch_main c' = MDone" using w unfolding chat_rests_def chat_rest_iff by (auto simp: chat_joining_def)
qed (rule chat_own_finite, rule chat_next_finite)

theorem chat_ends_witness:
  "\<exists>c c1 c2. (chat_next visited_env)\<^sup>*\<^sup>* (chat_start sample_socket [''quit''] (boot sim_start)) c \<and> ch_reader c = RWait 3
     \<and> chat_rests visited_env c c1 \<and> ch_main c1 = MJoin \<and> chat_step visited_env Peer c1 c2
     \<and> (\<exists>c'. chat_rests visited_env c2 c' \<and> ch_main c' = MDone)
     \<and> wf {(c', c). chat_next visited_env c c'}"
proof -
  let ?s = "chat_start sample_socket [''quit''] (boot sim_start)"
  have "map_option ch_reader (chat_run visited_env [False, False] ?s) = Some (RWait 3)"
    by (simp add: reader_step_def chat_start_def sample_socket_def socket_is_open_def socket_fd_def INVALID_SOCKET_HANDLE_def)
  then obtain c where c: "(chat_next visited_env)\<^sup>*\<^sup>* ?s c" "ch_reader c = RWait 3" using chat_run_reaches by blast
  obtain c1 where c1: "chat_rests visited_env c c1" using chat_rests_exists by blast
  note ends = chat_ends [OF c(1)]
  have j: "ch_main c1 = MJoin" "ch_reader c1 = RWait 3" using ends c(2) c1 by blast+
  obtain c2 where c2: "reader_step visited_env c1 = Some c2" using j(2) by (simp add: reader_step_def)
  then have p: "chat_step visited_env Peer c1 c2" using j(2) by simp
  obtain c' where c': "chat_rests visited_env c2 c'" using chat_rests_exists by blast
  then have "ch_main c' = MDone" using ends c1 p by blast
  moreover have "wf {(c', c). chat_next visited_env c c'}"
    using chat_ends [OF c(1), of visited_rank] visited_env_ends(1) by blast
  ultimately show ?thesis using c c1 j p c' by blast
qed

section \<open>Ownership\<close>

definition chat_ledger :: "socket \<Rightarrow> 'w chat \<Rightarrow> bool" where
  "chat_ledger s c \<longleftrightarrow>
     live_fds (ch_machine c) = (if ch_main c = MJoin \<or> ch_main c = MDone then {#} else socket_holds s)
     \<and> live_sessions (ch_machine c) = {#} \<and> published (ch_machine c) = {#}"

lemma chat_ledger_step:
  assumes "chat_next e c c'" "chat_shape s c" "chat_ledger s c"
  shows "chat_ledger s c'"
  using assms(1) unfolding chat_next_iff
proof
  assume st: "reader_step e c = Some c'"
  have "live_fds m' = live_fds m \<and> live_sessions m' = live_sessions m \<and> published m' = published m"
    if "sys_recv e h n m = (r, m')" for h n r and m m' :: "'a machine"
    using that by (auto simp: sys_recv_def split: prod.splits)
  with st assms(3) show ?thesis
    by (auto simp: reader_step_def chat_ledger_def split: reader_pc.splits if_splits prod.splits)
next
  assume st: "main_step e c = Some c'"
  show ?thesis
  proof (cases "ch_main c")
    case (MSend d n)
    obtain q m1 where q: "socket_send e (ch_sock c) (drop n d) (ch_machine c) = (q, m1)" by (metis prod.collapse)
    show ?thesis
      using st MSend q assms(3) via_frame [OF via_send [OF q]]
      by (auto simp: main_step_def chat_ledger_def split: if_splits)
  next
    case MClose
    obtain s' m1 where q: "socket_close e (ch_sock c) (ch_machine c) = (s', m1)" by (metis prod.collapse)
    show ?thesis
      using st MClose q assms(2,3) socket_close_live [OF q] socket_close_same_sdp [OF q]
      by (auto simp: main_step_def chat_ledger_def chat_shape_def same_sdp_def)
  next
    case MJoin
    then have "socket_destroy e (ch_sock c) (ch_machine c) = ch_machine c"
      using assms(2) closed_socket_inert(8) [of "ch_sock c"] by (simp add: chat_shape_def)
    then show ?thesis using st MJoin assms(3) by (auto simp: main_step_def chat_ledger_def split: if_splits)
  qed (use st assms(3) in \<open>auto simp: main_step_def chat_ledger_def split: if_splits list.splits\<close>)
qed

lemma chat_reachable_ledger:
  assumes "(chat_next e)\<^sup>*\<^sup>* (chat_start s input m) c" "sys_inv ([OSock s], m)"
  shows "chat_shape s c \<and> chat_ledger s c"
  using assms(1)
proof (induction rule: rtranclp_induct)
  case base
  show ?case using assms(2) by (auto simp: chat_shape_def chat_ledger_def chat_start_def sys_inv_def)
next
  case (step c c')
  then show ?case using chat_shape_step chat_ledger_step by blast
qed

lemma chat_setup_owned:
  assumes "chat_setup e argv m = (Inr r, m')" "sys_inv ([], m)"
  shows "sys_inv ((case r of Inl out \<Rightarrow> [] | Inr s \<Rightarrow> [OSock s]), m')"
proof -
  have listen: "sys_inv ([OServ srv], m1)" if "server_listen_with_sdp e server_new u nm ch n m = ((Inr ok, srv), m1)"
    for u nm ch n ok srv m1
    by (rule sys_inv_call [OF api_call.serv_listen_sdp [OF that] sys_inv_new(1) [OF assms(2)]])
  have acc: "sys_inv ((case r of None \<Rightarrow> [] | Some s \<Rightarrow> [OSock s]), server_destroy e srv m2)"
    if "server_accept e srv m1 = (r, m2)" "sys_inv ([OServ srv], m1)" for srv m1 m2 r
  proof -
    have "sys_inv (OServ srv # (case r of None \<Rightarrow> [] | Some s \<Rightarrow> [OSock s]), m2)"
      by (rule sys_inv_perm [OF sys_inv_accept [OF that]]) simp
    then show ?thesis by (rule sys_inv_end_serv)
  qed
  have conn: "sys_inv ((case r of None \<Rightarrow> [] | Some s \<Rightarrow> [OSock s]), m1)"
    if "client_connect_by_sdp e a u t m = (Inr r, m1)" for a u t r m1
    using sys_inv_connect_by_sdp [OF that assms(2)] by simp
  show ?thesis
    using assms(1,2)
    by (auto simp: chat_setup_def split: if_splits sum.splits prod.splits option.splits bool.splits
        dest!: listen conn dest: sys_inv_end_serv acc)
qed

text \<open>A run of both threads to the end: one message is sent, and the peer hangs up after \<open>quit\<close>.\<close>

definition chat_schedule :: "bool list" where
  "chat_schedule = [False, True, False, True, True, True, True, True, True, True, False, False, True]"

lemma sim_env_simps:
  "k_send sim_env h d w = (int (min (length d) (sim_chunk w)), w)"
  "k_recv sim_env h n w = ((int (length (take (min n (sim_chunk w)) (sim_in w))), take (min n (sim_chunk w)) (sim_in w)),
     w\<lparr>sim_in := drop (length (take (min n (sim_chunk w)) (sim_in w))) (sim_in w)\<rparr>)"
  by (simp_all add: sim_env_def Let_def)

lemma chat_sim_session:
  assumes "socket_is_open s" "sim_in (world m) = []" "sim_chunk (world m) = 2"
  obtains c where "chat_run sim_env chat_schedule (chat_start s [''hi'', ''quit''] m) = Some c" "ch_main c = MDone"
proof -
  let ?r = "chat_run sim_env chat_schedule (chat_start s [''hi'', ''quit''] m)"
  obtain im where im: "s = Socket (Some im)" using assms(1) by (cases s) (auto simp: socket_is_open_def split: option.splits)
  have "sim_in (world (snd (socket_close sim_env s m'))) = sim_in (world m')" for m'
    by (simp add: im socket_close_def close_socket_handle_def sys_close_def sim_env_def Let_def)
  then have quiet: "socket_close sim_env s m' = (s', m'') \<Longrightarrow> sim_in (world m'') = sim_in (world m')" for m' s' m''
    by (metis snd_conv)
  have "map_option ch_main ?r = Some MDone"
    using assms
    by (simp add: chat_schedule_def main_step_def reader_step_def chat_start_def socket_send_def sys_send_def sys_recv_def
        sim_env_simps byte_of_char_def Let_def split: prod.split) (auto dest!: quiet)
  then show ?thesis using that by auto
qed

text \<open>
  C24. When the chat ends, in any mode, after any interleaving of its threads, it has released its socket, and
  the service of a server is no longer published: nothing the program acquired is left.
\<close>

theorem chat_releases:
  assumes "chat_setup e argv (boot w) = (Inr r, m)"
    and "case r of Inl out \<Rightarrow> m' = m
      | Inr s \<Rightarrow> \<exists>c. (chat_next e)\<^sup>*\<^sup>* (chat_start s input m) c \<and> ch_main c = MDone \<and> m' = ch_machine c"
  shows "live_fds m' = {#} \<and> live_sessions m' = {#} \<and> published m' = {#}"
proof (cases r)
  case (Inl out)
  then show ?thesis using chat_setup_owned [OF assms(1) sys_inv_start] assms(2) by (simp add: sys_inv_def)
next
  case (Inr s)
  then obtain c where c: "(chat_next e)\<^sup>*\<^sup>* (chat_start s input m) c" "ch_main c = MDone" "m' = ch_machine c"
    using assms(2) by auto
  have "sys_inv ([OSock s], m)" using chat_setup_owned [OF assms(1) sys_inv_start] Inr by simp
  from chat_reachable_ledger [OF c(1) this] c(2,3) show ?thesis by (simp add: chat_ledger_def)
qed

theorem chat_releases_witness:
  "\<exists>s m c. chat_setup sim_env [''chat_echo'', ''client'', ''9C:C7:D3:F6:E6:A8''] (boot (sim_start\<lparr>sim_records := sample_records\<rparr>))
       = (Inr (Inr s), m) \<and> socket_is_open s \<and> socket_fd s = 3
     \<and> (chat_next sim_env)\<^sup>*\<^sup>* (chat_start s [''hi'', ''quit''] m) c \<and> ch_main c = MDone
     \<and> live_fds (ch_machine c) = {#} \<and> live_sessions (ch_machine c) = {#} \<and> published (ch_machine c) = {#}"
proof -
  let ?r = "chat_setup sim_env [''chat_echo'', ''client'', ''9C:C7:D3:F6:E6:A8''] (boot (sim_start\<lparr>sim_records := sample_records\<rparr>))"
  have "(case fst ?r of Inr (Inr s) \<Rightarrow> socket_is_open s \<and> socket_fd s = 3 | _ \<Rightarrow> False)
      \<and> sim_in (world (snd ?r)) = [] \<and> sim_chunk (world (snd ?r)) = 2" by code_simp
  then obtain s m where r: "?r = (Inr (Inr s), m)" "socket_is_open s" "socket_fd s = 3" "sim_in (world m) = []"
    "sim_chunk (world m) = 2" by (cases ?r) (auto split: sum.splits)
  obtain c where "chat_run sim_env chat_schedule (chat_start s [''hi'', ''quit''] m) = Some c" and d: "ch_main c = MDone"
    using chat_sim_session [OF r(2,4,5)] by blast
  then have c: "(chat_next sim_env)\<^sup>*\<^sup>* (chat_start s [''hi'', ''quit''] m) c" by (simp add: chat_run_reaches)
  with d chat_releases [OF r(1), of "ch_machine c" "[''hi'', ''quit'']"] r show ?thesis by auto
qed

end
