(* ===== verification/Spec2Isabelle.thy ===== *)
theory Spec2Isabelle
  imports Api_System Win_Api Serial_Win_Facts Api_Defaults Server_Contract Serial_Queue Client_Bench_Facts Server_Bench_Facts
    Demo_Lockstep Bench_Session Serial_Demo_Safety Chat_Echo_Facts
begin

text \<open>
  SimpleRFCOMM, a C++20 library for Bluetooth RFCOMM: byte-stream sockets, a listening server with SDP
  publication, a client with SDP lookup, and a serial-port interface with a receive cache; and four
  example programs over it. This development models the library as its Linux build and as its Windows
  build compile it, and the example programs over the Linux build. Source paths below are relative to \<open>src/\<close>.

  \<^bold>\<open>The program.\<close> \<open>Address\<close> and \<open>Uuid\<close> (\<open>include/simple_rfcomm/types.hpp\<close>) are values with text forms.
  \<open>src/platform.hpp\<close> converts them to the operating system's types. A \<open>Socket\<close> (\<open>src/socket.cpp\<close>) owns
  one descriptor. A \<open>Server\<close> (\<open>src/server.cpp\<close>) owns a listening descriptor and, for a published
  service, an \<open>sdp::Registration\<close> (\<open>src/sdp_linux.cpp\<close>, \<open>src/sdp_win.cpp\<close>), the guard of an SDP session
  and record, or of a Winsock service; \<open>accept\<close> makes sockets. A \<open>Client\<close> (\<open>src/client.cpp\<close>) makes sockets
  by connecting, after \<open>sdp::resolve_channel\<close> for a service UUID. A \<open>SerialPort\<close> (\<open>src/serial_port.cpp\<close>)
  owns a socket it opened or was given, and a cache between it and the reading methods. The programs
  under \<open>examples/\<close> use nothing but this interface.

  \<^bold>\<open>How it is modelled.\<close> A class with a \<open>pimpl_\<close> is a datatype around an optional record with the
  fields of its \<open>Impl\<close>; \<open>None\<close> is the null pointer of a moved-from object. A \<open>unique_ptr\<close> is an
  \<open>option\<close>. Methods are functions that take the environment, the object and the machine and return
  the result, the object and the machine. Bytes, channels, descriptors and \<open>size_t\<close> sums are words of
  their width; \<open>int\<close>, \<open>ssize_t\<close> and \<open>chrono\<close> counts are integers. A method that C++ leaves undefined
  for some input returns \<open>Inl\<close> of the reason (a null \<open>pimpl_\<close> dereferenced, an array overrun). A span
  that a call writes into is a list that is returned updated. Loops are structural recursion or
  \<open>function\<close> with a measure; loops that the peer or the arguments can keep running (\<open>read_line\<close>, the
  drain loop of \<open>purge\<close>, the loops of the programs) are \<open>partial_function (option)\<close>, \<open>None\<close> meaning that
  they do not return, so no fuel is used anywhere. The kernel, the clock and BlueZ are the record \<open>env\<close>
  of functions over an arbitrary state of the outside world, Winsock is the record \<open>wenv\<close>; each call
  appends an event to the trace of the machine. The two threads of the chat are a step relation over
  their shared state. The two builds have their own \<open>Socket\<close>, \<open>Server\<close> and \<open>Client\<close>; the \<open>Impl\<close> of a
  \<open>SerialPort\<close> is a record that is polymorphic in the type of sockets, so that the settings and the cache are
  modelled once for both.

  \<^bold>\<open>Theories of the library.\<close>
    \<^item> \<open>Prelude\<close>, \<open>Hex_Text\<close>: machine types, spans, bits; hexadecimal digits of the parsers and printers.
    \<^item> \<open>Address\<close>, \<open>Uuid\<close>: the value types, their parsers against declarative grammars, printing and
      parsing as inverses, the 48-bit value of an address and the order.
    \<^item> \<open>Platform\<close>: \<open>bdaddr_t\<close>, \<open>BTH_ADDR\<close> and \<open>GUID\<close> conversions and their inverses; descriptors.
    \<^item> \<open>Environment\<close>, \<open>Sim_Env\<close>, \<open>Win_Env\<close>, \<open>Win_Sim\<close>: the calls, events and machines of the two systems;
      concrete environments on which the instances of the properties are evaluated.
    \<^item> \<open>Ledger\<close>: descriptors, SDP sessions and records that a trace shows to be held, whether every
      call was made on something held, and the locale \<open>closable\<close>, the contract of \<open>close\<close>.
    \<^item> \<open>Transfer_Loops\<close>: the locales \<open>byte_reader\<close>, \<open>fill_loop\<close>, \<open>byte_sender\<close> and \<open>send_loop\<close>, the loops
      that fill or send a buffer by partial transfers; \<open>recv_all\<close>, \<open>send_all\<close> of both systems and
      \<open>SerialPort::read_exact\<close> are their instances. \<open>Delivery\<close> extends \<open>fill_loop\<close> to \<open>live_fill_loop\<close>:
      over a connection that works the loops of sockets and ports return the bytes asked for.
    \<^item> \<open>Stream_Socket\<close>, \<open>Byte_Transfer\<close>, \<open>Socket_Safety\<close>, \<open>Socket_Options\<close>, \<open>Transfer_Frame\<close>: \<open>Socket\<close> on
      Linux. \<open>Socket_Win\<close>, \<open>Socket_Win_Facts\<close>: on Windows, where lengths are cast to \<open>int\<close>.
    \<^item> \<open>Sdp_Linux\<close>, \<open>Sdp_Facts\<close>, \<open>Sdp_Resolve\<close>: publication and lookup through BlueZ; the lookup as a search
      over the flattened response, and exactly when its array of ten identifiers overflows. \<open>Sdp_Win\<close>,
      \<open>Sdp_Win_Facts\<close>: through the name space of Winsock.
    \<^item> \<open>Server_Model\<close>, \<open>Server_Facts\<close>, \<open>Client_Model\<close>; \<open>Server_Win\<close>, \<open>Server_Win_Facts\<close>: listening,
      accepting, connecting, with every error path accounted for.
    \<^item> \<open>Server_Contract\<close>: the abstract server of three phases, the locale \<open>server_contract\<close> and its two
      interpretations, so that both servers refine it.
    \<^item> \<open>Serial_Port\<close>, \<open>Serial_Io\<close>: \<open>SerialPort\<close>. \<open>Serial_Cache\<close> and \<open>Serial_Lines\<close> show that the cache is
      transparent and what \<open>read_line\<close> returns, when it returns and when it cannot; \<open>Serial_Safety\<close> and
      \<open>Serial_Purge\<close> treat ownership, writing, the queue status and purging; \<open>Serial_Frame\<close> and
      \<open>Serial_Quiet\<close> what the methods leave alone; \<open>Serial_Queue\<close> refines the whole port to a reader of a
      byte queue.
    \<^item> \<open>Serial_Win\<close>: \<open>SerialPort\<close> over the Windows sockets. \<open>Serial_Sim\<close> reads Winsock, as seen through one
      socket, as a kernel of the Linux build and shows call by call that the Windows port is simulated by the
      Linux port over it; \<open>Serial_Win_Facts\<close> carries the results for Linux over. \<open>Win_Frame\<close> and
      \<open>Serial_Win_Frame\<close>: what the calls of the Windows build leave alone, and that Winsock is started first.
    \<^item> \<open>Ownership\<close>, \<open>Api_System\<close>, \<open>Win_Api\<close>: what objects hold; programs over the API of each system
      (sockets, servers, clients, registrations, lookups and ports) as a transition system, with the ownership
      invariant: descriptors, sessions, services and published records, not heap memory. \<open>Api_Defaults\<close>: the default arguments and the
      raw-pointer overloads of the headers.

  \<^bold>\<open>Theories of the programs.\<close>
    \<^item> \<open>Program_Args\<close>, \<open>Program_Clean\<close>: numeric arguments and exit codes; the ownership invariant along
      the calls of one program.
    \<^item> \<open>Client_Bench\<close>, \<open>Client_Bench_Facts\<close> (\<open>examples/client_bench.cpp\<close>): what a run sends, and exactly
      when it does not end.
    \<^item> \<open>Server_Bench\<close>, \<open>Server_Bench_Facts\<close> (\<open>examples/server_bench.cpp\<close>): what is echoed, and that the
      server ends with its peers.
    \<^item> \<open>Serial_Demo\<close>, \<open>Serial_Demo_Facts\<close>, \<open>Serial_Demo_Total\<close>, \<open>Serial_Demo_Safety\<close>
      (\<open>examples/serial_port_demo.cpp\<close>): the server as a refinement of its table of replies, its endless
      loop after a disconnection, ownership. \<open>Demo_Session\<close>: the server answers a whole session and ends,
      the client reads every answer. \<open>Demo_Lockstep\<close>: the server mode from end to end, with a client that waits
      for each reply. \<open>Bench_Session\<close>: the echo run of the benchmark client completes.
    \<^item> \<open>Chat_Echo\<close>, \<open>Chat_Echo_Facts\<close> (\<open>examples/chat_echo.cpp\<close>): the two threads. A step is one access to
      shared state, so that \<open>send_all\<close> and \<open>recv\<close> are several steps, which lemmas show to be those of the
      library; the return of the kernel's \<open>recv\<close> is a step of its own, taken by the peer. Invariants over all
      interleavings, where the program comes to rest while the peer is silent (the join waits for the \<open>recv\<close>) and
      that it ends when \<open>recv\<close> returns, and the two faults of closing the socket under the reader.

  \<^bold>\<open>Assumed of the outside.\<close> Only where a property says so: \<open>recv_bounded\<close> and \<open>send_bounded\<close>, for Winsock
  \<open>win_recv_bounded\<close> and \<open>win_send_bounded\<close> (a positive result counts bytes of the buffer), \<open>sends_all\<close> (a
  \<open>send\<close> that takes everything), \<open>clock_runs\<close> and \<open>win_clock_runs\<close> (the clock does not go back and moves during a \<open>recv\<close>),
  \<open>recv_drains\<close> (a peer that does not outrun the draining), \<open>peers_end\<close> (finitely many peers that send
  finitely much), \<open>peer_gone\<close> and \<open>endless\<close> (a peer that has gone, or never stops), \<open>stream_peer\<close> (a
  connection that works: \<open>recv\<close> delivers what is pending, \<open>send\<close> takes everything and what the peer answers
  joins what is pending), \<open>waiting_client\<close> (such a peer, which sends its next command when the
  last line of a reply has come), \<open>paced\<close> (a \<open>recv\<close> or a reading of the clock takes bounded time), \<open>protos_of\<close> (BlueZ reads
  the same protocol list from a record each time), \<open>win_names_bound\<close> (Winsock names a socket after the
  port it was bound to). Each is satisfied by a sample environment or a variant of it. The ownership
  properties of the Linux library hold over every environment. Two more parameters stand for what is
  not in the source: \<open>floats\<close>, the floating-point size of the benchmark client, and \<open>sleep\<close>, what the
  world does while the demo client sleeps.

  \<^bold>\<open>Not modelled.\<close> Memory exhaustion and the exceptions of containers, self-move-assignment, console output
  and the statistics that the benchmarks print, the example programs over the Windows sockets (their text is
  the same), and concurrent use of one object from several threads other than
  that of the chat (the classes have no locks).
\<close>

section \<open>The library as a whole\<close>

text \<open>
  C1. Whatever sequence of API calls a program makes on sockets, servers, clients, registrations, lookups and
  ports, with whatever arguments, and whatever the kernel and BlueZ answer, the live objects own exactly the
  descriptors, SDP sessions and published records that are held: none of these leaks, none is released twice,
  and no call is ever made on a descriptor or session that is not held at the time. In particular none is held
  once every object is destroyed. Not covered are heap memory (records and responses of BlueZ that are never
  freed), calls with undefined behaviour, and \<open>from_native\<close> and \<open>underlying_socket\<close>, which share a descriptor.
\<close>

theorem api_resources_balanced:
  assumes "(api_step e)\<^sup>*\<^sup>* ([], boot w) (os, m)"
  shows "live_fds m = owned_by obj_fds os \<and> live_sessions m = owned_by obj_sessions os
    \<and> published m = owned_by obj_records os \<and> fds_respected m \<and> sessions_respected m"
  using api_reachable_inv [OF assms] by (simp add: sys_inv_def)

theorem api_resources_balanced_witness:
  "\<exists>v g m m'. (api_step sim_env)\<^sup>*\<^sup>* ([], boot sim_start) ([OServ v, OReg g], m)
     \<and> (api_step sim_env)\<^sup>*\<^sup>* ([], boot sim_start) ([], m')
     \<and> live_fds m = {#3#} \<and> live_sessions m = {#7#} \<and> published m = {#100#}
     \<and> live_fds m' = {#} \<and> live_sessions m' = {#} \<and> published m' = {#}"
proof -
  let ?l = "server_listen sim_env server_new 5 4 (boot sim_start)"
  let ?c = "registration_create sim_env 5 uuid_serial_port ''A'' ''B'' (snd ?l)"
  obtain res v m1 where l: "?l = ((res, v), m1)" by (metis prod.collapse)
  obtain r m where c: "?c = (r, m)" by (metis prod.collapse)
  have "fst (fst ?l) = Inr True \<and> map_option listen_fd (server_pimpl (snd (fst ?l))) = Some 3
      \<and> map_option sdp_reg (server_pimpl (snd (fst ?l))) = Some None" by code_simp
  moreover have "(0 :: handle) \<le>s 3" by code_simp
  ultimately have v: "res = Inr True" "obj_fds (OServ v) = {#3#}" "obj_sessions (OServ v) = {#}" "obj_records (OServ v) = {#}"
    using l by (auto simp: server_fds_def server_reg_def registration_sessions_def registration_records_def INVALID_SOCKET_HANDLE_def)
  have "map_option registration_pimpl (fst ?c) =
      Some (Some \<lparr>reg_session = Some 7, reg_record = Some 100, registered = True\<rparr>)" by code_simp
  with c obtain g where g: "r = Some g" "registration_sessions g = {#7#}" "registration_records g = {#100#}"
    by (auto simp: registration_sessions_def registration_records_def)
  have "api_step sim_env ([], boot sim_start) ([] @ [OServ server_new], boot sim_start)" by (rule new_server)
  moreover have "api_step sim_env ([OServ server_new], boot sim_start) ([OServ server_new][0 := OServ v], m1)"
    using v(1) l by (intro call) (auto intro: serv_listen)
  moreover have "api_step sim_env ([OServ v], m1) ([OServ v] @ (case r of None \<Rightarrow> [] | Some g \<Rightarrow> [OReg g]), m)"
    using c l by (intro publish) simp
  ultimately have run: "(api_step sim_env)\<^sup>*\<^sup>* ([], boot sim_start) ([OServ v, OReg g], m)"
    using g(1) by (auto intro: rtranclp_trans [OF r_into_rtranclp] r_into_rtranclp)
  let ?m2 = "obj_destroy sim_env ([OServ v, OReg g] ! 0) m"
  have "api_step sim_env ([OServ v, OReg g], m) (take 0 [OServ v, OReg g] @ drop (Suc 0) [OServ v, OReg g], ?m2)"
    by (rule destroy) simp
  moreover have "api_step sim_env ([OReg g], ?m2) (take 0 [OReg g] @ drop (Suc 0) [OReg g], obj_destroy sim_env ([OReg g] ! 0) ?m2)"
    by (rule destroy) simp
  ultimately have end_run: "(api_step sim_env)\<^sup>*\<^sup>* ([], boot sim_start) ([], obj_destroy sim_env (OReg g) ?m2)"
    using run by (auto intro: rtranclp.rtrancl_into_rtrancl)
  show ?thesis
    using run end_run api_resources_balanced [OF run] api_resources_balanced [OF end_run] v g by auto
qed

end
